(* ===== verification/Prelude.thy ===== *)
theory Prelude
  imports Main "HOL-Library.Word" "HOL-Library.Monad_Syntax" "HOL-Library.Multiset"
begin

text \<open>
  Shared vocabulary of the daliserver development.

  C code is modelled by HOL functions in the option monad: a result \<open>None\<close> means that the
  execution has no defined result in C (a null or dangling pointer is dereferenced, a freed block
  is freed again, a null function pointer is called, an array is accessed out of its bounds, or a
  loop does not end). A result \<open>Some r\<close> is a defined execution returning \<open>r\<close>.
  Every theorem of the form \<open>f x = Some r\<close> therefore also says that this execution is
  free of undefined behaviour and that it terminates.

  A pointer is a \<open>nat option\<close>, with \<open>None\<close> for NULL. A struct that the code
  allocates and shares lives in a store \<open>nat \<rightharpoonup> struct\<close>, \<open>malloc\<close> extends the
  store at an address chosen by an allocator, and \<open>free\<close> removes the address.
\<close>

section \<open>Types\<close>

type_synonym addr = nat
type_synonym ptr = "addr option"
type_synonym byte = "8 word"
type_synonym uint16 = "16 word"
type_synonym uint32 = "32 word"
type_synonym uint64 = "64 word"
type_synonym size_t = "64 word"

text \<open>The facts that evaluate an operation, and the facts that say what it keeps.\<close>

named_theorems step_simps \<open>equations that evaluate an operation on a well-formed state\<close>
named_theorems keeps \<open>frame and preservation facts\<close>

section \<open>The option monad\<close>

lemma bind_Some_iff:
  "(m \<bind> f = Some y) \<longleftrightarrow> (\<exists>x. m = Some x \<and> f x = Some y)"
  by (cases m) auto

lemma bind_SomeI [intro]: "m = Some x \<Longrightarrow> f x = Some y \<Longrightarrow> m \<bind> f = Some y"
  by (simp add: bind_Some_iff)

section \<open>Stores\<close>

text \<open>
  Reading through a pointer, writing a field through a pointer and \<open>free\<close>. Reading or writing
  through NULL or through an address that is not allocated is undefined, and so is freeing such
  an address; \<open>free(NULL)\<close> does nothing.
\<close>

definition deref :: "(addr \<rightharpoonup> 'a) \<Rightarrow> ptr \<Rightarrow> 'a option" where
  "deref h p = (case p of None \<Rightarrow> None | Some a \<Rightarrow> h a)"

definition update_at :: "(addr \<rightharpoonup> 'a) \<Rightarrow> ptr \<Rightarrow> ('a \<Rightarrow> 'a) \<Rightarrow> (addr \<rightharpoonup> 'a) option" where
  "update_at h p f = (case p of None \<Rightarrow> None | Some a \<Rightarrow>
     (case h a of None \<Rightarrow> None | Some x \<Rightarrow> Some (h(a \<mapsto> f x))))"

definition release :: "(addr \<rightharpoonup> 'a) \<Rightarrow> ptr \<Rightarrow> (addr \<rightharpoonup> 'a) option" where
  "release h p = (case p of None \<Rightarrow> Some h | Some a \<Rightarrow>
     (case h a of None \<Rightarrow> None | Some x \<Rightarrow> Some (h(a := None))))"

lemma deref_simps [simp]: "deref h None = None" "deref h (Some a) = h a"
  by (simp_all add: deref_def)

lemma update_at_simps [simp]:
  "update_at h None f = None"
  "h a = Some x \<Longrightarrow> update_at h (Some a) f = Some (h(a \<mapsto> f x))"
  by (simp_all add: update_at_def)

lemma release_simps [simp]:
  "release h None = Some h"
  "h a = Some x \<Longrightarrow> release h (Some a) = Some (h(a := None))"
  by (simp_all add: release_def)

lemma release_dangling: "h a = None \<Longrightarrow> release h (Some a) = None"
  by (simp add: release_def)

lemma dom_release: "release h (Some a) = Some h' \<Longrightarrow> dom h' = dom h - {a} \<and> a \<in> dom h"
  by (auto simp: release_def split: option.splits if_splits)

lemma dom_update_at: "update_at h p f = Some h' \<Longrightarrow> dom h' = dom h"
  by (auto simp: update_at_def split: option.splits if_splits)

section \<open>malloc\<close>

text \<open>
  \<open>malloc\<close> is an argument of the operations that call it: given the set of addresses in use it
  returns an address, or \<open>None\<close> when it fails. The one law C guarantees is that a block it
  returns is not in use.
\<close>

type_synonym malloc = "addr set \<Rightarrow> ptr"

locale allocator =
  fixes al :: malloc
  assumes fresh: "al A = Some a \<Longrightarrow> a \<notin> A"
begin

lemma fresh_dom: "al (dom h) = Some a \<Longrightarrow> h a = None"
  using fresh by fastforce

lemma fresh_upd: "al (dom h) = Some a \<Longrightarrow> dom (h(a \<mapsto> v)) = insert a (dom h) \<and> a \<notin> dom h"
  using fresh by simp

end

text \<open>Two concrete allocators: one that never reuses an address in use, and one that is exhausted.\<close>

definition bump_alloc :: malloc where
  "bump_alloc A = (if finite A then Some (if A = {} then 1 else Suc (Max A)) else None)"

definition no_memory :: malloc where
  "no_memory A = None"

lemma bump_alloc_fresh: "bump_alloc A = Some a \<Longrightarrow> a \<notin> A"
  by (auto simp: bump_alloc_def dest: Max_ge split: if_splits)

interpretation bump: allocator bump_alloc
  by unfold_locales (rule bump_alloc_fresh)

interpretation nomem: allocator no_memory
  by unfold_locales (simp add: no_memory_def)

text \<open>An allocator that never fails on the finitely many addresses in use.\<close>

definition total_allocator :: "malloc \<Rightarrow> bool" where
  "total_allocator al \<longleftrightarrow> (\<forall>A. finite A \<longrightarrow> (\<exists>a. al A = Some a \<and> a \<notin> A))"

lemma bump_total: "total_allocator bump_alloc"
  by (auto simp: total_allocator_def bump_alloc_def dest: Max_ge)

lemma total_allocatorE:
  assumes "total_allocator al" "finite A"
  obtains a where "al A = Some a" "a \<notin> A"
  using assms unfolding total_allocator_def by blast

end
