(* ===== verification/Linked_List.thy ===== *)
theory Linked_List
  imports Prelude
begin

text \<open>
  The doubly linked list of \<open>lib/list.c\<close>. A list owns a store of nodes; the operations follow
  the pointer assignments of the C code one by one. The mutex exists only under
  \<open>HAVE_PTHREAD\<close>, which \<open>list.c\<close> never sees (it does not include \<open>config.h\<close>), so
  \<open>list_lock\<close> and \<open>list_unlock\<close> change nothing.

  \<open>list_rep\<close> relates a list in memory to the sequence of its nodes and of their data
  pointers, and the locale \<open>fifo\<close> states what the users of a list rely on.
\<close>

section \<open>Data\<close>

record ListNode =
  node_prev :: ptr
  node_next :: ptr
  node_data :: ptr

text \<open>
  \<open>'f\<close> is the type of the function pointers a list can hold as its data destructor. The
  field \<open>l_nodes\<close> is the part of the heap that holds the nodes of this list.
\<close>

record 'f List =
  l_head :: ptr
  l_tail :: ptr
  l_free :: "'f option"
  l_length :: size_t
  l_nodes :: "addr \<rightharpoonup> ListNode"

text \<open>A \<open>ListPtr\<close> is \<open>None\<close> (NULL) or the list it points to.\<close>

type_synonym 'f ListPtr = "'f List option"

section \<open>Operations\<close>

definition list_lock :: "'f List \<Rightarrow> 'f List" where
  "list_lock l = l"

definition list_unlock :: "'f List \<Rightarrow> 'f List" where
  "list_unlock l = l"

text \<open>\<open>ok\<close> says whether \<open>malloc\<close> returned a block for the list structure.\<close>

definition list_new :: "bool \<Rightarrow> 'f option \<Rightarrow> 'f ListPtr" where
  "list_new ok func =
     (if ok
      then Some \<lparr>l_head = None, l_tail = None, l_free = func, l_length = 0, l_nodes = Map.empty\<rparr>
      else None)"

definition list_enqueue :: "malloc \<Rightarrow> 'f ListPtr \<Rightarrow> ptr \<Rightarrow> (ptr \<times> 'f ListPtr) option" where
  "list_enqueue al list d = (case list of
     None \<Rightarrow> Some (None, None)
   | Some l0 \<Rightarrow>
     (case al (dom (l_nodes l0)) of
        None \<Rightarrow> None
      | Some node \<Rightarrow> do {
          let l = list_lock l0;
          let h = (l_nodes l)(node \<mapsto>
                    \<lparr>node_prev = l_tail l, node_next = None, node_data = d\<rparr>);
          h' \<leftarrow> (if l_tail l \<noteq> None then update_at h (l_tail l) (node_next_update (\<lambda>_. Some node))
                else Some h);
          Some (Some node, Some (list_unlock
            (l\<lparr>l_tail := Some node,
               l_head := (if l_head l = None then Some node else l_head l),
               l_length := l_length l + 1,
               l_nodes := h'\<rparr>)))
        }))"

definition list_dequeue :: "'f ListPtr \<Rightarrow> (ptr \<times> 'f ListPtr) option" where
  "list_dequeue list = (case list of
     None \<Rightarrow> Some (None, None)
   | Some l0 \<Rightarrow>
     (let l = list_lock l0 in
      if l_head l = None then Some (None, Some (list_unlock l))
      else do {
        hd \<leftarrow> deref (l_nodes l) (l_head l);
        h \<leftarrow> (if node_next hd \<noteq> None
              then update_at (l_nodes l) (node_next hd) (node_prev_update (\<lambda>_. None))
              else Some (l_nodes l));
        hd' \<leftarrow> deref h (l_head l);
        h' \<leftarrow> release h (l_head l);
        Some (node_data hd, Some (list_unlock
          (l\<lparr>l_head := node_next hd',
             l_tail := (if l_tail l = l_head l then None else l_tail l),
             l_length := l_length l - 1,
             l_nodes := h'\<rparr>)))
      }))"

text \<open>
  \<open>list_free\<close>: the loop runs until the head is NULL, dequeues, and calls the destructor on
  every non-null data pointer. \<open>call f a\<close> is the effect on the world \<open>'w\<close> of calling
  function pointer \<open>f\<close> on \<open>a\<close>.
\<close>

partial_function (option) list_free_loop ::
  "('f \<Rightarrow> addr \<Rightarrow> 'w \<Rightarrow> 'w option) \<Rightarrow> 'f List \<Rightarrow> 'w \<Rightarrow> ('f List \<times> 'w) option" where
  "list_free_loop call l w =
     (if l_head l = None then Some (l, w)
      else (case list_dequeue (Some l) of
              Some (d, Some l') \<Rightarrow>
                (case (if d \<noteq> None \<and> l_free l' \<noteq> None then call (the (l_free l')) (the d) w
                       else Some w) of
                   None \<Rightarrow> None
                 | Some w' \<Rightarrow> list_free_loop call l' w')
            | _ \<Rightarrow> None))"

definition list_free ::
  "('f \<Rightarrow> addr \<Rightarrow> 'w \<Rightarrow> 'w option) \<Rightarrow> 'f ListPtr \<Rightarrow> 'w \<Rightarrow> 'w option" where
  "list_free call list w = (case list of
     None \<Rightarrow> Some w
   | Some l \<Rightarrow> map_option snd (list_free_loop call l w))"

definition list_length :: "'f ListPtr \<Rightarrow> size_t" where
  "list_length list = (case list of None \<Rightarrow> 0 | Some l \<Rightarrow> l_length l)"

definition list_remove :: "'f ListPtr \<Rightarrow> ptr \<Rightarrow> (ptr \<times> 'f ListPtr) option" where
  "list_remove list node = (case list of
     None \<Rightarrow> Some (None, None)
   | Some l0 \<Rightarrow>
     (if node = None then Some (None, Some l0)
      else do {
        let l = list_lock l0;
        n \<leftarrow> deref (l_nodes l) node;
        h1 \<leftarrow> (if node_next n \<noteq> None
               then update_at (l_nodes l) (node_next n) (node_prev_update (\<lambda>_. node_prev n))
               else Some (l_nodes l));
        n1 \<leftarrow> deref h1 node;
        h2 \<leftarrow> (if node_prev n1 \<noteq> None
               then update_at h1 (node_prev n1) (node_next_update (\<lambda>_. node_next n1))
               else Some h1);
        n2 \<leftarrow> deref h2 node;
        h3 \<leftarrow> release h2 node;
        Some (node_data n2, Some (list_unlock
          (l\<lparr>l_head := (if l_head l = node then node_next n else l_head l),
             l_tail := (if l_tail l = node then node_prev n else l_tail l),
             l_length := l_length l - 1,
             l_nodes := h3\<rparr>)))
      }))"

definition list_data :: "(addr \<rightharpoonup> ListNode) \<Rightarrow> ptr \<Rightarrow> ptr option" where
  "list_data h node = (case node of None \<Rightarrow> Some None | Some a \<Rightarrow> map_option node_data (h a))"

definition list_next :: "(addr \<rightharpoonup> ListNode) \<Rightarrow> ptr \<Rightarrow> ptr option" where
  "list_next h node = (case node of None \<Rightarrow> Some None | Some a \<Rightarrow> map_option node_next (h a))"

definition list_first :: "'f ListPtr \<Rightarrow> ptr" where
  "list_first list = (case list of None \<Rightarrow> None | Some l \<Rightarrow> l_head l)"

definition list_equal :: "ptr \<Rightarrow> ptr \<Rightarrow> bool" where
  "list_equal d arg \<longleftrightarrow> d = arg"

partial_function (option) list_find_loop ::
  "(addr \<rightharpoonup> ListNode) \<Rightarrow> (ptr \<Rightarrow> ptr \<Rightarrow> bool) \<Rightarrow> ptr \<Rightarrow> ptr \<Rightarrow> ptr option" where
  "list_find_loop h func arg node =
     (case node of
        None \<Rightarrow> Some None
      | Some a \<Rightarrow> (case h a of
            None \<Rightarrow> None
          | Some n \<Rightarrow> if \<not> func (node_data n) arg then list_find_loop h func arg (node_next n)
                       else Some node))"

definition list_find :: "'f ListPtr \<Rightarrow> (ptr \<Rightarrow> ptr \<Rightarrow> bool) \<Rightarrow> ptr \<Rightarrow> ptr option" where
  "list_find list func arg = (case list of
     None \<Rightarrow> Some None
   | Some l \<Rightarrow> list_find_loop (l_nodes (list_lock l)) func arg (l_head l))"

section \<open>Representation\<close>

text \<open>
  \<open>dseg h p c ns q e\<close>: starting at pointer \<open>c\<close>, the nodes \<open>ns\<close> are linked in order;
  the first one has \<open>p\<close> as its predecessor, \<open>q\<close> points to the last one (or is
  \<open>p\<close> when there is none) and \<open>e\<close> is the successor of the last one.
\<close>

fun dseg :: "(addr \<rightharpoonup> ListNode) \<Rightarrow> ptr \<Rightarrow> ptr \<Rightarrow> addr list \<Rightarrow> ptr \<Rightarrow> ptr \<Rightarrow> bool" where
  "dseg h p c [] q e \<longleftrightarrow> c = e \<and> p = q"
| "dseg h p c (a # as) q e \<longleftrightarrow>
     c = Some a \<and> (case h a of None \<Rightarrow> False
       | Some n \<Rightarrow> node_prev n = p \<and> dseg h (Some a) (node_next n) as q e)"

definition data_at :: "(addr \<rightharpoonup> ListNode) \<Rightarrow> addr \<Rightarrow> ptr" where
  "data_at h a = (case h a of None \<Rightarrow> None | Some n \<Rightarrow> node_data n)"

definition list_rep :: "'f ListPtr \<Rightarrow> addr list \<Rightarrow> ptr list \<Rightarrow> bool" where
  "list_rep list ns ds = (case list of None \<Rightarrow> False | Some l \<Rightarrow>
     dseg (l_nodes l) None (l_head l) ns (l_tail l) None \<and> distinct ns \<and>
     dom (l_nodes l) = set ns \<and> l_length l = of_nat (length ns) \<and>
     ds = map (data_at (l_nodes l)) ns)"


subsection \<open>Segments\<close>

lemma dseg_append:
  "dseg h p c (as @ bs) q e \<longleftrightarrow> (\<exists>q' e'. dseg h p c as q' e' \<and> dseg h q' e' bs q e)"
  by (induction as arbitrary: p c) (auto split: option.splits)

lemma dseg_upd_notin [simp]:
  "a \<notin> set as \<Longrightarrow> dseg (h(a := v)) p c as q e = dseg h p c as q e"
  by (induction as arbitrary: p c) (auto split: option.splits)

lemma dseg_in_dom: "dseg h p c as q e \<Longrightarrow> a \<in> set as \<Longrightarrow> a \<in> dom h"
  by (induction as arbitrary: p c) (auto split: option.splits)

lemma dseg_set_last:
  assumes "dseg h p c (as @ [z]) q e" and "z \<notin> set as"
  shows "\<exists>n. h z = Some n \<and> q = Some z \<and> node_next n = e \<and>
    dseg (h(z \<mapsto> n\<lparr>node_next := e'\<rparr>)) p c (as @ [z]) (Some z) e'"
  using assms by (auto simp: dseg_append split: option.splits)

lemma dseg_set_first:
  assumes "dseg h p c (b # bs) q e" and "b \<notin> set bs"
  shows "\<exists>n. h b = Some n \<and> c = Some b \<and> node_prev n = p \<and>
    dseg (h(b \<mapsto> n\<lparr>node_prev := p'\<rparr>)) p' c (b # bs) q e"
  using assms by (auto split: option.splits)

lemma dseg_Nil_iff: "dseg h p None as q e \<longleftrightarrow> as = [] \<and> e = None \<and> p = q"
  by (cases as) auto

lemma dseg_first: "dseg h p c as q None \<Longrightarrow> c = (case as of [] \<Rightarrow> None | a # _ \<Rightarrow> Some a)"
  by (cases as) auto

lemma dseg_last:
  "dseg h None c as q e \<Longrightarrow> q = (if as = [] then None else Some (last as))"
  by (cases as rule: rev_cases) (auto simp: dseg_append split: option.splits)

lemma data_at_upd [simp]:
  "data_at (h(a \<mapsto> n)) b = (if b = a then node_data n else data_at h b)"
  "b \<noteq> a \<Longrightarrow> data_at (h(a := None)) b = data_at h b"
  by (auto simp: data_at_def)

lemma map_data_at_upd [simp]:
  "a \<notin> set ns \<Longrightarrow> map (data_at (h(a := v))) ns = map (data_at h) ns"
  by (auto simp: data_at_def)

lemma map_data_at_same [simp]:
  "h a = Some n \<Longrightarrow> node_data n' = node_data n \<Longrightarrow> map (data_at (h(a \<mapsto> n'))) ns = map (data_at h) ns"
  by (auto simp: data_at_def)

subsection \<open>list_rep\<close>

lemma list_repE:
  assumes "list_rep list ns ds"
  obtains l where "list = Some l" "dseg (l_nodes l) None (l_head l) ns (l_tail l) None"
    "distinct ns" "dom (l_nodes l) = set ns" "l_length l = of_nat (length ns)"
    "ds = map (data_at (l_nodes l)) ns"
  using assms by (auto simp: list_rep_def split: option.splits)

lemma list_rep_length: "list_rep list ns ds \<Longrightarrow> length ds = length ns"
  by (auto elim: list_repE)

lemma list_rep_new: "list_rep (list_new True func) [] []"
  by (simp add: list_rep_def list_new_def)

lemma list_rep_head:
  "list_rep (Some l) ns ds \<Longrightarrow> l_head l = (case ns of [] \<Rightarrow> None | a # _ \<Rightarrow> Some a)"
  by (auto simp: list_rep_def dest: dseg_first)

subsection \<open>Enqueue\<close>

lemma list_enqueue_rep:
  assumes "list_rep list ns ds" and "al (dom (l_nodes (the list))) = Some a"
    and "a \<notin> set ns"
  shows "\<exists>list'. list_enqueue al list d = Some (Some a, list') \<and>
           list_rep list' (ns @ [a]) (ds @ [d])"
proof -
  from assms(1) obtain l where l: "list = Some l"
      "dseg (l_nodes l) None (l_head l) ns (l_tail l) None" "distinct ns"
      "dom (l_nodes l) = set ns" "l_length l = of_nat (length ns)"
      "ds = map (data_at (l_nodes l)) ns"
    by (rule list_repE)
  show ?thesis
  proof (cases ns rule: rev_cases)
    case Nil
    with l assms(2) show ?thesis
      by (auto simp: list_enqueue_def list_rep_def list_lock_def list_unlock_def data_at_def)
  next
    case (snoc ms t)
    let ?n = "\<lparr>node_prev = l_tail l, node_next = None, node_data = d\<rparr>"
    let ?h = "(l_nodes l)(a \<mapsto> ?n)"
    from l assms(3) snoc have "dseg ?h None (l_head l) (ms @ [t]) (l_tail l) None" "t \<notin> set ms"
      by auto
    from dseg_set_last [OF this, of "Some a"] obtain n where n:
        "?h t = Some n" "l_tail l = Some t" "node_next n = None"
        "dseg (?h(t \<mapsto> n\<lparr>node_next := Some a\<rparr>)) None (l_head l) (ms @ [t]) (Some t) (Some a)"
      by blast
    have ne: "a \<noteq> t" using snoc assms(3) by auto
    let ?h' = "?h(t \<mapsto> n\<lparr>node_next := Some a\<rparr>)"
    have head: "l_head l \<noteq> None" using l(2) snoc by (cases ms) auto
    have "dseg ?h' None (l_head l) (ns @ [a]) (Some a) None"
      using n(2,4) ne snoc by (subst dseg_append) (auto simp: dseg_append)
    moreover have "dom ?h' = set (ns @ [a])"
      using l(4) snoc by auto
    moreover have "map (data_at ?h') (ns @ [a]) = ds @ [d]"
      using n(1) ne assms(3) l(6) by simp
    ultimately show ?thesis
      using l n(1,2) ne head assms(2,3)
      by (auto simp: list_enqueue_def list_rep_def list_lock_def list_unlock_def)
  qed
qed

lemma list_enqueue_no_memory:
  "list_rep list ns ds \<Longrightarrow> al (dom (l_nodes (the list))) = None \<Longrightarrow> list_enqueue al list d = None"
  by (auto simp: list_enqueue_def elim: list_repE)

subsection \<open>Dequeue\<close>

lemmas list_mutex_defs = list_lock_def list_unlock_def

lemma list_dequeue_empty: "list_rep list [] [] \<Longrightarrow> list_dequeue list = Some (None, list)"
  by (auto simp: list_dequeue_def list_mutex_defs elim!: list_repE)

lemma list_dequeue_rep:
  assumes "list_rep list (a # bs) (d # ds)"
  shows "\<exists>list'. list_dequeue list = Some (d, list') \<and> list_rep list' bs ds \<and>
           l_free (the list') = l_free (the list)"
proof -
  from assms obtain l where l: "list = Some l"
      "dseg (l_nodes l) None (l_head l) (a # bs) (l_tail l) None" "distinct (a # bs)"
      "dom (l_nodes l) = set (a # bs)" "l_length l = of_nat (length (a # bs))"
      "d # ds = map (data_at (l_nodes l)) (a # bs)"
    by (rule list_repE)
  from l(2) obtain n where n: "l_nodes l a = Some n" "l_head l = Some a" "node_prev n = None"
      "dseg (l_nodes l) (Some a) (node_next n) bs (l_tail l) None"
    by (auto split: option.splits)
  show ?thesis
  proof (cases bs)
    case Nil
    with n(4) have "l_tail l = Some a" "node_next n = None" by auto
    with Nil l(1,3-6) n(1-3) show ?thesis
      by (auto simp: list_dequeue_def list_rep_def list_mutex_defs data_at_def)
  next
    case (Cons b cs)
    from n(4) l(3) Cons obtain m where m: "l_nodes l b = Some m" "node_next n = Some b"
        "dseg ((l_nodes l)(b \<mapsto> m\<lparr>node_prev := None\<rparr>)) None (Some b) bs (l_tail l) None"
      using dseg_set_first [of "l_nodes l" "Some a" "node_next n" b cs "l_tail l" None None]
      by auto
    let ?h = "((l_nodes l)(b \<mapsto> m\<lparr>node_prev := None\<rparr>))(a := None)"
    have tl: "l_tail l \<noteq> Some a"
      using dseg_last [OF l(2)] l(3) Cons by (auto split: if_splits)
    have "dseg ?h None (Some b) bs (l_tail l) None"
      using m(3) l(3) by simp
    moreover have "map (data_at ?h) bs = ds"
      using l(3,6) m(1) by simp
    moreover have "dom ?h = set bs"
      using l(3,4) Cons by auto
    ultimately show ?thesis
      using l n m(1,2) tl Cons
      by (auto simp: list_dequeue_def list_rep_def list_mutex_defs data_at_def)
  qed
qed

subsection \<open>Remove\<close>

lemma list_remove_NULL: "list_remove (Some l) None = Some (None, Some l)"
  by (simp add: list_remove_def)

lemma list_remove_dangling:
  "list_rep list ns ds \<Longrightarrow> a \<notin> set ns \<Longrightarrow> list_remove list (Some a) = None"
proof (elim list_repE)
  fix l
  assume "a \<notin> set ns" "list = Some l" "dom (l_nodes l) = set ns"
  then have "l_nodes l a = None" by auto
  with \<open>list = Some l\<close> show ?thesis by (simp add: list_remove_def list_mutex_defs)
qed

text \<open>
  Unlinking a node: the successor takes over its predecessor pointer and the predecessor takes over
  its successor pointer, whichever of them exist.
\<close>

definition unlink_next :: "(addr \<rightharpoonup> ListNode) \<Rightarrow> ListNode \<Rightarrow> (addr \<rightharpoonup> ListNode) option" where
  "unlink_next h n =
     (if node_next n \<noteq> None then update_at h (node_next n) (node_prev_update (\<lambda>_. node_prev n))
      else Some h)"

definition unlink_prev :: "(addr \<rightharpoonup> ListNode) \<Rightarrow> ListNode \<Rightarrow> (addr \<rightharpoonup> ListNode) option" where
  "unlink_prev h n =
     (if node_prev n \<noteq> None then update_at h (node_prev n) (node_next_update (\<lambda>_. node_next n))
      else Some h)"

text \<open>An update that keeps the data of every node and touches no node outside a given list.\<close>

definition same_data :: "addr list \<Rightarrow> (addr \<rightharpoonup> ListNode) \<Rightarrow> (addr \<rightharpoonup> ListNode) \<Rightarrow> bool" where
  "same_data ns h h' \<longleftrightarrow>
     dom h' = dom h \<and> (\<forall>a. data_at h' a = data_at h a) \<and> (\<forall>a. a \<notin> set ns \<longrightarrow> h' a = h a)"

lemma dseg_same_data:
  "same_data ns h h' \<Longrightarrow> set as \<inter> set ns = {} \<Longrightarrow> dseg h' p c as q e = dseg h p c as q e"
  by (induction as arbitrary: p c) (auto simp: same_data_def split: option.splits)

lemma unlink_next_ok:
  assumes "dseg h (Some a) (node_next n) bs q None" "distinct bs"
  shows "\<exists>h'. unlink_next h n = Some h' \<and> same_data bs h h' \<and>
    dseg h' (node_prev n) (node_next n) bs (if bs = [] then node_prev n else q) None"
proof (cases bs)
  case Nil
  with assms show ?thesis by (auto simp: unlink_next_def same_data_def)
next
  case (Cons b cs)
  with assms obtain m where "h b = Some m" "node_next n = Some b"
      "dseg (h(b \<mapsto> m\<lparr>node_prev := node_prev n\<rparr>)) (node_prev n) (node_next n) bs q None"
    using dseg_set_first [of h "Some a" "node_next n" b cs q None "node_prev n"] by auto
  with Cons show ?thesis by (auto simp: unlink_next_def same_data_def data_at_def)
qed

lemma unlink_prev_ok:
  assumes "dseg h None c as (node_prev n) (Some a)" "distinct as"
  shows "\<exists>h'. unlink_prev h n = Some h' \<and> same_data as h h' \<and>
    dseg h' None (if as = [] then node_next n else c) as (node_prev n) (node_next n)"
proof (cases as rule: rev_cases)
  case Nil
  with assms show ?thesis by (auto simp: unlink_prev_def same_data_def)
next
  case (snoc zs z)
  with assms have "dseg h None c (zs @ [z]) (node_prev n) (Some a)" "z \<notin> set zs" by auto
  from dseg_set_last [OF this, of "node_next n"] obtain m where "h z = Some m"
      "node_prev n = Some z" "dseg (h(z \<mapsto> m\<lparr>node_next := node_next n\<rparr>)) None c as (Some z) (node_next n)"
    using snoc by blast
  with snoc show ?thesis by (auto simp: unlink_prev_def same_data_def data_at_def)
qed

lemma list_remove_rep:
  assumes "list_rep list (as @ a # bs) ds"
  shows "\<exists>list'. list_remove list (Some a) = Some (ds ! length as, list') \<and>
    list_rep list' (as @ bs) (take (length as) ds @ drop (Suc (length as)) ds) \<and>
    l_free (the list') = l_free (the list)"
proof -
  from assms obtain l where l: "list = Some l"
      "dseg (l_nodes l) None (l_head l) (as @ a # bs) (l_tail l) None" "distinct (as @ a # bs)"
      "dom (l_nodes l) = set (as @ a # bs)" "l_length l = of_nat (length (as @ a # bs))"
      "ds = map (data_at (l_nodes l)) (as @ a # bs)"
    by (rule list_repE)
  then obtain n where n: "l_nodes l a = Some n" by auto
  have pre: "dseg (l_nodes l) None (l_head l) as (node_prev n) (Some a)"
    and suf: "dseg (l_nodes l) (Some a) (node_next n) bs (l_tail l) None"
    using l(2) n by (auto simp: dseg_append)
  obtain h1 where h1: "unlink_next (l_nodes l) n = Some h1" "same_data bs (l_nodes l) h1"
      "dseg h1 (node_prev n) (node_next n) bs (if bs = [] then node_prev n else l_tail l) None"
    using unlink_next_ok [OF suf] l(3) by auto
  have "dseg h1 None (l_head l) as (node_prev n) (Some a)"
    using pre l(3) by (subst dseg_same_data [OF h1(2)]) auto
  then obtain h2 where h2: "unlink_prev h1 n = Some h2" "same_data as h1 h2"
      "dseg h2 None (if as = [] then node_next n else l_head l) as (node_prev n) (node_next n)"
    using unlink_prev_ok l(3) by fastforce
  have "dseg h2 (node_prev n) (node_next n) bs (if bs = [] then node_prev n else l_tail l) None"
    using h1(3) l(3) by (subst dseg_same_data [OF h2(2)]) auto
  with h2(3) have seg: "dseg (h2(a := None)) None (if as = [] then node_next n else l_head l) (as @ bs)
      (if bs = [] then node_prev n else l_tail l) None"
    using l(3) by (auto simp: dseg_append)
  have same: "h1 a = Some n" "h2 a = Some n" "dom h2 = dom (l_nodes l)" "data_at h2 = data_at (l_nodes l)"
    using h1(2) h2(2) l(3) n by (auto simp: same_data_def)
  have hd: "l_head l = Some a \<longleftrightarrow> as = []" and tl: "l_tail l = Some a \<longleftrightarrow> bs = []"
    using dseg_first [OF l(2)] dseg_last [OF l(2)] l(3)
    by (cases as; auto)+
  have "list_remove list (Some a) = Some (node_data n, Some
      (l\<lparr>l_head := (if as = [] then node_next n else l_head l),
         l_tail := (if bs = [] then node_prev n else l_tail l),
         l_length := l_length l - 1, l_nodes := h2(a := None)\<rparr>))"
    using l(1) n h1(1) h2(1) same(1,2) hd tl
    by (simp add: list_remove_def list_mutex_defs unlink_next_def [symmetric] unlink_prev_def [symmetric]
        del: not_None_eq)
  moreover have "map (data_at (h2(a := None))) (as @ bs) = take (length as) ds @ drop (Suc (length as)) ds"
    using l(3,6) same(4) by auto
  ultimately show ?thesis
    using l seg same n by (auto simp: list_rep_def nth_append data_at_def)
qed

subsection \<open>Traversal\<close>

text \<open>
  The node and data sequences, walked from any node of the list: the tail of \<open>ns\<close> that starts at
  a node is what the remaining iterations of a loop over \<open>list_next\<close> visit.
\<close>

lemma dseg_step:
  "dseg h p c (a # as) q e \<Longrightarrow>
     c = Some a \<and> list_data h c = Some (data_at h a) \<and>
     (\<exists>c'. list_next h c = Some c' \<and> dseg h (Some a) c' as q e)"
  by (auto simp: list_data_def list_next_def data_at_def split: option.splits)

lemma list_find_loop_dseg:
  "dseg h p c ns q None \<Longrightarrow>
     list_find_loop h func arg c = Some (find (\<lambda>a. func (data_at h a) arg) ns)"
proof (induction ns arbitrary: p c)
  case Nil
  then show ?case by (simp add: list_find_loop.simps)
next
  case (Cons a ns)
  then obtain n where "c = Some a" "h a = Some n" "dseg h (Some a) (node_next n) ns q None"
    by (auto split: option.splits)
  with Cons.IH show ?case by (simp add: list_find_loop.simps [of h func arg "Some a"] data_at_def)
qed

lemma list_find_rep:
  "list_rep list ns ds \<Longrightarrow>
     list_find list func arg = Some (find (\<lambda>a. func (data_at (l_nodes (the list)) a) arg) ns)"
  by (auto simp: list_find_def list_mutex_defs dest: list_find_loop_dseg elim!: list_repE)

lemma find_split:
  assumes "find P xs = Some x"
  shows "\<exists>as bs. xs = as @ x # bs \<and> P x \<and> (\<forall>a \<in> set as. \<not> P a)"
  using assms
proof (induction xs)
  case (Cons y ys)
  show ?case
  proof (cases "P y")
    case True
    with Cons.prems have "y # ys = [] @ x # ys \<and> P x \<and> (\<forall>a\<in>set []. \<not> P a)" by simp
    then show ?thesis by blast
  next
    case False
    with Cons obtain as bs where "ys = as @ x # bs" "P x" "\<forall>a\<in>set as. \<not> P a" by auto
    with False have "y # ys = (y # as) @ x # bs \<and> P x \<and> (\<forall>a\<in>set (y # as). \<not> P a)" by simp
    then show ?thesis by blast
  qed
qed simp

subsection \<open>Destruction\<close>

text \<open>The effect of a destructor on the data pointers, in list order.\<close>

fun free_all :: "(addr \<Rightarrow> 'w \<Rightarrow> 'w option) \<Rightarrow> ptr list \<Rightarrow> 'w \<Rightarrow> 'w option" where
  "free_all call [] w = Some w"
| "free_all call (None # ds) w = free_all call ds w"
| "free_all call (Some d # ds) w = (case call d w of None \<Rightarrow> None | Some w' \<Rightarrow> free_all call ds w')"

lemma list_free_loop_rep:
  assumes "list_rep (Some l) ns ds" "l_free l = Some f" "free_all (call f) ds w = Some w'"
  shows "\<exists>l'. list_free_loop call l w = Some (l', w') \<and> list_rep (Some l') [] [] \<and> l_nodes l' = Map.empty"
  using assms
proof (induction ds arbitrary: l ns w)
  case Nil
  then have "ns = []" by (auto dest: list_rep_length)
  with Nil show ?case
    by (auto simp: list_free_loop.simps list_rep_def)
next
  case (Cons d ds)
  then obtain a bs where ns: "ns = a # bs"
    by (cases ns) (auto dest: list_rep_length)
  with Cons.prems obtain l1 where l1: "list_dequeue (Some l) = Some (d, Some l1)"
      "list_rep (Some l1) bs ds" "l_free l1 = Some f"
    using list_dequeue_rep [of "Some l" a bs d ds] by (auto simp: list_rep_def split: option.splits)
  have "l_head l \<noteq> None" using list_rep_head [OF Cons.prems(1)] ns by simp
  moreover obtain w1 where w1: "(case d of None \<Rightarrow> Some w | Some x \<Rightarrow> call f x w) = Some w1"
      "free_all (call f) ds w1 = Some w'"
    using Cons.prems(3) by (cases d) (auto split: option.splits)
  ultimately have "list_free_loop call l w = list_free_loop call l1 w1"
    using l1 w1(1) by (subst list_free_loop.simps) (auto split: option.splits)
  with Cons.IH [OF l1(2,3) w1(2)] show ?case by simp
qed

section \<open>The queue contract\<close>

datatype queue_op = Enq ptr | Deq

text \<open>
  A sequence of calls on an implementation of a queue, collecting what \<open>deq\<close> returns, and
  the same sequence on the specification: a list to which \<open>Enq\<close> appends and from whose
  front \<open>Deq\<close> takes, NULL when it is empty.
\<close>

fun run_ops :: "('q \<Rightarrow> ptr \<Rightarrow> (ptr \<times> 'q) option) \<Rightarrow> ('q \<Rightarrow> (ptr \<times> 'q) option) \<Rightarrow>
    'q \<Rightarrow> queue_op list \<Rightarrow> (ptr list \<times> 'q) option" where
  "run_ops enq deq q [] = Some ([], q)"
| "run_ops enq deq q (Enq d # ops) =
     (case enq q d of None \<Rightarrow> None | Some (_, q') \<Rightarrow> run_ops enq deq q' ops)"
| "run_ops enq deq q (Deq # ops) =
     (case deq q of None \<Rightarrow> None
      | Some (d, q') \<Rightarrow> map_option (apfst ((#) d)) (run_ops enq deq q' ops))"

fun spec_ops :: "ptr list \<Rightarrow> queue_op list \<Rightarrow> ptr list \<times> ptr list" where
  "spec_ops xs [] = ([], xs)"
| "spec_ops xs (Enq d # ops) = spec_ops (xs @ [d]) ops"
| "spec_ops [] (Deq # ops) = apfst ((#) None) (spec_ops [] ops)"
| "spec_ops (x # xs) (Deq # ops) = apfst ((#) x) (spec_ops xs ops)"

locale fifo =
  fixes enq :: "'q \<Rightarrow> ptr \<Rightarrow> (ptr \<times> 'q) option"
    and deq :: "'q \<Rightarrow> (ptr \<times> 'q) option"
    and len :: "'q \<Rightarrow> size_t"
    and rep :: "'q \<Rightarrow> ptr list \<Rightarrow> bool"
  assumes enq: "rep q xs \<Longrightarrow> \<exists>n q'. enq q d = Some (Some n, q') \<and> rep q' (xs @ [d])"
    and deq_empty: "rep q [] \<Longrightarrow> deq q = Some (None, q)"
    and deq: "rep q (x # xs) \<Longrightarrow> \<exists>q'. deq q = Some (x, q') \<and> rep q' xs"
    and len: "rep q xs \<Longrightarrow> len q = of_nat (length xs)"
begin

lemma run_ops_refines:
  "rep q xs \<Longrightarrow> \<exists>q'. run_ops enq deq q ops = Some (fst (spec_ops xs ops), q') \<and>
     rep q' (snd (spec_ops xs ops))"
proof (induction ops arbitrary: q xs)
  case Nil
  then show ?case by simp
next
  case (Cons op ops)
  show ?case
  proof (cases op)
    case (Enq d)
    from enq [OF Cons.prems, of d] obtain n q' where "enq q d = Some (Some n, q')" "rep q' (xs @ [d])"
      by blast
    with Cons.IH Enq show ?thesis by fastforce
  next
    case Deq
    show ?thesis
    proof (cases xs)
      case Nil
      with Cons Deq deq_empty show ?thesis by fastforce
    next
      case (Cons x ys)
      with deq Cons.prems obtain q' where "deq q = Some (x, q')" "rep q' ys" by blast
      with Cons.IH Cons Deq show ?thesis by fastforce
    qed
  qed
qed

lemma len_bounded: "rep q xs \<Longrightarrow> length xs < 2 ^ 64 \<Longrightarrow> unat (len q) = length xs"
  by (simp add: len unat_of_nat)

end

text \<open>
  The list implements the contract with any allocator that does not fail on the finitely many
  addresses in use.
\<close>

definition list_holds :: "'f ListPtr \<Rightarrow> ptr list \<Rightarrow> bool" where
  "list_holds list ds \<longleftrightarrow> (\<exists>ns. list_rep list ns ds)"

lemma dseg_unique: "dseg h p c ns q None \<Longrightarrow> dseg h p' c ms q' None \<Longrightarrow> ms = ns"
proof (induction ns arbitrary: p p' c ms)
  case Nil
  then show ?case by (cases ms) simp_all
next
  case (Cons n ns)
  then show ?case by (cases ms) (auto split: option.splits)
qed

lemma list_holds_unique: "list_holds list xs \<Longrightarrow> list_holds list ys \<Longrightarrow> ys = xs"
  by (auto simp: list_holds_def list_rep_def split: option.splits dest: dseg_unique)

lemma list_holds_new: "list_holds (list_new True f) []"
  unfolding list_holds_def by (blast intro: list_rep_new)

lemma list_holds_enqueue:
  assumes "total_allocator al" "list_holds list ds"
  shows "\<exists>n list'. list_enqueue al list d = Some (Some n, list') \<and> list_holds list' (ds @ [d])"
proof -
  from assms(2) obtain ns where ns: "list_rep list ns ds" by (auto simp: list_holds_def)
  then have "dom (l_nodes (the list)) = set ns" by (elim list_repE) simp
  moreover from this assms(1) obtain a where "al (dom (l_nodes (the list))) = Some a" "a \<notin> set ns"
    by (metis List.finite_set total_allocator_def)
  ultimately show ?thesis using list_enqueue_rep [OF ns] unfolding list_holds_def by blast
qed

lemma list_holds_dequeue_empty: "list_holds list [] \<Longrightarrow> list_dequeue list = Some (None, list)"
  using list_dequeue_empty list_rep_length unfolding list_holds_def by fastforce

lemma list_holds_dequeue:
  assumes "list_holds list (d # ds)"
  shows "\<exists>list'. list_dequeue list = Some (d, list') \<and> list_holds list' ds"
proof -
  from assms obtain ns where ns: "list_rep list ns (d # ds)" by (auto simp: list_holds_def)
  moreover from this obtain a bs where "ns = a # bs" by (cases ns) (auto dest: list_rep_length)
  ultimately show ?thesis using list_dequeue_rep unfolding list_holds_def by blast
qed

lemma list_holds_length: "list_holds list ds \<Longrightarrow> list_length list = of_nat (length ds)"
  by (auto simp: list_holds_def list_length_def dest: list_rep_length elim!: list_repE)

lemma list_is_fifo:
  "total_allocator al \<Longrightarrow> fifo (list_enqueue al) list_dequeue list_length list_holds"
  by unfold_locales
    (auto intro: list_holds_enqueue list_holds_dequeue_empty list_holds_dequeue list_holds_length)

interpretation lq: fifo "list_enqueue bump_alloc" list_dequeue list_length list_holds
  by (rule list_is_fifo [OF bump_total])

section \<open>Properties\<close>

lemma find_data_remove1:
  assumes "list_rep list ns ds" "d \<in> set ds"
  shows "\<exists>as a bs. ns = as @ a # bs \<and>
    list_find list list_equal d = Some (Some a) \<and>
    take (length as) ds @ drop (Suc (length as)) ds = remove1 d ds \<and> ds ! length as = d"
proof -
  let ?P = "\<lambda>a. data_at (l_nodes (the list)) a = d"
  from assms have ds: "ds = map (data_at (l_nodes (the list))) ns" by (elim list_repE) simp
  with assms(2) have "find ?P ns \<noteq> None" by (auto simp: find_None_iff)
  then obtain a where a: "find ?P ns = Some a" by blast
  from find_split [OF this] obtain as bs where
    s: "ns = as @ a # bs" "?P a" "\<forall>x\<in>set as. \<not> ?P x" by blast
  then have "d \<notin> set (map (data_at (l_nodes (the list))) as)" by auto
  with s ds have "take (length as) ds @ drop (Suc (length as)) ds = remove1 d ds" "ds ! length as = d"
    by (simp_all add: remove1_append nth_append)
  moreover have "list_find list list_equal d = Some (Some a)"
    using list_find_rep [OF assms(1), of list_equal d] a by (simp add: list_equal_def)
  ultimately show ?thesis using s(1) by blast
qed

text \<open>
  Property C9: any sequence of \<open>list_enqueue\<close> and \<open>list_dequeue\<close> calls on a new list is free of
  undefined behaviour and returns exactly what a first-in first-out queue returns, NULL from an
  empty one; the list in memory holds the remaining elements in order.
\<close>

theorem list_fifo_refinement:
  assumes "total_allocator al"
  shows "\<exists>list'. run_ops (list_enqueue al) list_dequeue (list_new True f) ops
             = Some (fst (spec_ops [] ops), list') \<and> list_holds list' (snd (spec_ops [] ops))"
  by (rule fifo.run_ops_refines [OF list_is_fifo [OF assms] list_holds_new])

theorem list_fifo_refinement_witness:
  "\<exists>list'. run_ops (list_enqueue bump_alloc) list_dequeue (list_new True (None :: unit option))
     [Enq (Some 7), Enq (Some 8), Deq, Enq (Some 9), Deq, Deq, Deq]
       = Some ([Some 7, Some 8, Some 9, None], list') \<and> list_holds list' []"
  using list_fifo_refinement [OF bump_total, where f = None and
      ops = "[Enq (Some 7), Enq (Some 8), Deq, Enq (Some 9), Deq, Deq, Deq]"]
  by simp

lemma list_holds_find_remove:
  assumes "list_holds list ds" "d \<in> set ds"
  shows "\<exists>node list'. list_find list list_equal d = Some (Some node) \<and>
           list_remove list (Some node) = Some (d, list') \<and> list_holds list' (remove1 d ds) \<and>
           l_free (the list') = l_free (the list)"
proof -
  from assms(1) obtain ns where ns: "list_rep list ns ds" by (auto simp: list_holds_def)
  from find_data_remove1 [OF ns assms(2)] obtain as a bs where
    s: "ns = as @ a # bs" "list_find list list_equal d = Some (Some a)"
       "take (length as) ds @ drop (Suc (length as)) ds = remove1 d ds" "ds ! length as = d" by blast
  with list_remove_rep [of list as a bs ds] ns show ?thesis
    unfolding list_holds_def by auto
qed

lemma list_enqueue_free: "list_enqueue al (Some l) d = Some (n, list') \<Longrightarrow> l_free (the list') = l_free l"
  by (auto simp: list_enqueue_def list_lock_def list_unlock_def bind_Some_iff Let_def split: option.splits if_splits)

text \<open>The destructor of a list never changes.\<close>

lemma list_enqueue_keeps_free: "list_enqueue al list d = Some (n, list') \<Longrightarrow> map_option l_free list' = map_option l_free list"
  by (auto simp: list_enqueue_def list_lock_def list_unlock_def bind_Some_iff Let_def split: option.splits if_splits)

lemma list_dequeue_keeps_free: "list_dequeue list = Some (d, list') \<Longrightarrow> map_option l_free list' = map_option l_free list"
  by (auto simp: list_dequeue_def list_lock_def list_unlock_def bind_Some_iff Let_def split: option.splits if_splits)

lemma list_holds_free:
  assumes "list_holds (Some l) ds" "l_free l = Some f" "free_all (call f) ds w = Some w'"
  shows "list_free call (Some l) w = Some w' \<and> (\<exists>l'. list_free_loop call l w = Some (l', w') \<and> l_nodes l' = Map.empty)"
  using assms list_free_loop_rep [of l _ ds f call w w'] by (fastforce simp: list_holds_def list_free_def)

text \<open>
  Property C13: searching a list for a data pointer and removing the node found (the body of
  \<open>server_connection_remove\<close>) is free of undefined behaviour, returns that pointer, and leaves
  a well-formed list from which exactly the first occurrence is gone, in the same order.
\<close>

theorem list_find_remove:
  assumes "list_holds list ds" and "d \<in> set ds"
  shows "\<exists>node list'. list_find list list_equal d = Some node \<and>
           list_remove list node = Some (d, list') \<and> list_holds list' (remove1 d ds)"
  using list_holds_find_remove [OF assms] by blast

definition sample_list :: "unit List" where
  "sample_list = \<lparr>l_head = Some 1, l_tail = Some 3, l_free = Some (), l_length = 3,
     l_nodes = [1 \<mapsto> \<lparr>node_prev = None, node_next = Some 2, node_data = Some 7\<rparr>,
                2 \<mapsto> \<lparr>node_prev = Some 1, node_next = Some 3, node_data = Some 8\<rparr>,
                3 \<mapsto> \<lparr>node_prev = Some 2, node_next = None, node_data = Some 7\<rparr>]\<rparr>"

lemma sample_list_holds: "list_holds (Some sample_list) [Some 7, Some 8, Some 7]"
  unfolding list_holds_def
  by (rule exI [of _ "[1, 2, 3]"]) (auto simp: list_rep_def sample_list_def data_at_def)

theorem list_find_remove_witness:
  "\<exists>node list'. list_find (Some sample_list) list_equal (Some 7) = Some node \<and>
     list_remove (Some sample_list) node = Some (Some 7, list') \<and> list_holds list' [Some 8, Some 7]"
  using list_find_remove [OF sample_list_holds, of "Some 7"] by simp

text \<open>
  Property C16: \<open>list_free\<close> on a well-formed list with a destructor terminates, calls the destructor
  exactly once on every non-null data pointer in list order, and frees every node.
\<close>

theorem list_free_destroys:
  assumes "list_holds (Some l) ds" and "l_free l = Some f" and "free_all (call f) ds w = Some w'"
  shows "list_free call (Some l) w = Some w' \<and>
    (\<exists>l'. list_free_loop call l w = Some (l', w') \<and> l_nodes l' = Map.empty)"
  by (rule list_holds_free [of l ds f call w w', OF assms])

definition log_call :: "unit \<Rightarrow> addr \<Rightarrow> addr list \<Rightarrow> addr list option" where
  "log_call f a log = Some (log @ [a])"

theorem list_free_destroys_witness:
  "list_free log_call (Some sample_list) [] = Some [7, 8, 7]"
  using list_free_destroys [OF sample_list_holds, of "()" log_call "[]" "[7, 8, 7]"]
  by (simp add: sample_list_def log_call_def)

end
