(* ===== verification/Dispatch_Queue.thy ===== *)
theory Dispatch_Queue
  imports Prelude
begin

unbundle bit_operations_syntax

text \<open>
  The poll dispatcher of \<open>lib/dispatch.c\<close>. A table holds two parallel arrays, the handler
  entries and the \<open>pollfd\<close> structures handed to \<open>poll\<close>; \<open>numentries\<close> of the
  \<open>allocentries\<close> slots are in use. A slot that was allocated and never written is
  \<open>None\<close>, and reading it is undefined. Handlers are function pointers of type \<open>'f\<close>;
  calling one can change the table and the rest of the world \<open>'w\<close>, so the event loop passes
  both on.

  \<open>disp_rep\<close> relates a table to the list of its entries; the operations are proved against
  that list, and \<open>dispatch_run\<close> against the contract \<open>event_handlers\<close> of the handlers.
\<close>

section \<open>Data\<close>

datatype DispatchError = DISPATCH_FD_CLOSED | DISPATCH_POLL_ERROR | DISPATCH_FD_INVALID

datatype DispatchStatus =
  DISPATCH_ERROR | DISPATCH_TIMEOUT | DISPATCH_EVENT_HANDLED | DISPATCH_NO_EVENTS

definition DISPATCH_ALLOC_INCREASE :: nat where
  "DISPATCH_ALLOC_INCREASE = 4"

text \<open>The event bits of \<open>poll.h\<close>.\<close>

definition POLLIN :: uint16 where "POLLIN = 0x01"
definition POLLERR :: uint16 where "POLLERR = 0x08"
definition POLLHUP :: uint16 where "POLLHUP = 0x10"
definition POLLNVAL :: uint16 where "POLLNVAL = 0x20"

record 'f DispatchEntry =
  e_arg :: ptr
  e_readyfn :: "'f option"
  e_errorfn :: "'f option"
  e_indexfn :: "'f option"

record pollfd =
  p_fd :: int
  p_events :: uint16
  p_revents :: uint16

record 'f Dispatch =
  t_numentries :: nat
  t_allocentries :: nat
  t_entries :: "'f DispatchEntry option list option"
  t_fds :: "pollfd option list option"

type_synonym 'f DispatchPtr = "'f Dispatch option"

section \<open>Arrays\<close>

text \<open>Reading and writing a slot of a heap array; \<open>realloc\<close> keeps the old contents.\<close>

definition get_slot :: "'a option list option \<Rightarrow> nat \<Rightarrow> 'a option" where
  "get_slot arr i = (case arr of None \<Rightarrow> None | Some xs \<Rightarrow> if i < length xs then xs ! i else None)"

definition put_slot :: "'a option list option \<Rightarrow> nat \<Rightarrow> 'a \<Rightarrow> 'a option list option option" where
  "put_slot arr i x = (case arr of None \<Rightarrow> None
     | Some xs \<Rightarrow> if i < length xs then Some (Some (xs[i := Some x])) else None)"

definition realloc_slots :: "bool \<Rightarrow> 'a option list option \<Rightarrow> nat \<Rightarrow> 'a option list option" where
  "realloc_slots ok arr n =
     (if ok then Some (let xs = (case arr of None \<Rightarrow> [] | Some xs \<Rightarrow> xs)
                       in take n xs @ replicate (n - length xs) None)
      else None)"

section \<open>Operations\<close>

definition dispatch_new :: "bool \<Rightarrow> 'f DispatchPtr" where
  "dispatch_new ok =
     (if ok then Some \<lparr>t_numentries = 0, t_allocentries = 0, t_entries = None, t_fds = None\<rparr>
      else None)"

text \<open>\<open>dispatch_free\<close> gives back the two arrays and the structure; the result is the number of blocks.\<close>

definition dispatch_free :: "'f DispatchPtr \<Rightarrow> nat" where
  "dispatch_free table = (case table of
     None \<Rightarrow> 0
   | Some t \<Rightarrow> (if t_entries t \<noteq> None then 1 else 0) + (if t_fds t \<noteq> None then 1 else 0) + 1)"

text \<open>
  \<open>dispatch_add\<close>: \<open>ok1\<close> and \<open>ok2\<close> are the outcomes of the two \<open>realloc\<close> calls. The
  \<open>short\<close> argument \<open>events\<close> is -1 when \<open>POLLIN\<close> is meant.
\<close>

definition dispatch_add :: "('f \<Rightarrow> ptr \<Rightarrow> nat \<Rightarrow> 'w \<Rightarrow> 'w option) \<Rightarrow> bool \<Rightarrow> bool \<Rightarrow> 'f DispatchPtr \<Rightarrow> int \<Rightarrow>
    uint16 \<Rightarrow> 'f option \<Rightarrow> 'f option \<Rightarrow> 'f option \<Rightarrow> ptr \<Rightarrow> 'w \<Rightarrow> ('f DispatchPtr \<times> 'w) option" where
  "dispatch_add call_index ok1 ok2 table fd events readyfn errorfn indexfn arg w = (case table of
     None \<Rightarrow> Some (None, w)
   | Some t0 \<Rightarrow>
     if fd < 0 then Some (table, w)
     else
       (let t = (if t_allocentries t0 < t_numentries t0 + 1
                 then t0\<lparr>t_allocentries := t_allocentries t0 + DISPATCH_ALLOC_INCREASE,
                         t_entries := realloc_slots ok1 (t_entries t0)
                           (t_allocentries t0 + DISPATCH_ALLOC_INCREASE),
                         t_fds := realloc_slots ok2 (t_fds t0)
                           (t_allocentries t0 + DISPATCH_ALLOC_INCREASE)\<rparr>
                 else t0)
        in if t_entries t \<noteq> None \<and> t_fds t \<noteq> None
           then do {
             let index = t_numentries t;
             es \<leftarrow> put_slot (t_entries t) index
               \<lparr>e_arg = arg, e_readyfn = readyfn, e_errorfn = errorfn, e_indexfn = indexfn\<rparr>;
             fs \<leftarrow> put_slot (t_fds t) index
               \<lparr>p_fd = fd, p_events = (if events = -1 then POLLIN else events), p_revents = 0\<rparr>;
             w' \<leftarrow> (case indexfn of None \<Rightarrow> Some w | Some f \<Rightarrow> call_index f arg index w);
             Some (Some (t\<lparr>t_entries := es, t_fds := fs, t_numentries := index + 1\<rparr>), w')
           }
           else Some (Some t, w)))"

definition dispatch_remove :: "('f \<Rightarrow> ptr \<Rightarrow> nat \<Rightarrow> 'w \<Rightarrow> 'w option) \<Rightarrow> 'f DispatchPtr \<Rightarrow> nat \<Rightarrow> 'w \<Rightarrow>
    ('f DispatchPtr \<times> 'w) option" where
  "dispatch_remove call_index table index w = (case table of
     None \<Rightarrow> Some (None, w)
   | Some t \<Rightarrow>
     if index < t_numentries t then
       (if index \<noteq> t_numentries t - 1 then do {
          e \<leftarrow> get_slot (t_entries t) (t_numentries t - 1);
          es \<leftarrow> put_slot (t_entries t) index e;
          p \<leftarrow> get_slot (t_fds t) (t_numentries t - 1);
          fs \<leftarrow> put_slot (t_fds t) index p;
          w' \<leftarrow> (case e_indexfn e of None \<Rightarrow> Some w | Some f \<Rightarrow> call_index f (e_arg e) index w);
          Some (Some (t\<lparr>t_entries := es, t_fds := fs, t_numentries := t_numentries t - 1\<rparr>), w')
        }
        else Some (Some (t\<lparr>t_numentries := t_numentries t - 1\<rparr>), w))
     else Some (table, w))"

text \<open>
  \<open>dispatch_remove_fd\<close>: after a removal the loop stays at the same index (\<open>i--\<close> and then
  \<open>i++\<close>), so that the entry moved there is examined too.
\<close>

partial_function (option) dispatch_remove_fd_loop ::
  "('f \<Rightarrow> ptr \<Rightarrow> nat \<Rightarrow> 'w \<Rightarrow> 'w option) \<Rightarrow> int \<Rightarrow> nat \<Rightarrow> 'f Dispatch \<Rightarrow> 'w \<Rightarrow> ('f Dispatch \<times> 'w) option" where
  "dispatch_remove_fd_loop call_index fd i t w =
     (if i < t_numentries t then
        (case get_slot (t_fds t) i of
           None \<Rightarrow> None
         | Some p \<Rightarrow>
           if p_fd p = fd then
             (case dispatch_remove call_index (Some t) i w of
                Some (Some t', w') \<Rightarrow> dispatch_remove_fd_loop call_index fd i t' w'
              | _ \<Rightarrow> None)
           else dispatch_remove_fd_loop call_index fd (i + 1) t w)
      else Some (t, w))"

definition dispatch_remove_fd :: "('f \<Rightarrow> ptr \<Rightarrow> nat \<Rightarrow> 'w \<Rightarrow> 'w option) \<Rightarrow> 'f DispatchPtr \<Rightarrow> int \<Rightarrow> 'w \<Rightarrow>
    ('f DispatchPtr \<times> 'w) option" where
  "dispatch_remove_fd call_index table fd w = (case table of
     None \<Rightarrow> Some (None, w)
   | Some t \<Rightarrow> map_option (apfst Some) (dispatch_remove_fd_loop call_index fd 0 t w))"

text \<open>
  The body of the event loop for one entry: which handler is called, by the priority of the
  source, and what a call does to the table and the world.
\<close>

type_synonym ('f, 'w) handler = "'f \<Rightarrow> ptr \<Rightarrow> 'f Dispatch \<times> 'w \<Rightarrow> ('f Dispatch \<times> 'w) option"

definition call_opt :: "('f \<Rightarrow> 'a \<Rightarrow> 's \<Rightarrow> 's option) \<Rightarrow> 'f option \<Rightarrow> 'a \<Rightarrow> 's \<Rightarrow> 's option" where
  "call_opt call f a s = (case f of None \<Rightarrow> Some s | Some g \<Rightarrow> call g a s)"

definition dispatch_entry :: "('f, 'w) handler \<Rightarrow> (DispatchError \<Rightarrow> ('f, 'w) handler) \<Rightarrow> nat \<Rightarrow>
    'f Dispatch \<times> 'w \<Rightarrow> ('f Dispatch \<times> 'w) option" where
  "dispatch_entry call_ready call_error i s = do {
     p \<leftarrow> get_slot (t_fds (fst s)) i;
     if p_revents p AND POLLNVAL \<noteq> 0 then do {
       e \<leftarrow> get_slot (t_entries (fst s)) i;
       call_opt (call_error DISPATCH_FD_INVALID) (e_errorfn e) (e_arg e) s
     } else if p_revents p AND POLLERR \<noteq> 0 then do {
       e \<leftarrow> get_slot (t_entries (fst s)) i;
       call_opt (call_error DISPATCH_POLL_ERROR) (e_errorfn e) (e_arg e) s
     } else if p_revents p AND POLLHUP \<noteq> 0 then do {
       e \<leftarrow> get_slot (t_entries (fst s)) i;
       call_opt (call_error DISPATCH_FD_CLOSED) (e_errorfn e) (e_arg e) s
     } else if p_revents p AND p_events p \<noteq> 0 then do {
       e \<leftarrow> get_slot (t_entries (fst s)) i;
       call_opt call_ready (e_readyfn e) (e_arg e) s
     } else Some s
   }"

partial_function (option) dispatch_loop :: "('f, 'w) handler \<Rightarrow> (DispatchError \<Rightarrow> ('f, 'w) handler) \<Rightarrow>
    nat \<Rightarrow> 'f Dispatch \<times> 'w \<Rightarrow> ('f Dispatch \<times> 'w) option" where
  "dispatch_loop call_ready call_error i s =
     (if i < t_numentries (fst s) then
        (case dispatch_entry call_ready call_error i s of
           None \<Rightarrow> None
         | Some s' \<Rightarrow> dispatch_loop call_ready call_error (i + 1) s')
      else Some s)"

text \<open>
  \<open>poll\<close> is given the first \<open>numentries\<close> structures and the timeout; it returns the
  number of ready descriptors (-1 for an error or a signal) and the \<open>revents\<close> it stores.
\<close>

definition set_revents :: "uint16 list \<Rightarrow> 'f Dispatch \<Rightarrow> 'f Dispatch" where
  "set_revents rs t = t\<lparr>t_fds := map_option (\<lambda>fs.
     map2 (\<lambda>i p. if i < t_numentries t \<and> i < length rs then map_option (\<lambda>q. q\<lparr>p_revents := rs ! i\<rparr>) p else p)
       [0..<length fs] fs) (t_fds t)\<rparr>"

definition poll_set :: "'f Dispatch \<Rightarrow> pollfd list option" where
  "poll_set t = those (map (get_slot (t_fds t)) [0..<t_numentries t])"

definition dispatch_run :: "(pollfd list \<Rightarrow> int \<Rightarrow> int \<times> uint16 list) \<Rightarrow> ('f, 'w) handler \<Rightarrow>
    (DispatchError \<Rightarrow> ('f, 'w) handler) \<Rightarrow> 'f DispatchPtr \<Rightarrow> int \<Rightarrow> 'w \<Rightarrow>
    (DispatchStatus \<times> 'f DispatchPtr \<times> 'w) option" where
  "dispatch_run poll call_ready call_error table timeout w = (case table of
     None \<Rightarrow> Some (DISPATCH_ERROR, None, w)
   | Some t \<Rightarrow> do {
       fds \<leftarrow> poll_set t;
       let (ready, rs) = poll fds timeout;
       if ready = -1 then Some (DISPATCH_TIMEOUT, Some t, w)
       else if ready = 0 then Some (DISPATCH_TIMEOUT, Some (set_revents rs t), w)
       else do {
         s \<leftarrow> dispatch_loop call_ready call_error 0 (set_revents rs t, w);
         Some (DISPATCH_EVENT_HANDLED, Some (fst s), snd s)
       }
     })"

section \<open>Representation\<close>

definition disp_rep :: "'f Dispatch \<Rightarrow> (pollfd \<times> 'f DispatchEntry) list \<Rightarrow> bool" where
  "disp_rep t xs \<longleftrightarrow>
     t_numentries t = length xs \<and> length xs \<le> t_allocentries t \<and>
     (if t_allocentries t = 0 then t_entries t = None \<and> t_fds t = None
      else \<exists>es fs. t_entries t = Some es \<and> t_fds t = Some fs \<and>
             length es = t_allocentries t \<and> length fs = t_allocentries t \<and>
             take (length xs) es = map (Some \<circ> snd) xs \<and> take (length xs) fs = map (Some \<circ> fst) xs)"

lemma disp_rep_num: "disp_rep t xs \<Longrightarrow> t_numentries t = length xs"
  by (simp add: disp_rep_def)

lemma disp_rep_new: "disp_rep (the (dispatch_new True)) []"
  by (simp add: disp_rep_def dispatch_new_def)

lemma disp_rep_arrays:
  assumes "disp_rep t xs" "t_allocentries t \<noteq> 0"
  obtains es fs where "t_entries t = Some es" "t_fds t = Some fs"
    "length es = t_allocentries t" "length fs = t_allocentries t" "length xs \<le> t_allocentries t"
    "take (length xs) es = map (Some \<circ> snd) xs" "take (length xs) fs = map (Some \<circ> fst) xs"
  using assms by (auto simp: disp_rep_def)

lemma disp_rep_get:
  assumes "disp_rep t xs" "i < length xs"
  shows "get_slot (t_fds t) i = Some (fst (xs ! i))" "get_slot (t_entries t) i = Some (snd (xs ! i))"
proof -
  from assms have "t_allocentries t \<noteq> 0" by (auto simp: disp_rep_def)
  with assms(1) obtain es fs where a: "t_entries t = Some es" "t_fds t = Some fs"
      "length es = t_allocentries t" "length fs = t_allocentries t" "length xs \<le> t_allocentries t"
      "take (length xs) es = map (Some \<circ> snd) xs" "take (length xs) fs = map (Some \<circ> fst) xs"
    by (rule disp_rep_arrays)
  have "es ! i = take (length xs) es ! i" "fs ! i = take (length xs) fs ! i" using assms(2) by simp_all
  with a assms(2) show "get_slot (t_fds t) i = Some (fst (xs ! i))"
      "get_slot (t_entries t) i = Some (snd (xs ! i))"
    by (simp_all add: get_slot_def)
qed

lemma take_Suc_update: "n < length xs \<Longrightarrow> take (Suc n) (xs[n := y]) = take n xs @ [y]"
  by (simp add: take_Suc_conv_app_nth)

lemma take_map_butlast:
  "take (length xs) as = map f xs \<Longrightarrow> take (length xs - 1) as = map f (butlast xs)"
  by (metis butlast_conv_take diff_le_self length_map map_butlast take_take min.absorb1)

lemma disp_rep_append:
  assumes "disp_rep t xs" "length xs < t_allocentries t"
  shows "\<exists>es fs. put_slot (t_entries t) (length xs) e = Some es \<and>
           put_slot (t_fds t) (length xs) p = Some fs \<and>
           disp_rep (t\<lparr>t_entries := es, t_fds := fs, t_numentries := length xs + 1\<rparr>) (xs @ [(p, e)])"
  using assms by (auto simp: disp_rep_def put_slot_def take_Suc_update)

lemma disp_rep_swap:
  assumes "disp_rep t xs" "i < length xs" "i \<noteq> length xs - 1"
  shows "\<exists>es fs. put_slot (t_entries t) i (snd (last xs)) = Some es \<and>
           put_slot (t_fds t) i (fst (last xs)) = Some fs \<and>
           disp_rep (t\<lparr>t_entries := es, t_fds := fs, t_numentries := length xs - 1\<rparr>)
             ((butlast xs)[i := last xs])"
proof -
  from assms have "t_allocentries t \<noteq> 0" by (auto simp: disp_rep_def)
  with assms(1) obtain es fs where a: "t_entries t = Some es" "t_fds t = Some fs"
      "length es = t_allocentries t" "length fs = t_allocentries t" "length xs \<le> t_allocentries t"
      "take (length xs) es = map (Some \<circ> snd) xs" "take (length xs) fs = map (Some \<circ> fst) xs"
    by (rule disp_rep_arrays)
  note t = take_map_butlast [OF a(6)] take_map_butlast [OF a(7)]
  show ?thesis
    using a(1-5) assms(2,3) t
    by (auto simp: disp_rep_def put_slot_def take_update_swap map_update)
qed

lemma disp_rep_drop_last:
  assumes "disp_rep t xs"
  shows "disp_rep (t\<lparr>t_numentries := length xs - 1\<rparr>) (butlast xs)"
  using assms take_map_butlast [of xs _ "Some \<circ> fst"] take_map_butlast [of xs _ "Some \<circ> snd"]
  by (auto simp: disp_rep_def)

text \<open>A table determines the list of its entries.\<close>

lemma disp_rep_unique:
  assumes "disp_rep t xs" "disp_rep t ys"
  shows "xs = ys"
proof (rule nth_equalityI)
  show l: "length xs = length ys" using disp_rep_num [OF assms(1)] disp_rep_num [OF assms(2)] by simp
  fix i assume "i < length xs"
  with disp_rep_get [OF assms(1), of i] disp_rep_get [OF assms(2), of i] l show "xs ! i = ys ! i"
    by (simp add: prod_eq_iff)
qed

section \<open>The table operations\<close>

lemma realloc_slots_grow:
  "length xs \<le> n \<Longrightarrow> realloc_slots True (Some xs) n = Some (xs @ replicate (n - length xs) None)"
  "realloc_slots True None n = Some (replicate n None)"
  by (simp_all add: realloc_slots_def)

lemma disp_rep_grow:
  assumes "disp_rep t xs" "n = t_allocentries t + DISPATCH_ALLOC_INCREASE"
  shows "disp_rep (t\<lparr>t_allocentries := n, t_entries := realloc_slots True (t_entries t) n,
           t_fds := realloc_slots True (t_fds t) n\<rparr>) xs"
  using assms
  by (auto simp: disp_rep_def realloc_slots_grow DISPATCH_ALLOC_INCREASE_def split: if_splits)

definition new_entry :: "int \<Rightarrow> uint16 \<Rightarrow> 'f option \<Rightarrow> 'f option \<Rightarrow> 'f option \<Rightarrow> ptr \<Rightarrow> pollfd \<times> 'f DispatchEntry" where
  "new_entry fd events readyfn errorfn indexfn arg =
     (\<lparr>p_fd = fd, p_events = (if events = -1 then POLLIN else events), p_revents = 0\<rparr>,
      \<lparr>e_arg = arg, e_readyfn = readyfn, e_errorfn = errorfn, e_indexfn = indexfn\<rparr>)"

lemma dispatch_add_rep:
  assumes "disp_rep t xs" "0 \<le> fd"
    and "(case indexfn of None \<Rightarrow> Some w | Some f \<Rightarrow> call_index f arg (length xs) w) = Some w'"
  shows "\<exists>t'. dispatch_add call_index True True (Some t) fd events readyfn errorfn indexfn arg w
             = Some (Some t', w') \<and>
           disp_rep t' (xs @ [new_entry fd events readyfn errorfn indexfn arg])"
proof -
  define n where "n = t_allocentries t + DISPATCH_ALLOC_INCREASE"
  define t1 where "t1 = (if t_allocentries t < t_numentries t + 1
    then t\<lparr>t_allocentries := n, t_entries := realloc_slots True (t_entries t) n,
           t_fds := realloc_slots True (t_fds t) n\<rparr> else t)"
  have r: "disp_rep t1 xs"
    using assms(1) disp_rep_grow [OF assms(1) n_def] by (simp add: t1_def)
  have l: "length xs < t_allocentries t1" "t_numentries t1 = length xs"
    using assms(1) by (auto simp: t1_def n_def disp_rep_def DISPATCH_ALLOC_INCREASE_def)
  then have nn: "t_entries t1 \<noteq> None" "t_fds t1 \<noteq> None"
    using r by (auto simp: disp_rep_def split: if_splits)
  let ?n = "new_entry fd events readyfn errorfn indexfn arg"
  from disp_rep_append [OF r l(1)] obtain es fs where
    a: "put_slot (t_entries t1) (length xs) (snd ?n) = Some es"
       "put_slot (t_fds t1) (length xs) (fst ?n) = Some fs"
       "disp_rep (t1\<lparr>t_entries := es, t_fds := fs, t_numentries := length xs + 1\<rparr>) (xs @ [?n])"
    by (metis prod.collapse)
  have "dispatch_add call_index True True (Some t) fd events readyfn errorfn indexfn arg w =
      Some (Some (t1\<lparr>t_entries := es, t_fds := fs, t_numentries := length xs + 1\<rparr>), w')"
    unfolding dispatch_add_def Let_def option.case t1_def [unfolded n_def, symmetric]
    using assms(2,3) l(2) nn a(1,2) by (cases indexfn) (simp_all add: new_entry_def)
  with a(3) show ?thesis by blast
qed

text \<open>The list a removal leaves: the last entry takes the place of the removed one.\<close>

definition swap_remove :: "nat \<Rightarrow> 'a list \<Rightarrow> 'a list" where
  "swap_remove i xs = (butlast xs)[i := last xs]"

lemma swap_remove_last: "xs \<noteq> [] \<Longrightarrow> swap_remove (length xs - 1) xs = butlast xs"
  by (simp add: swap_remove_def list_update_beyond)

lemma mset_swap_remove: "i < length xs \<Longrightarrow> mset (swap_remove i xs) = mset xs - {#xs ! i#}"
proof (cases xs rule: rev_cases)
  case (snoc ys y)
  assume "i < length xs"
  then show ?thesis
    using snoc by (cases "i < length ys") (auto simp: swap_remove_def mset_update nth_append list_update_beyond)
qed simp

lemma length_swap_remove [simp]: "length (swap_remove i xs) = length xs - 1"
  by (simp add: swap_remove_def)

lemma dispatch_remove_rep:
  assumes "disp_rep t xs" "i < length xs"
    and "(if i = length xs - 1 then Some w else
          case e_indexfn (snd (last xs)) of None \<Rightarrow> Some w
          | Some f \<Rightarrow> call_index f (e_arg (snd (last xs))) i w) = Some w'"
  shows "\<exists>t'. dispatch_remove call_index (Some t) i w = Some (Some t', w') \<and>
           disp_rep t' (swap_remove i xs)"
proof (cases "i = length xs - 1")
  case True
  have "xs \<noteq> []" using assms(2) by auto
  with True assms disp_rep_drop_last [OF assms(1)] show ?thesis
    using swap_remove_last [of xs]
    by (auto simp: dispatch_remove_def disp_rep_num [OF assms(1)])
next
  case False
  have ne: "xs \<noteq> []" using assms(2) by auto
  have "get_slot (t_entries t) (length xs - 1) = Some (snd (last xs))"
       "get_slot (t_fds t) (length xs - 1) = Some (fst (last xs))"
    using disp_rep_get [OF assms(1), of "length xs - 1"] ne by (simp_all add: last_conv_nth)
  with False assms disp_rep_swap [OF assms(1,2) False] show ?thesis
    by (auto simp: dispatch_remove_def disp_rep_num [OF assms(1)] swap_remove_def)
qed

text \<open>
  The number of entries from position \<open>i\<close> on that have events pending. No table operation
  increases it, which is why the event loop ends.
\<close>

definition pending :: "(pollfd \<times> 'f DispatchEntry) list \<Rightarrow> nat \<Rightarrow> nat" where
  "pending xs i = length (filter (\<lambda>x. p_revents (fst x) \<noteq> 0) (drop i xs))"

lemma pending_Suc:
  "i < length xs \<Longrightarrow> pending xs i = (if p_revents (fst (xs ! i)) \<noteq> 0 then 1 else 0) + pending xs (Suc i)"
  by (simp add: pending_def Cons_nth_drop_Suc [symmetric])

lemma pending_mset_le:
  "mset (drop k ys) \<subseteq># mset (drop k xs) \<Longrightarrow> pending ys k \<le> pending xs k"
  by (metis pending_def mset_filter multiset_filter_mono size_mset size_mset_mono)

lemma mset_butlast_le: "mset (butlast xs) \<subseteq># mset xs"
  by (cases xs rule: rev_cases) auto

lemma drop_swap_remove:
  "drop k (swap_remove j xs) = (if j < k then butlast (drop k xs) else swap_remove (j - k) (drop k xs))"
  if "k < length xs"
  using that by (auto simp: swap_remove_def drop_update_swap drop_butlast last_drop drop_update_cancel)

lemma mset_swap_remove_le: "mset (swap_remove j xs) \<subseteq># mset xs"
proof (cases "j < length xs")
  case True
  then show ?thesis by (simp add: mset_swap_remove)
next
  case False
  then show ?thesis by (simp add: swap_remove_def list_update_beyond mset_butlast_le)
qed

lemma pending_swap_remove: "pending (swap_remove j xs) k \<le> pending xs k"
proof (cases "k < length xs")
  case True
  then show ?thesis
    by (intro pending_mset_le) (simp add: drop_swap_remove mset_butlast_le mset_swap_remove_le)
qed (simp add: pending_def)

lemma pending_append_idle:
  "p_revents (fst x) = 0 \<Longrightarrow> pending (xs @ [x]) k = pending xs k"
  by (cases "k \<le> length xs") (simp_all add: pending_def)

lemma nth_swap_remove: "k < i \<Longrightarrow> i < length xs \<Longrightarrow> swap_remove i xs ! k = xs ! k"
  by (simp add: swap_remove_def nth_butlast)

lemma set_swap_remove: "set (swap_remove i xs) \<subseteq> set xs"
  using mset_swap_remove_le by (metis set_mset_mono set_mset_mset)

lemma index_call_total:
  "(\<And>f a i w. \<exists>w'. call_index f a i w = Some w') \<Longrightarrow>
     \<exists>w1. (if b then Some w else case g of None \<Rightarrow> Some w | Some f \<Rightarrow> call_index f a i w) = Some w1"
  by (cases g) auto

lemma filter_mset_remove:
  "\<not> P x \<Longrightarrow> filter_mset P (M - {#x#}) = filter_mset P M"
  by (rule multiset_eqI) simp

lemma dispatch_remove_fd_loop_rep:
  assumes "\<And>f a i w. \<exists>w'. call_index f a i w = Some w'"
    and "disp_rep t xs" and "\<forall>j<i. j < length xs \<longrightarrow> p_fd (fst (xs ! j)) \<noteq> fd"
  shows "\<exists>t' w' ys. dispatch_remove_fd_loop call_index fd i t w = Some (t', w') \<and> disp_rep t' ys \<and>
           mset ys = filter_mset (\<lambda>x. p_fd (fst x) \<noteq> fd) (mset xs) \<and>
           (\<forall>k. pending ys k \<le> pending xs k) \<and>
           ((\<forall>x\<in>set xs. e_indexfn (snd x) = None) \<longrightarrow> w' = w)"
  using assms(2,3)
proof (induction "length xs - i" arbitrary: xs t w i rule: less_induct)
  case less
  note num = disp_rep_num [OF less.prems(1)]
  show ?case
  proof (cases "i < length xs")
    case False
    then have "\<forall>x\<in>set xs. p_fd (fst x) \<noteq> fd"
      using less.prems(2) by (metis in_set_conv_nth leI less_le_trans)
    then have "filter_mset (\<lambda>x. p_fd (fst x) \<noteq> fd) (mset xs) = mset xs"
      by (simp add: filter_mset_eq_conv)
    with False less.prems(1) show ?thesis
      by (intro exI [of _ t] exI [of _ w] exI [of _ xs])
         (simp add: num dispatch_remove_fd_loop.simps [of call_index fd i t w])
  next
    case True
    note slot = disp_rep_get(1) [OF less.prems(1) True]
    show ?thesis
    proof (cases "p_fd (fst (xs ! i)) = fd")
      case fd: True
      obtain w1 where w1: "(if i = length xs - 1 then Some w else
          case e_indexfn (snd (last xs)) of None \<Rightarrow> Some w
          | Some f \<Rightarrow> call_index f (e_arg (snd (last xs))) i w) = Some w1"
        using index_call_total [of call_index, OF assms(1)] by blast
      from dispatch_remove_rep [where call_index = call_index and w = w, OF less.prems(1) True w1] obtain t1 where
        t1: "dispatch_remove call_index (Some t) i w = Some (Some t1, w1)"
            "disp_rep t1 (swap_remove i xs)" by blast
      have eq: "dispatch_remove_fd_loop call_index fd i t w = dispatch_remove_fd_loop call_index fd i t1 w1"
        using True fd t1(1) slot num by (simp add: dispatch_remove_fd_loop.simps [of call_index fd i t w])
      have "length (swap_remove i xs) - i < length xs - i" using True by simp
      moreover have "\<forall>j<i. j < length (swap_remove i xs) \<longrightarrow> p_fd (fst (swap_remove i xs ! j)) \<noteq> fd"
        using less.prems(2) True by (simp add: nth_swap_remove)
      ultimately obtain t' w' ys where ih:
        "dispatch_remove_fd_loop call_index fd i t1 w1 = Some (t', w')" "disp_rep t' ys"
        "mset ys = filter_mset (\<lambda>x. p_fd (fst x) \<noteq> fd) (mset (swap_remove i xs))"
        "\<forall>k. pending ys k \<le> pending (swap_remove i xs) k"
        "(\<forall>x\<in>set (swap_remove i xs). e_indexfn (snd x) = None) \<longrightarrow> w' = w1"
        using less.hyps [OF _ t1(2)] by blast
      have "mset ys = filter_mset (\<lambda>x. p_fd (fst x) \<noteq> fd) (mset xs)"
        using ih(3) True fd by (simp add: mset_swap_remove filter_mset_remove)
      moreover have "\<forall>k. pending ys k \<le> pending xs k"
        using ih(4) pending_swap_remove le_trans by blast
      moreover have "w' = w" if "\<forall>x\<in>set xs. e_indexfn (snd x) = None"
      proof -
        have "last xs \<in> set xs" using True by (cases xs) auto
        with that ih(5) w1 set_swap_remove [of i xs] show ?thesis by (auto split: if_splits)
      qed
      ultimately show ?thesis using eq ih(1,2) by auto
    next
      case False
      have eq: "dispatch_remove_fd_loop call_index fd i t w = dispatch_remove_fd_loop call_index fd (Suc i) t w"
        using True False slot num by (simp add: dispatch_remove_fd_loop.simps [of call_index fd i t w])
      have "length xs - Suc i < length xs - i" "\<forall>j<Suc i. j < length xs \<longrightarrow> p_fd (fst (xs ! j)) \<noteq> fd"
        using True less.prems(2) False by (auto simp: less_Suc_eq)
      from less.hyps [OF this(1) less.prems(1) this(2), of w] show ?thesis by (simp only: eq)
    qed
  qed
qed

lemma dispatch_remove_fd_rep:
  assumes "\<And>f a i w. \<exists>w'. call_index f a i w = Some w'" and "disp_rep t xs"
  shows "\<exists>t' w' ys. dispatch_remove_fd call_index (Some t) fd w = Some (Some t', w') \<and> disp_rep t' ys \<and>
           mset ys = filter_mset (\<lambda>x. p_fd (fst x) \<noteq> fd) (mset xs) \<and>
           (\<forall>k. pending ys k \<le> pending xs k) \<and>
           ((\<forall>x\<in>set xs. e_indexfn (snd x) = None) \<longrightarrow> w' = w)"
  using dispatch_remove_fd_loop_rep [of call_index t xs 0 fd w, OF assms(1,2)]
  by (auto simp: dispatch_remove_fd_def)

section \<open>The event loop\<close>

lemma disp_rep_set_revents:
  assumes "disp_rep t xs" "length rs = length xs"
  shows "disp_rep (set_revents rs t) (map2 (\<lambda>r x. (fst x\<lparr>p_revents := r\<rparr>, snd x)) rs xs)"
proof (cases "t_allocentries t = 0")
  case True
  with assms show ?thesis by (auto simp: disp_rep_def set_revents_def)
next
  case False
  with assms(1) obtain es fs where a: "t_entries t = Some es" "t_fds t = Some fs"
      "length es = t_allocentries t" "length fs = t_allocentries t" "length xs \<le> t_allocentries t"
      "take (length xs) es = map (Some \<circ> snd) xs" "take (length xs) fs = map (Some \<circ> fst) xs"
    by (rule disp_rep_arrays)
  have nth: "fs ! i = Some (fst (xs ! i))" if "i < length xs" for i
    using a(7) that by (metis comp_apply nth_map nth_take)
  have "map (Some \<circ> snd) (map2 (\<lambda>r x. (fst x\<lparr>p_revents := r\<rparr>, snd x)) rs xs) = map (Some \<circ> snd) xs"
    by (rule nth_equalityI) (use assms(2) in auto)
  moreover have "take (length xs) (map2 (\<lambda>i p. if i < length xs \<and> i < length rs
        then map_option (\<lambda>q. q\<lparr>p_revents := rs ! i\<rparr>) p else p) [0..<length fs] fs)
      = map (Some \<circ> fst) (map2 (\<lambda>r x. (fst x\<lparr>p_revents := r\<rparr>, snd x)) rs xs)"
    by (rule nth_equalityI) (use assms(2) a(4,5) nth in auto)
  ultimately show ?thesis
    using a False assms disp_rep_num [OF assms(1)] by (simp add: disp_rep_def set_revents_def)
qed

lemma poll_set_rep: "disp_rep t xs \<Longrightarrow> poll_set t = Some (map fst xs)"
proof -
  assume r: "disp_rep t xs"
  have "map (get_slot (t_fds t)) [0..<length xs] = map (Some \<circ> fst) xs"
    by (rule nth_equalityI) (simp_all add: disp_rep_get(1) [OF r])
  moreover have "those (map (Some \<circ> fst) xs) = Some (map fst xs)"
    by (induction xs) auto
  ultimately show ?thesis by (simp add: poll_set_def disp_rep_num [OF r])
qed

text \<open>
  What the loop asks of the handlers, for an invariant over the table and the world: called on an
  entry of the table, a handler does not run into undefined behaviour, keeps the invariant and the
  table well-formed, and leaves no more entries with pending events behind any position than there
  were. \<open>dispatch_add\<close> and the removals meet the last condition.
\<close>

definition handled :: "('f Dispatch \<times> 'w \<Rightarrow> bool) \<Rightarrow> (pollfd \<times> 'f DispatchEntry) list \<Rightarrow>
    ('f Dispatch \<times> 'w) option \<Rightarrow> bool" where
  "handled winv xs r \<longleftrightarrow> (\<exists>s' ys. r = Some s' \<and> winv s' \<and> disp_rep (fst s') ys \<and>
     (\<forall>k. pending ys k \<le> pending xs k))"

locale event_handlers =
  fixes call_ready :: "('f, 'w) handler"
    and call_error :: "DispatchError \<Rightarrow> ('f, 'w) handler"
    and winv :: "'f Dispatch \<times> 'w \<Rightarrow> bool"
  assumes ready: "winv s \<Longrightarrow> disp_rep (fst s) xs \<Longrightarrow> x \<in> set xs \<Longrightarrow> e_readyfn (snd x) = Some f \<Longrightarrow>
      handled winv xs (call_ready f (e_arg (snd x)) s)"
    and error: "winv s \<Longrightarrow> disp_rep (fst s) xs \<Longrightarrow> x \<in> set xs \<Longrightarrow> e_errorfn (snd x) = Some f \<Longrightarrow>
      handled winv xs (call_error e f (e_arg (snd x)) s)"
    and polled: "winv (t, w) \<Longrightarrow> length rs = t_numentries t \<Longrightarrow> winv (set_revents rs t, w)"
begin

lemma handled_refl: "winv s \<Longrightarrow> disp_rep (fst s) xs \<Longrightarrow> handled winv xs (Some s)"
  unfolding handled_def by blast

lemma entry_handled:
  assumes "winv s" "disp_rep (fst s) xs" "i < length xs"
  shows "handled winv xs (dispatch_entry call_ready call_error i s)"
proof -
  have x: "xs ! i \<in> set xs" using assms(3) by simp
  have r: "handled winv xs (call_opt call_ready (e_readyfn (snd (xs ! i))) (e_arg (snd (xs ! i))) s)"
    using ready [OF assms(1,2) x] handled_refl [OF assms(1,2)]
    by (cases "e_readyfn (snd (xs ! i))") (simp_all add: call_opt_def)
  have e: "handled winv xs (call_opt (call_error er) (e_errorfn (snd (xs ! i))) (e_arg (snd (xs ! i))) s)" for er
    using error [OF assms(1,2) x] handled_refl [OF assms(1,2)]
    by (cases "e_errorfn (snd (xs ! i))") (simp_all add: call_opt_def)
  show ?thesis
    using r e handled_refl [OF assms(1,2)]
    by (simp add: dispatch_entry_def disp_rep_get [OF assms(2,3)])
qed

lemma entry_idle:
  assumes "disp_rep (fst s) xs" "i < length xs" "p_revents (fst (xs ! i)) = 0"
  shows "dispatch_entry call_ready call_error i s = Some s"
  using assms(3) by (simp add: dispatch_entry_def disp_rep_get [OF assms(1,2)])

lemma loop_ends:
  assumes "winv s" "disp_rep (fst s) xs"
  shows "\<exists>s' ys. dispatch_loop call_ready call_error i s = Some s' \<and> winv s' \<and> disp_rep (fst s') ys"
  using assms
proof (induction "(pending xs i, length xs - i)" arbitrary: xs i s rule: wf_induct_rule [OF wf_lex_prod [OF wf_less_than wf_less_than]])
  case 1
  note num = disp_rep_num [OF "1.prems"(2)]
  show ?case
  proof (cases "i < length xs")
    case False
    with "1.prems" num show ?thesis by (auto simp: dispatch_loop.simps [of call_ready call_error i s])
  next
    case True
    from entry_handled [OF "1.prems" True] obtain s' ys where
      s': "dispatch_entry call_ready call_error i s = Some s'" "winv s'" "disp_rep (fst s') ys"
          "\<forall>k. pending ys k \<le> pending xs k" by (auto simp: handled_def)
    have eq: "dispatch_loop call_ready call_error i s = dispatch_loop call_ready call_error (Suc i) s'"
      using True num s'(1) by (simp add: dispatch_loop.simps [of call_ready call_error i s])
    show ?thesis
    proof (cases "p_revents (fst (xs ! i)) = 0")
      case True': True
      then have "s' = s" using entry_idle [OF "1.prems"(2) True] s'(1) by simp
      moreover have "pending xs (Suc i) = pending xs i" "length xs - Suc i < length xs - i"
        using True True' by (simp_all add: pending_Suc)
      ultimately show ?thesis using eq "1.hyps" [OF _ "1.prems", of "Suc i"] by simp
    next
      case False
      then have "pending xs (Suc i) < pending xs i" using True by (simp add: pending_Suc)
      with s'(4) have "pending ys (Suc i) < pending xs i" by (metis le_less_trans)
      then show ?thesis using eq "1.hyps" [OF _ s'(2,3), of "Suc i"] by simp
    qed
  qed
qed

lemma run_ends:
  assumes "winv (t, w)" "disp_rep t xs" "\<And>fds. length (snd (poll fds timeout)) = length fds"
  shows "\<exists>st t' w' ys. dispatch_run poll call_ready call_error (Some t) timeout w = Some (st, Some t', w') \<and>
           winv (t', w') \<and> disp_rep t' ys \<and> st \<in> {DISPATCH_TIMEOUT, DISPATCH_EVENT_HANDLED}"
proof -
  obtain ready rs where p: "poll (map fst xs) timeout = (ready, rs)" by fastforce
  with assms(3) [of "map fst xs"] have l: "length rs = length xs" by simp
  from disp_rep_set_revents [OF assms(2) this] obtain ys where ys: "disp_rep (set_revents rs t) ys" by blast
  have pol: "winv (set_revents rs t, w)" using polled [OF assms(1), of rs] l disp_rep_num [OF assms(2)] by simp
  from loop_ends [of "(set_revents rs t, w)" ys 0] pol ys obtain s' zs where
    "dispatch_loop call_ready call_error 0 (set_revents rs t, w) = Some s'" "winv s'" "disp_rep (fst s') zs"
    by auto
  with assms(1,2) pol ys p show ?thesis
    by (cases s') (auto simp: dispatch_run_def poll_set_rep [OF assms(2)])
qed

end

section \<open>Properties\<close>

text \<open>Handlers that only record their calls, and an index callback that records the index.\<close>

definition no_index :: "'f \<Rightarrow> ptr \<Rightarrow> nat \<Rightarrow> 'w \<Rightarrow> 'w option" where
  "no_index f a i w = Some w"

text \<open>Registering and removing a descriptor whose entry has no index callback, as all callers do.\<close>

definition table_add :: "bool \<Rightarrow> int \<Rightarrow> uint16 \<Rightarrow> 'f option \<Rightarrow> 'f option \<Rightarrow> ptr \<Rightarrow> 'f DispatchPtr \<Rightarrow> 'f DispatchPtr option" where
  "table_add grow fd events readyfn errorfn arg t =
     map_option fst (dispatch_add no_index grow grow t fd events readyfn errorfn None arg ())"

definition table_remove_fd :: "int \<Rightarrow> 'f DispatchPtr \<Rightarrow> 'f DispatchPtr option" where
  "table_remove_fd fd t = map_option fst (dispatch_remove_fd no_index t fd ())"

definition note_index :: "'f \<Rightarrow> ptr \<Rightarrow> nat \<Rightarrow> (ptr \<Rightarrow> nat) \<Rightarrow> (ptr \<Rightarrow> nat) option" where
  "note_index f a i w = Some (w(a := i))"

type_synonym 'f call_log = "(DispatchError option \<times> 'f \<times> ptr) list"

text \<open>Handlers that leave the table alone, whatever else they do; and a sequence of calls of such handlers.\<close>

definition keeping :: "('f \<Rightarrow> ptr \<Rightarrow> 'w \<Rightarrow> 'w option) \<Rightarrow> ('f, 'w) handler" where
  "keeping h f a s = map_option (Pair (fst s)) (h f a (snd s))"

fun run_calls :: "('f \<Rightarrow> ptr \<Rightarrow> 'w \<Rightarrow> 'w option) \<Rightarrow> (DispatchError \<Rightarrow> 'f \<Rightarrow> ptr \<Rightarrow> 'w \<Rightarrow> 'w option) \<Rightarrow> 'f call_log \<Rightarrow>
    'w \<Rightarrow> 'w option" where
  "run_calls ready error [] w = Some w"
| "run_calls ready error ((None, f, a) # cs) w = Option.bind (ready f a w) (run_calls ready error cs)"
| "run_calls ready error ((Some e, f, a) # cs) w = Option.bind (error e f a w) (run_calls ready error cs)"

lemma run_calls_Nil [simp]: "run_calls ready error [] = Some"
  by (simp add: fun_eq_iff)

lemma run_calls_append:
  "run_calls ready error (xs @ ys) w = Option.bind (run_calls ready error xs w) (run_calls ready error ys)"
  by (induction ready error xs w rule: run_calls.induct) (auto split: Option.bind_split)

text \<open>Which handler an entry's events select, if it has that handler.\<close>

definition selected :: "pollfd \<times> 'f DispatchEntry \<Rightarrow> 'f call_log" where
  "selected x =
     (let p = fst x; e = snd x;
          err = (\<lambda>er. case e_errorfn e of None \<Rightarrow> [] | Some f \<Rightarrow> [(Some er, f, e_arg e)])
      in if p_revents p AND POLLNVAL \<noteq> 0 then err DISPATCH_FD_INVALID
         else if p_revents p AND POLLERR \<noteq> 0 then err DISPATCH_POLL_ERROR
         else if p_revents p AND POLLHUP \<noteq> 0 then err DISPATCH_FD_CLOSED
         else if p_revents p AND p_events p \<noteq> 0
         then (case e_readyfn e of None \<Rightarrow> [] | Some f \<Rightarrow> [(None, f, e_arg e)])
         else [])"

lemma dispatch_entry_calls:
  assumes "disp_rep t xs" "i < length xs"
  shows "dispatch_entry (keeping ready) (\<lambda>e. keeping (error e)) i (t, w) =
    map_option (Pair t) (run_calls ready error (selected (xs ! i)) w)"
  using disp_rep_get [OF assms]
  by (simp add: dispatch_entry_def selected_def call_opt_def keeping_def Let_def split: option.splits)

lemma dispatch_loop_calls:
  assumes "disp_rep t xs"
  shows "dispatch_loop (keeping ready) (\<lambda>e. keeping (error e)) i (t, w) =
    map_option (Pair t) (run_calls ready error (concat (map selected (drop i xs))) w)"
proof (induction "length xs - i" arbitrary: i w)
  case 0
  then show ?case using disp_rep_num [OF assms] by (simp add: dispatch_loop.simps)
next
  case (Suc n)
  then have i: "i < length xs" by simp
  then have d: "drop i xs = xs ! i # drop (Suc i) xs" by (simp add: Cons_nth_drop_Suc)
  have "n = length xs - Suc i" using Suc.hyps(2) by simp
  from Suc.hyps(1) [OF this] dispatch_entry_calls [OF assms i, of ready error w] disp_rep_num [OF assms] i d show ?case
    by (subst dispatch_loop.simps) (cases "run_calls ready error (selected (xs ! i)) w"; simp add: run_calls_append)
qed

text \<open>The entries with the events that \<open>poll\<close> reported for them.\<close>

definition reported :: "uint16 list \<Rightarrow> (pollfd \<times> 'f DispatchEntry) list \<Rightarrow> (pollfd \<times> 'f DispatchEntry) list" where
  "reported rs xs = map2 (\<lambda>r x. (fst x\<lparr>p_revents := r\<rparr>, snd x)) rs xs"

text \<open>
  Property C10: with any handlers that leave the table alone, \<open>dispatch_run\<close> calls for every entry at most one handler, in table order: the error
  handler for an invalid descriptor, else for an error, else for a hang-up, else the ready handler if a requested event is set; it reports that
  events were handled. When \<open>poll\<close> times out or fails it calls none and reports a timeout. The table keeps its entries, with the events
  reported unless \<open>poll\<close> failed. (Handlers that remove entries may make the loop skip an entry until the next call, as a comment in the
  source says; with them only the end of the loop is shown, in \<open>event_handlers\<close>.)
\<close>

theorem dispatch_run_calls:
  assumes "disp_rep t xs" and "poll (map fst xs) timeout = (n, rs)" and "-1 \<le> n" and "length rs = length xs"
  shows "disp_rep (set_revents rs t) (reported rs xs) \<and>
    dispatch_run poll (keeping ready) (\<lambda>e. keeping (error e)) (Some t) timeout w =
      (if n = -1 then Some (DISPATCH_TIMEOUT, Some t, w)
       else if n = 0 then Some (DISPATCH_TIMEOUT, Some (set_revents rs t), w)
       else map_option (\<lambda>w'. (DISPATCH_EVENT_HANDLED, Some (set_revents rs t), w'))
              (run_calls ready error (concat (map selected (reported rs xs))) w))"
proof -
  have "disp_rep (set_revents rs t) (reported rs xs)" using disp_rep_set_revents [OF assms(1,4)] by (simp add: reported_def)
  with dispatch_loop_calls [OF this, of ready error 0 w] assms(2,3) show ?thesis
    by (cases "run_calls ready error (concat (map selected (reported rs xs))) w")
      (auto simp: dispatch_run_def poll_set_rep [OF assms(1)])
qed

definition demo_entries :: "(pollfd \<times> string DispatchEntry) list" where
  "demo_entries =
     [new_entry 3 POLLIN (Some ''listen'') (Some ''lerr'') None (Some 1),
      new_entry 7 (-1) (Some ''conn'') (Some ''cerr'') None (Some 2),
      new_entry 7 (-1) None None None None]"

definition demo_table :: "string Dispatch" where
  "demo_table = \<lparr>t_numentries = 3, t_allocentries = 4,
     t_entries = Some (map (Some \<circ> snd) demo_entries @ [None]),
     t_fds = Some (map (Some \<circ> fst) demo_entries @ [None])\<rparr>"

lemma demo_rep: "disp_rep demo_table demo_entries"
  by (simp add: disp_rep_def demo_table_def demo_entries_def)

text \<open>Handlers that record their calls.\<close>

theorem dispatch_run_calls_witness:
  "\<exists>t'. dispatch_run (\<lambda>fds timeout. (2, [POLLIN, POLLIN OR POLLHUP, POLLIN]))
          (keeping (\<lambda>f a log. Some (log @ [(None, f, a)]))) (\<lambda>e. keeping (\<lambda>f a log. Some (log @ [(Some e, f, a)])))
          (Some demo_table) 100 []
     = Some (DISPATCH_EVENT_HANDLED, Some t',
         [(None, ''listen'', Some 1), (Some DISPATCH_FD_CLOSED, ''cerr'', Some 2)])"
  using dispatch_run_calls [OF demo_rep, of "\<lambda>fds timeout. (2, [POLLIN, POLLIN OR POLLHUP, POLLIN])" 100 2
      "[POLLIN, POLLIN OR POLLHUP, POLLIN]" "\<lambda>f a log. Some (log @ [(None, f, a)])" "\<lambda>e f a log. Some (log @ [(Some e, f, a)])" "[]"]
  by (simp add: demo_entries_def new_entry_def reported_def selected_def POLLIN_def POLLERR_def POLLHUP_def POLLNVAL_def)

text \<open>
  Property C11: \<open>dispatch_remove_fd\<close> terminates without undefined behaviour, removes every entry of
  the descriptor and keeps every other entry exactly once, whatever moves within the arrays.
\<close>

theorem dispatch_remove_fd_correct:
  assumes "\<And>f a i w. \<exists>w'. call_index f a i w = Some w'" and "disp_rep t xs"
  shows "\<exists>t' w' ys. dispatch_remove_fd call_index (Some t) fd w = Some (Some t', w') \<and>
           disp_rep t' ys \<and> mset ys = filter_mset (\<lambda>x. p_fd (fst x) \<noteq> fd) (mset xs)"
  using dispatch_remove_fd_rep [of call_index t xs fd w, OF assms] by blast

theorem dispatch_remove_fd_correct_witness:
  "\<exists>t' ys. dispatch_remove_fd no_index (Some demo_table) 7 () = Some (Some t', ()) \<and> disp_rep t' ys \<and>
     mset ys = {#new_entry 3 POLLIN (Some ''listen'') (Some ''lerr'') None (Some 1)#}"
  using dispatch_remove_fd_correct [of no_index demo_table demo_entries 7 "()", OF _ demo_rep]
  by (simp add: no_index_def demo_entries_def new_entry_def)

text \<open>Every entry that wants to know its index has been told the right one last, the callback storing it for the entry's argument.\<close>

definition index_sync :: "(ptr \<Rightarrow> nat) \<Rightarrow> (pollfd \<times> 'f DispatchEntry) list \<Rightarrow> bool" where
  "index_sync w xs \<longleftrightarrow>
     (\<forall>i<length xs. e_indexfn (snd (xs ! i)) \<noteq> None \<longrightarrow> w (e_arg (snd (xs ! i))) = i)"

lemma index_sync_swap:
  assumes "index_sync w xs" "distinct (map (e_arg \<circ> snd) xs)" "i < length xs"
  shows "index_sync (if i = length xs - 1 \<or> e_indexfn (snd (last xs)) = None then w
           else w(e_arg (snd (last xs)) := i)) (swap_remove i xs)"
  unfolding index_sync_def
proof (intro allI impI)
  fix j
  assume j: "j < length (swap_remove i xs)" "e_indexfn (snd (swap_remove i xs ! j)) \<noteq> None"
  have ne: "xs \<noteq> []" using assms(3) by auto
  show "(if i = length xs - 1 \<or> e_indexfn (snd (last xs)) = None then w
      else w(e_arg (snd (last xs)) := i)) (e_arg (snd (swap_remove i xs ! j))) = j"
  proof (cases "j = i")
    case True
    with j(1) have "swap_remove i xs ! j = last xs" by (simp add: swap_remove_def)
    with True j show ?thesis by (auto simp: swap_remove_def)
  next
    case False
    with j(1) have x: "swap_remove i xs ! j = xs ! j" "j < length xs - 1"
      by (simp_all add: swap_remove_def nth_butlast)
    moreover have "e_arg (snd (xs ! j)) \<noteq> e_arg (snd (last xs))"
      using assms(2) x(2) ne nth_eq_iff_index_eq [of "map (e_arg \<circ> snd) xs" j "length xs - 1"]
      by (simp add: last_conv_nth)
    ultimately show ?thesis using assms(1) j(2) by (simp add: index_sync_def)
  qed
qed

text \<open>
  Property C17: the index callbacks. In a table whose entries have distinct arguments, if every entry that wants to know its index has been told
  the right one, then \<open>dispatch_remove\<close> removes exactly the entry with the given index and this is still so, although the last entry
  moves; and \<open>dispatch_add\<close>, with an argument not yet used and enough memory, appends the entry and this is still so.
\<close>

theorem dispatch_index_sync:
  assumes "disp_rep t xs" and "index_sync w xs" and "distinct (map (e_arg \<circ> snd) xs)"
  shows "(\<forall>i<length xs. \<exists>t' w' ys. dispatch_remove note_index (Some t) i w = Some (Some t', w') \<and>
            disp_rep t' ys \<and> mset ys = mset xs - {#xs ! i#} \<and> index_sync w' ys) \<and>
         (0 \<le> fd \<and> arg \<notin> set (map (e_arg \<circ> snd) xs) \<longrightarrow>
            (\<exists>t' w'. dispatch_add note_index True True (Some t) fd ev rf ef idf arg w = Some (Some t', w') \<and>
               disp_rep t' (xs @ [new_entry fd ev rf ef idf arg]) \<and> index_sync w' (xs @ [new_entry fd ev rf ef idf arg])))"
proof (intro conjI allI impI)
  fix i
  assume i: "i < length xs"
  let ?w = "if i = length xs - 1 \<or> e_indexfn (snd (last xs)) = None then w else w(e_arg (snd (last xs)) := i)"
  have "(if i = length xs - 1 then Some w else case e_indexfn (snd (last xs)) of None \<Rightarrow> Some w
      | Some f \<Rightarrow> note_index f (e_arg (snd (last xs))) i w) = Some ?w"
    by (simp add: note_index_def split: option.splits)
  from dispatch_remove_rep [where call_index = note_index, OF assms(1) i this]
    index_sync_swap [OF assms(2,3) i] mset_swap_remove [OF i]
  show "\<exists>t' w' ys. dispatch_remove note_index (Some t) i w = Some (Some t', w') \<and>
      disp_rep t' ys \<and> mset ys = mset xs - {#xs ! i#} \<and> index_sync w' ys"
    by blast
next
  assume f: "0 \<le> fd \<and> arg \<notin> set (map (e_arg \<circ> snd) xs)"
  let ?w = "case idf of None \<Rightarrow> w | Some f \<Rightarrow> w(arg := length xs)"
  have c: "(case idf of None \<Rightarrow> Some w | Some f \<Rightarrow> note_index f arg (length xs) w) = Some ?w"
    by (simp add: note_index_def split: option.splits)
  have "\<forall>i<length xs. e_arg (snd (xs ! i)) \<noteq> arg" using f by auto
  with assms(2) have "index_sync ?w (xs @ [new_entry fd ev rf ef idf arg])"
    unfolding index_sync_def
    by (auto simp: nth_append new_entry_def less_Suc_eq split: option.splits)
  with dispatch_add_rep [where call_index = note_index, OF assms(1) _ c] f
  show "\<exists>t' w'. dispatch_add note_index True True (Some t) fd ev rf ef idf arg w = Some (Some t', w') \<and>
      disp_rep t' (xs @ [new_entry fd ev rf ef idf arg]) \<and> index_sync w' (xs @ [new_entry fd ev rf ef idf arg])"
    by blast
qed

text \<open>Three entries with index callbacks: when the first is removed, the third is told that it is at 0 now.\<close>

definition indexed_entries :: "(pollfd \<times> string DispatchEntry) list" where
  "indexed_entries = [new_entry 3 POLLIN None None (Some ''index'') (Some 1), new_entry 4 POLLIN None None (Some ''index'') (Some 2),
     new_entry 5 POLLIN None None (Some ''index'') (Some 3)]"

definition indexed_table :: "string Dispatch" where
  "indexed_table = \<lparr>t_numentries = 3, t_allocentries = 3,
     t_entries = Some (map (Some \<circ> snd) indexed_entries), t_fds = Some (map (Some \<circ> fst) indexed_entries)\<rparr>"

theorem dispatch_index_sync_witness:
  "\<exists>t' w' ys. dispatch_remove note_index (Some indexed_table) 0 ((\<lambda>a. 0)(Some 2 := 1, Some 3 := 2)) = Some (Some t', w') \<and>
     disp_rep t' ys \<and> mset ys = {#indexed_entries ! 1, indexed_entries ! 2#} \<and> index_sync w' ys"
proof -
  let ?w = "(\<lambda>a. 0)(Some 2 := 1, Some 3 := 2)"
  have rep: "disp_rep indexed_table indexed_entries" by (simp add: disp_rep_def indexed_table_def indexed_entries_def)
  have sync: "index_sync ?w indexed_entries"
    by (simp add: index_sync_def indexed_entries_def new_entry_def nth_Cons' less_Suc_eq numeral_eq_Suc)
  have dist: "distinct (map (e_arg \<circ> snd) indexed_entries)" by (simp add: indexed_entries_def new_entry_def)
  from conjunct1 [OF dispatch_index_sync [OF rep sync dist]] have
    "0 < length indexed_entries \<longrightarrow> (\<exists>t' w' ys. dispatch_remove note_index (Some indexed_table) 0 ?w = Some (Some t', w') \<and>
      disp_rep t' ys \<and> mset ys = mset indexed_entries - {#indexed_entries ! 0#} \<and> index_sync w' ys)" by blast
  moreover have "mset indexed_entries - {#indexed_entries ! 0#} = {#indexed_entries ! 1, indexed_entries ! 2#}" "0 < length indexed_entries"
    by (simp_all add: indexed_entries_def)
  ultimately show ?thesis by metis
qed

text \<open>
  Also: a failed \<open>realloc\<close> in \<open>dispatch_add\<close> on a full table loses the handlers of every
  registered descriptor, and the next event on one of them dereferences NULL.
\<close>

theorem dispatch_add_realloc_failure:
  assumes "disp_rep t xs" and "t_allocentries t = length xs" and "0 \<le> fd"
    and "x = xs ! i" and "i < length xs" and "p_revents (fst x) AND POLLNVAL \<noteq> 0"
  shows "\<exists>t'. dispatch_add call_index False True (Some t) fd ev rf ef idf arg w = Some (Some t', w) \<and>
           t_numentries t' = length xs \<and> dispatch_entry call_ready call_error i (t', w) = None"
proof -
  have "t_allocentries t \<noteq> 0" using assms(2,5) by auto
  with assms(1) obtain es fs where a: "t_entries t = Some es" "t_fds t = Some fs"
      "length es = t_allocentries t" "length fs = t_allocentries t" "length xs \<le> t_allocentries t"
      "take (length xs) es = map (Some \<circ> snd) xs" "take (length xs) fs = map (Some \<circ> fst) xs"
    by (rule disp_rep_arrays)
  have "fs ! i = Some (fst x)"
    using a(7) assms(4,5) by (metis comp_apply nth_map nth_take)
  with a(1-4) assms(2,3,5,6) disp_rep_num [OF assms(1)] show ?thesis
    by (simp add: dispatch_add_def dispatch_entry_def realloc_slots_def get_slot_def nth_append
        DISPATCH_ALLOC_INCREASE_def)
qed

definition full_entries :: "(pollfd \<times> string DispatchEntry) list" where
  "full_entries = replicate 4 (\<lparr>p_fd = 7, p_events = -1, p_revents = POLLNVAL\<rparr>,
     \<lparr>e_arg = None, e_readyfn = Some ''ready'', e_errorfn = Some ''error'', e_indexfn = None\<rparr>)"

definition full_table :: "string Dispatch" where
  "full_table = \<lparr>t_numentries = 4, t_allocentries = 4,
     t_entries = Some (map (Some \<circ> snd) full_entries), t_fds = Some (map (Some \<circ> fst) full_entries)\<rparr>"

theorem dispatch_add_realloc_failure_witness:
  "\<exists>t'. dispatch_add no_index False True (Some full_table) 3 POLLIN None None None None
       ([] :: string call_log) = Some (Some t', []) \<and>
     t_numentries t' = 4 \<and> dispatch_entry (keeping (\<lambda>f a. Some)) (\<lambda>e. keeping (\<lambda>f a. Some)) 0 (t', [] :: string call_log) = None"
proof -
  have "disp_rep full_table full_entries"
    by (simp add: disp_rep_def full_table_def full_entries_def)
  moreover have "t_allocentries full_table = length full_entries" "0 < length full_entries" "length full_entries = 4"
      "p_revents (fst (full_entries ! 0)) AND POLLNVAL \<noteq> 0"
    by (simp_all add: full_table_def full_entries_def POLLNVAL_def)
  ultimately show ?thesis
    using dispatch_add_realloc_failure [of full_table full_entries 3 "full_entries ! 0" 0 no_index POLLIN None None
        None None "[]" "keeping (\<lambda>f a. Some)" "\<lambda>e. keeping (\<lambda>f a. Some)"] by simp
qed

end
