(* ===== verification/Net_Server.thy ===== *)
theory Net_Server
  imports Linked_List Dispatch_Queue
begin

text \<open>
  The TCP server of \<open>lib/net.c\<close>. The server keeps its connections in a list and registers each
  of them, and its listening socket, in the dispatch table. The record \<open>Server\<close> holds the fields
  of the C structure, the dispatch table it points to, the store of the connections and the state
  \<open>'o\<close> of the operating system; the system calls are the fields of an environment record.

  Function pointers have the type \<open>'f\<close>: the two functions the server registers for a connection
  are \<open>ne_ready\<close> and \<open>ne_error\<close> of the environment, and the client's functions are called
  through \<open>call_recv\<close> and \<open>call_destroy\<close>, which can change the server and the client's state
  \<open>'w\<close>.
\<close>

section \<open>Data\<close>

record 'f Connection =
  c_socket :: int
  c_buffer :: "byte list option"
  c_waiting :: bool
  c_destroy :: "'f option"
  c_destroyarg :: ptr

record ('f, 'o) Server =
  s_dispatch :: "'f DispatchPtr"
  s_listener :: int
  s_connections :: "'f ListPtr"
  s_framesize :: nat
  s_recvfn :: "'f option"
  s_arg :: ptr
  s_conndestroy :: "'f option"
  s_conndestroyarg :: ptr
  s_conns :: "addr \<rightharpoonup> 'f Connection"
  s_os :: 'o

text \<open>
  The environment: \<open>malloc\<close>, whether the allocation of a connection's buffer and the two
  \<open>realloc\<close> calls of \<open>dispatch_add\<close> succeed, and the system calls. \<open>accept\<close> returns the socket
  and whether the address family is \<open>AF_INET\<close>; \<open>read\<close> is told whether the buffer exists and returns
  the number of bytes and the bytes; \<open>write\<close> returns the number of bytes written. All three
  return -1 for an error. Comparing a result with the unsigned frame size converts it to an unsigned
  number, so a negative result is never the smaller one.
\<close>

record ('f, 'o) net_env =
  ne_malloc :: malloc
  ne_buffer :: bool
  ne_grow :: bool
  ne_accept :: "int \<Rightarrow> 'o \<Rightarrow> (int \<times> bool) \<times> 'o"
  ne_read :: "int \<Rightarrow> bool \<Rightarrow> nat \<Rightarrow> 'o \<Rightarrow> (int \<times> byte list) \<times> 'o"
  ne_write :: "int \<Rightarrow> byte list \<Rightarrow> 'o \<Rightarrow> int \<times> 'o"
  ne_close :: "int \<Rightarrow> 'o \<Rightarrow> 'o"
  ne_listener_ready :: 'f
  ne_listener_error :: 'f
  ne_ready :: 'f
  ne_error :: 'f
  ne_connection_free :: 'f

type_synonym ('f, 'o, 'w) recv_call = "'f \<Rightarrow> ptr \<Rightarrow> byte list \<Rightarrow> nat \<Rightarrow> ptr \<Rightarrow>
  ('f, 'o) Server \<times> 'w \<Rightarrow> (('f, 'o) Server \<times> 'w) option"

type_synonym ('f, 'o, 'w) destroy_call = "'f \<Rightarrow> ptr \<Rightarrow> ptr \<Rightarrow>
  ('f, 'o) Server \<times> 'w \<Rightarrow> (('f, 'o) Server \<times> 'w) option"

section \<open>Operations\<close>

text \<open>
  \<open>server_open\<close>: the results of \<open>malloc\<close>, \<open>socket\<close>, \<open>setsockopt\<close>, \<open>inet_pton\<close>, \<open>bind\<close>
  and \<open>listen\<close> are arguments.
\<close>

record open_results =
  r_malloc :: bool
  r_list :: bool
  r_socket :: int
  r_setsockopt :: int
  r_pton :: int
  r_bind :: int
  r_listen :: int

definition server_open :: "('f, 'o) net_env \<Rightarrow> open_results \<Rightarrow> 'f DispatchPtr \<Rightarrow> addr \<Rightarrow> nat \<Rightarrow> 'f option \<Rightarrow> ptr \<Rightarrow> 'o \<Rightarrow>
    (('f, 'o) Server option \<times> 'f DispatchPtr \<times> 'o) option" where
  "server_open env r dispatch self framesize recvfn arg os =
     (if r_malloc r then
        (if r_socket r \<noteq> -1 then
           (if r_setsockopt r = 0 then
              (if r_pton r = 1 \<and> r_bind r = 0 \<and> r_listen r = 0 then do {
                 t \<leftarrow> (if dispatch \<noteq> None
                      then table_add (ne_grow env) (r_socket r) POLLIN (Some (ne_listener_ready env)) (Some (ne_listener_error env)) (Some self) dispatch
                      else Some dispatch);
                 Some (Some \<lparr>s_dispatch = t, s_listener = r_socket r,
                   s_connections = list_new (r_list r) (Some (ne_connection_free env)), s_framesize = framesize,
                   s_recvfn = recvfn, s_arg = arg, s_conndestroy = None, s_conndestroyarg = None,
                   s_conns = Map.empty, s_os = os\<rparr>, t, os)
               }
               else Some (None, dispatch, ne_close env (r_socket r) os))
            else Some (None, dispatch, os))
         else Some (None, dispatch, os))
      else Some (None, dispatch, os))"

definition connection_new :: "('f, 'o) net_env \<Rightarrow> int \<Rightarrow> ('f, 'o) Server \<Rightarrow> (ptr \<times> ('f, 'o) Server) option" where
  "connection_new env socket s = (case ne_malloc env (dom (s_conns s)) of
     None \<Rightarrow> Some (None, s)
   | Some a \<Rightarrow> do {
       let conn = \<lparr>c_socket = socket, c_buffer = (if ne_buffer env then Some (replicate (s_framesize s) 0) else None),
                   c_waiting = False, c_destroy = s_conndestroy s, c_destroyarg = s_conndestroyarg s\<rparr>;
       t \<leftarrow> (if s_dispatch s \<noteq> None
            then table_add (ne_grow env) socket (-1) (Some (ne_ready env)) (Some (ne_error env)) (Some a) (s_dispatch s)
            else Some (s_dispatch s));
       Some (Some a, s\<lparr>s_conns := (s_conns s)(a \<mapsto> conn), s_dispatch := t\<rparr>)
     })"

definition server_listener_ready :: "('f, 'o) net_env \<Rightarrow> ('f, 'o) Server \<Rightarrow> ('f, 'o) Server option" where
  "server_listener_ready env s =
     (case ne_accept env (s_listener s) (s_os s) of
        ((socket, inet), os) \<Rightarrow>
          let s0 = s\<lparr>s_os := os\<rparr> in
          if socket = -1 then Some s0
          else if \<not> inet then Some s0
          else do {
            (conn, s1) \<leftarrow> connection_new env socket s0;
            (node, l) \<leftarrow> list_enqueue (ne_malloc env) (s_connections s1) conn;
            Some (s1\<lparr>s_connections := l\<rparr>)
          })"

definition connection_free :: "('f, 'o) net_env \<Rightarrow> ('f, 'o, 'w) destroy_call \<Rightarrow> ptr \<Rightarrow> ('f, 'o) Server \<times> 'w \<Rightarrow>
    (('f, 'o) Server \<times> 'w) option" where
  "connection_free env call_destroy conn sw =
     (if conn \<noteq> None then do {
        c \<leftarrow> deref (s_conns (fst sw)) conn;
        (s1, w1) \<leftarrow> call_opt (\<lambda>f a. call_destroy f a conn) (c_destroy c) (c_destroyarg c) sw;
        c1 \<leftarrow> deref (s_conns s1) conn;
        t \<leftarrow> (if s_dispatch s1 \<noteq> None then table_remove_fd (c_socket c1) (s_dispatch s1) else Some (s_dispatch s1));
        cs \<leftarrow> release (s_conns s1) conn;
        Some (s1\<lparr>s_os := ne_close env (c_socket c1) (s_os s1), s_dispatch := t, s_conns := cs\<rparr>, w1)
      } else Some sw)"

definition server_connection_remove :: "('f, 'o) net_env \<Rightarrow> ('f, 'o, 'w) destroy_call \<Rightarrow> ptr \<Rightarrow>
    ('f, 'o) Server \<times> 'w \<Rightarrow> (('f, 'o) Server \<times> 'w) option" where
  "server_connection_remove env call_destroy conn sw =
     (if conn \<noteq> None then do {
        node \<leftarrow> list_find (s_connections (fst sw)) list_equal conn;
        (d, l) \<leftarrow> list_remove (s_connections (fst sw)) node;
        connection_free env call_destroy conn ((fst sw)\<lparr>s_connections := l\<rparr>, snd sw)
      } else Some sw)"

definition connection_ready :: "('f, 'o) net_env \<Rightarrow> ('f, 'o, 'w) recv_call \<Rightarrow> ('f, 'o, 'w) destroy_call \<Rightarrow> ptr \<Rightarrow>
    ('f, 'o) Server \<times> 'w \<Rightarrow> (('f, 'o) Server \<times> 'w) option" where
  "connection_ready env call_recv call_destroy conn sw =
     (if conn \<noteq> None then do {
        c \<leftarrow> deref (s_conns (fst sw)) conn;
        let ((rdbytes, bs), os) = ne_read env (c_socket c) (c_buffer c \<noteq> None) (s_framesize (fst sw)) (s_os (fst sw));
        let s0 = (fst sw)\<lparr>s_os := os\<rparr>;
        if rdbytes = -1 then server_connection_remove env call_destroy conn (s0, snd sw)
        else if 0 \<le> rdbytes \<and> rdbytes < int (s_framesize s0) then server_connection_remove env call_destroy conn (s0, snd sw)
        else (case s_recvfn s0 of
                None \<Rightarrow> Some (s0, snd sw)
              | Some f \<Rightarrow> do {
                  cs \<leftarrow> update_at (s_conns s0) conn (\<lambda>c. c\<lparr>c_waiting := True, c_buffer := Some bs\<rparr>);
                  call_recv f (s_arg s0) bs (unat (word_of_int rdbytes :: size_t)) conn (s0\<lparr>s_conns := cs\<rparr>, snd sw)
                })
      } else Some sw)"

definition connection_error :: "('f, 'o) net_env \<Rightarrow> ('f, 'o, 'w) destroy_call \<Rightarrow> DispatchError \<Rightarrow> ptr \<Rightarrow>
    ('f, 'o) Server \<times> 'w \<Rightarrow> (('f, 'o) Server \<times> 'w) option" where
  "connection_error env call_destroy err conn sw =
     (if conn \<noteq> None then
        (case err of
           DISPATCH_FD_CLOSED \<Rightarrow> server_connection_remove env call_destroy conn sw
         | DISPATCH_FD_INVALID \<Rightarrow> server_connection_remove env call_destroy conn sw
         | DISPATCH_POLL_ERROR \<Rightarrow> server_connection_remove env call_destroy conn sw)
      else Some sw)"

definition connection_reply :: "('f, 'o) net_env \<Rightarrow> ('f, 'o, 'w) destroy_call \<Rightarrow> ptr \<Rightarrow> byte list option \<Rightarrow> nat \<Rightarrow>
    ('f, 'o) Server \<times> 'w \<Rightarrow> (('f, 'o) Server \<times> 'w) option" where
  "connection_reply env call_destroy conn buffer bufsize sw =
     (if conn \<noteq> None then do {
        cs \<leftarrow> update_at (s_conns (fst sw)) conn (c_waiting_update (\<lambda>_. False));
        let s0 = (fst sw)\<lparr>s_conns := cs\<rparr>;
        (case buffer of
           None \<Rightarrow> Some (s0, snd sw)
         | Some bs \<Rightarrow>
           if bufsize > 0 then do {
             c \<leftarrow> deref cs conn;
             let (wrbytes, os) = ne_write env (c_socket c) (take bufsize bs) (s_os s0);
             let s1 = s0\<lparr>s_os := os\<rparr>;
             if wrbytes = -1 then server_connection_remove env call_destroy conn (s1, snd sw)
             else if 0 \<le> wrbytes \<and> wrbytes < int (s_framesize s1) then server_connection_remove env call_destroy conn (s1, snd sw)
             else Some (s1, snd sw)
           } else Some (s0, snd sw))
      } else Some sw)"

text \<open>\<open>server_broadcast\<close>: the loop reads \<open>node->next\<close> after the reply, when the node may be gone.\<close>

partial_function (option) server_broadcast_loop :: "('f, 'o) net_env \<Rightarrow> ('f, 'o, 'w) destroy_call \<Rightarrow> byte list \<Rightarrow> nat \<Rightarrow>
    ptr \<Rightarrow> ('f, 'o) Server \<times> 'w \<Rightarrow> (('f, 'o) Server \<times> 'w) option" where
  "server_broadcast_loop env call_destroy buffer bufsize node sw =
     (case node of
        None \<Rightarrow> Some sw
      | Some n \<Rightarrow>
        (case s_connections (fst sw) of
           None \<Rightarrow> None
         | Some l \<Rightarrow>
           (case Option.bind (list_data (l_nodes l) node) (deref (s_conns (fst sw))) of
              None \<Rightarrow> None
            | Some c \<Rightarrow>
              (case (if c_waiting c then Some sw
                     else connection_reply env call_destroy (the (list_data (l_nodes l) node)) (Some buffer) bufsize sw) of
                 None \<Rightarrow> None
               | Some sw' \<Rightarrow>
                 (case s_connections (fst sw') of
                    None \<Rightarrow> None
                  | Some l' \<Rightarrow>
                    (case list_next (l_nodes l') node of
                       None \<Rightarrow> None
                     | Some node' \<Rightarrow> server_broadcast_loop env call_destroy buffer bufsize node' sw'))))))"

definition server_broadcast :: "('f, 'o) net_env \<Rightarrow> ('f, 'o, 'w) destroy_call \<Rightarrow> byte list option \<Rightarrow> nat \<Rightarrow>
    ('f, 'o) Server \<times> 'w \<Rightarrow> (('f, 'o) Server \<times> 'w) option" where
  "server_broadcast env call_destroy buffer bufsize sw = (case buffer of
     None \<Rightarrow> Some sw
   | Some bs \<Rightarrow> if bufsize > 0
               then server_broadcast_loop env call_destroy bs bufsize (list_first (s_connections (fst sw))) sw
               else Some sw)"

definition server_set_connection_destroy_callback :: "'f option \<Rightarrow> ptr \<Rightarrow> ('f, 'o) Server \<Rightarrow> ('f, 'o) Server" where
  "server_set_connection_destroy_callback destroy arg s = s\<lparr>s_conndestroy := destroy, s_conndestroyarg := arg\<rparr>"

text \<open>\<open>server_close\<close> leaves the dispatch table and the operating system behind.\<close>

definition server_close :: "('f, 'o) net_env \<Rightarrow> ('f, 'o, 'w) destroy_call \<Rightarrow> ('f, 'o) Server \<times> 'w \<Rightarrow>
    ('f DispatchPtr \<times> 'o \<times> 'w) option" where
  "server_close env call_destroy sw = do {
     t \<leftarrow> table_remove_fd (s_listener (fst sw)) (s_dispatch (fst sw));
     let s0 = (fst sw)\<lparr>s_dispatch := t, s_os := ne_close env (s_listener (fst sw)) (s_os (fst sw))\<rparr>;
     (s1, w1) \<leftarrow> list_free (\<lambda>f a. connection_free env call_destroy (Some a)) (s_connections s0) (s0, snd sw);
     Some (s_dispatch s1, s_os s1, w1)
   }"

end
