(* ===== verification/Net_Refinement.thy ===== *)
theory Net_Refinement
  imports Net_Server
begin

text \<open>
  The invariant of the TCP server and its contract with the client. \<open>net_rep\<close> says that the list, the
  store of the connections and the dispatch table agree: every connection is in the list exactly
  once, and every entry of the table that would call a connection's handler does so for a connection
  that exists. The locale \<open>net_client\<close> is the contract of the destroy callback, \<open>net_server\<close> adds the
  receive callback.
\<close>

section \<open>The invariant\<close>

type_synonym 'f entry = "pollfd \<times> 'f DispatchEntry"

definition entries_ok :: "('f, 'o) net_env \<Rightarrow> ('f option \<Rightarrow> 'f option \<Rightarrow> bool) \<Rightarrow> (addr \<rightharpoonup> 'f Connection) \<Rightarrow> 'f entry list \<Rightarrow> bool" where
  "entries_ok env other conns xs \<longleftrightarrow>
     (\<forall>x\<in>set xs. if e_readyfn (snd x) = Some (ne_ready env) \<or> e_errorfn (snd x) = Some (ne_error env)
        then e_readyfn (snd x) = Some (ne_ready env) \<and> e_errorfn (snd x) = Some (ne_error env) \<and>
          (\<exists>a c. e_arg (snd x) = Some a \<and> conns a = Some c \<and> p_fd (fst x) = c_socket c)
        else other (e_readyfn (snd x)) (e_errorfn (snd x)))"

text \<open>The entries of the connections survive a change of the store that keeps their sockets.\<close>

lemma entries_okE:
  assumes "entries_ok env other conns xs" "x \<in> set xs"
    "e_readyfn (snd x) = Some (ne_ready env) \<or> e_errorfn (snd x) = Some (ne_error env)"
  obtains a c where "e_arg (snd x) = Some a" "conns a = Some c" "p_fd (fst x) = c_socket c"
    "e_readyfn (snd x) = Some (ne_ready env)" "e_errorfn (snd x) = Some (ne_error env)"
proof -
  have "e_readyfn (snd x) = Some (ne_ready env) \<and> e_errorfn (snd x) = Some (ne_error env) \<and>
      (\<exists>a c. e_arg (snd x) = Some a \<and> conns a = Some c \<and> p_fd (fst x) = c_socket c)"
    using bspec [OF assms(1) [unfolded entries_ok_def] assms(2)] assms(3) by (simp only: if_True)
  with that show thesis by blast
qed

lemma entries_ok_other:
  assumes "entries_ok env other conns xs" "x \<in> set xs"
    "\<not> (e_readyfn (snd x) = Some (ne_ready env) \<or> e_errorfn (snd x) = Some (ne_error env))"
  shows "other (e_readyfn (snd x)) (e_errorfn (snd x))"
  using bspec [OF assms(1) [unfolded entries_ok_def] assms(2)] assms(3) by (simp only: if_False)

lemma entries_ok_append:
  "entries_ok env other conns (xs @ ys) \<longleftrightarrow> entries_ok env other conns xs \<and> entries_ok env other conns ys"
  unfolding entries_ok_def set_append by (rule ball_Un)

lemma entries_ok_mono:
  assumes "entries_ok env other conns xs" "set ys \<subseteq> set xs"
    and "\<And>x a c. x \<in> set ys \<Longrightarrow> e_arg (snd x) = Some a \<Longrightarrow> conns a = Some c \<Longrightarrow> p_fd (fst x) = c_socket c \<Longrightarrow>
      \<exists>c'. conns' a = Some c' \<and> c_socket c' = c_socket c"
  shows "entries_ok env other conns' ys"
  unfolding entries_ok_def
proof
  fix x assume x: "x \<in> set ys"
  with assms(2) have xs: "x \<in> set xs" by blast
  show "if e_readyfn (snd x) = Some (ne_ready env) \<or> e_errorfn (snd x) = Some (ne_error env)
      then e_readyfn (snd x) = Some (ne_ready env) \<and> e_errorfn (snd x) = Some (ne_error env) \<and>
        (\<exists>a c. e_arg (snd x) = Some a \<and> conns' a = Some c \<and> p_fd (fst x) = c_socket c)
      else other (e_readyfn (snd x)) (e_errorfn (snd x))"
  proof (cases "e_readyfn (snd x) = Some (ne_ready env) \<or> e_errorfn (snd x) = Some (ne_error env)")
    case True
    with assms(1) xs obtain a c where a: "e_arg (snd x) = Some a" "conns a = Some c" "p_fd (fst x) = c_socket c"
        "e_readyfn (snd x) = Some (ne_ready env)" "e_errorfn (snd x) = Some (ne_error env)" by (rule entries_okE)
    with assms(3) [OF x a(1-3)] show ?thesis by auto
  next
    case False
    with entries_ok_other [OF assms(1) xs False] show ?thesis by (simp only: if_False)
  qed
qed

lemma entries_ok_update:
  assumes "entries_ok env other conns xs" "conns a = Some c" "c_socket c' = c_socket c"
  shows "entries_ok env other (conns(a \<mapsto> c')) xs"
  using assms by (elim entries_ok_mono) auto

lemma entries_ok_remove:
  assumes "entries_ok env other conns xs" "conns a = Some c" "set ys \<subseteq> {x \<in> set xs. p_fd (fst x) \<noteq> c_socket c}"
  shows "entries_ok env other (conns(a := None)) ys"
  using assms by (elim entries_ok_mono) auto

lemma entries_ok_new:
  assumes "entries_ok env other conns xs" "conns a = None"
  shows "entries_ok env other (conns(a \<mapsto> c)) xs"
  using assms by (elim entries_ok_mono) auto

definition net_rep :: "('f, 'o) net_env \<Rightarrow> ('f option \<Rightarrow> 'f option \<Rightarrow> bool) \<Rightarrow> ('f, 'o) Server \<Rightarrow> addr list \<Rightarrow> 'f entry list \<Rightarrow> bool" where
  "net_rep env other s cs xs \<longleftrightarrow>
     list_holds (s_connections s) (map Some cs) \<and> l_free (the (s_connections s)) = Some (ne_connection_free env) \<and>
     distinct cs \<and> dom (s_conns s) = set cs \<and> (\<exists>t. s_dispatch s = Some t \<and> disp_rep t xs) \<and>
     entries_ok env other (s_conns s) xs \<and>
     (\<forall>c\<in>ran (s_conns s). c_destroy c = s_conndestroy s \<and> c_destroyarg c = s_conndestroyarg s)"

text \<open>The table has no more pending events behind any position, so the event loop comes to an end.\<close>

definition quiet :: "'f entry list \<Rightarrow> 'f entry list \<Rightarrow> bool" where
  "quiet xs ys \<longleftrightarrow> (\<forall>k. pending ys k \<le> pending xs k)"

lemma quiet_refl [simp]: "quiet xs xs"
  by (simp add: quiet_def)

lemma quiet_trans: "quiet xs ys \<Longrightarrow> quiet ys zs \<Longrightarrow> quiet xs zs"
  unfolding quiet_def using le_trans by blast

definition sconf :: "('f, 'o) Server \<Rightarrow> _" where
  "sconf s = (s_listener s, s_framesize s, s_recvfn s, s_arg s, s_conndestroy s, s_conndestroyarg s)"

lemma net_rep_os [simp]: "net_rep env other (s\<lparr>s_os := os\<rparr>) cs xs = net_rep env other s cs xs"
  by (simp add: net_rep_def)

lemma sconf_simps [simp]:
  "sconf (s\<lparr>s_os := os\<rparr>) = sconf s" "sconf (s\<lparr>s_conns := h\<rparr>) = sconf s" "sconf (s\<lparr>s_dispatch := t\<rparr>) = sconf s"
  "sconf (s\<lparr>s_connections := l\<rparr>) = sconf s"
  by (simp_all add: sconf_def)

lemma net_rep_conn:
  assumes "net_rep env other s cs xs" "a \<in> set cs"
  obtains c where "s_conns s a = Some c" "c_destroy c = s_conndestroy s" "c_destroyarg c = s_conndestroyarg s"
proof -
  from assms obtain c where "s_conns s a = Some c" unfolding net_rep_def by blast
  moreover from this assms(1) have "c_destroy c = s_conndestroy s" "c_destroyarg c = s_conndestroyarg s"
    by (auto simp: net_rep_def ran_def)
  ultimately show ?thesis by (rule that)
qed

lemma net_rep_update:
  assumes "net_rep env other s cs xs" "s_conns s a = Some c" "c_socket c' = c_socket c" "c_destroy c' = c_destroy c"
    "c_destroyarg c' = c_destroyarg c"
  shows "net_rep env other (s\<lparr>s_conns := (s_conns s)(a \<mapsto> c')\<rparr>) cs xs"
proof -
  have "entries_ok env other ((s_conns s)(a \<mapsto> c')) xs"
    using assms(1-3) by (intro entries_ok_update) (simp_all add: net_rep_def)
  moreover have "dom ((s_conns s)(a \<mapsto> c')) = dom (s_conns s)" using assms(2) by auto
  moreover have "c_destroy c' = s_conndestroy s \<and> c_destroyarg c' = s_conndestroyarg s"
    using assms by (auto simp: net_rep_def ran_def)
  ultimately show ?thesis
    using assms(1) by (auto simp: net_rep_def ran_def)
qed

section \<open>The dispatch table\<close>

lemma table_add_rep:
  assumes "disp_rep t xs" "0 \<le> fd"
  shows "\<exists>t'. table_add True fd events readyfn errorfn arg (Some t) = Some (Some t') \<and>
    disp_rep t' (xs @ [new_entry fd events readyfn errorfn None arg])"
  using dispatch_add_rep [OF assms, where indexfn = None and w = "()" and w' = "()" and call_index = no_index]
  by (fastforce simp: table_add_def)

lemma table_add_negative: "fd < 0 \<Longrightarrow> table_add grow fd events readyfn errorfn arg (Some t) = Some (Some t)"
  by (simp add: table_add_def dispatch_add_def)

lemma table_remove_fd_rep:
  assumes "disp_rep t xs"
  shows "\<exists>t' ys. table_remove_fd fd (Some t) = Some (Some t') \<and> disp_rep t' ys \<and>
    mset ys = filter_mset (\<lambda>x. p_fd (fst x) \<noteq> fd) (mset xs) \<and> quiet xs ys"
  using dispatch_remove_fd_rep [of no_index t xs fd "()", OF _ assms]
  by (auto simp: table_remove_fd_def no_index_def quiet_def)

lemma set_filter_mset: "mset ys = filter_mset P (mset xs) \<Longrightarrow> set ys = {x \<in> set xs. P x}"
  by (metis set_mset_filter set_mset_mset)

section \<open>Broadcast\<close>

text \<open>What a broadcast writes when every write succeeds: to each connection that waits for no reply, in order.\<close>

definition broadcast_writes :: "('f, 'o) net_env \<Rightarrow> (addr \<rightharpoonup> 'f Connection) \<Rightarrow> byte list \<Rightarrow> addr list \<Rightarrow> 'o \<Rightarrow> 'o" where
  "broadcast_writes env conns bs cs os =
     fold (\<lambda>a os. snd (ne_write env (c_socket (the (conns a))) bs os)) (filter (\<lambda>a. \<not> c_waiting (the (conns a))) cs) os"

definition writes_ok :: "('f, 'o) net_env \<Rightarrow> nat \<Rightarrow> byte list \<Rightarrow> bool" where
  "writes_ok env n bs \<longleftrightarrow> (\<forall>fd os. int n \<le> fst (ne_write env fd bs os))"

lemma reply_written:
  assumes "s_conns s a = Some c" "\<not> c_waiting c" "writes_ok env (s_framesize s) (take n bs)" "0 < n"
  shows "connection_reply env call_destroy (Some a) (Some bs) n (s, w) =
    Some (s\<lparr>s_os := snd (ne_write env (c_socket c) (take n bs) (s_os s))\<rparr>, w)"
proof -
  obtain r os where r: "ne_write env (c_socket c) (take n bs) (s_os s) = (r, os)" by fastforce
  have "int (s_framesize s) \<le> r" using assms(3) r unfolding writes_ok_def by (metis fst_conv)
  moreover have "c\<lparr>c_waiting := False\<rparr> = c" using assms(2) by simp
  then have "(s_conns s)(a \<mapsto> c\<lparr>c_waiting := False\<rparr>) = s_conns s" using assms(1) by auto
  ultimately show ?thesis
    using assms(1,4) r by (simp add: connection_reply_def)
qed

lemma broadcast_loop_ok:
  assumes "dseg (l_nodes l) p node ns q None" "map (data_at (l_nodes l)) ns = map Some cs" "set cs \<subseteq> dom (s_conns s)"
    "s_connections s = Some l" "writes_ok env (s_framesize s) (take n bs)" "0 < n"
  shows "server_broadcast_loop env call_destroy bs n node (s, w) =
    Some (s\<lparr>s_os := broadcast_writes env (s_conns s) (take n bs) cs (s_os s)\<rparr>, w)"
  using assms
proof (induction ns arbitrary: p node cs s)
  case Nil
  then show ?case by (simp add: server_broadcast_loop.simps broadcast_writes_def)
next
  case (Cons k ns)
  from Cons.prems(2) obtain a cs' where cs: "cs = a # cs'" "data_at (l_nodes l) k = Some a"
      "map (data_at (l_nodes l)) ns = map Some cs'" by (auto simp: Cons_eq_map_conv)
  from Cons.prems(1) cs(2) obtain x where x: "node = Some k" "l_nodes l k = Some x" "node_data x = Some a"
      "dseg (l_nodes l) (Some k) (node_next x) ns q None" by (auto simp: data_at_def split: option.splits)
  from Cons.prems(3) cs(1) obtain c where c: "s_conns s a = Some c" by auto
  let ?s = "if c_waiting c then s else s\<lparr>s_os := snd (ne_write env (c_socket c) (take n bs) (s_os s))\<rparr>"
  have "(if c_waiting c then Some (s, w) else connection_reply env call_destroy (Some a) (Some bs) n (s, w)) = Some (?s, w)"
    by (simp add: reply_written [OF c _ Cons.prems(5,6)])
  then have "server_broadcast_loop env call_destroy bs n node (s, w) =
      server_broadcast_loop env call_destroy bs n (node_next x) (?s, w)"
    using x c Cons.prems(4) by (subst server_broadcast_loop.simps) (auto simp: list_data_def list_next_def)
  also have "\<dots> = Some (?s\<lparr>s_os := broadcast_writes env (s_conns ?s) (take n bs) cs' (s_os ?s)\<rparr>, w)"
    using Cons.IH [OF x(4) cs(3), of ?s] Cons.prems(3-6) cs(1) by simp
  finally show ?case using c cs(1) by (auto simp: broadcast_writes_def)
qed

section \<open>The contract of the destroy callback\<close>

text \<open>
  What a removal and a reply do to the store of the connections and to the operating system: a connection
  is closed and forgotten; a reply is one \<open>write\<close>, and a connection that fails it is dropped.
\<close>

definition dropped :: "('f, 'o) net_env \<Rightarrow> addr \<Rightarrow> ('f, 'o) Server \<Rightarrow> ('f, 'o) Server \<Rightarrow> bool" where
  "dropped env a s s' \<longleftrightarrow> s_conns s' = (s_conns s)(a := None) \<and>
     s_os s' = ne_close env (c_socket (the (s_conns s a))) (s_os s)"

definition replied :: "('f, 'o) net_env \<Rightarrow> addr \<Rightarrow> byte list \<Rightarrow> ('f, 'o) Server \<Rightarrow> ('f, 'o) Server \<Rightarrow> bool" where
  "replied env a bs s s' \<longleftrightarrow> (case ne_write env (c_socket (the (s_conns s a))) bs (s_os s) of (n, os) \<Rightarrow>
     if n = -1 \<or> 0 \<le> n \<and> n < int (s_framesize s) then dropped env a (s\<lparr>s_os := os\<rparr>) s'
     else s' = s\<lparr>s_conns := (s_conns s)(a \<mapsto> (the (s_conns s a))\<lparr>c_waiting := False\<rparr>), s_os := os\<rparr>)"

text \<open>
  \<open>winv L w\<close>: the client's state refers to no connection outside \<open>L\<close>. The destroy callback makes the
  client forget a connection, by \<open>dtor\<close>, and leaves the server alone.
\<close>

locale net_client =
  fixes env :: "('f, 'o) net_env"
    and other :: "'f option \<Rightarrow> 'f option \<Rightarrow> bool"
    and call_destroy :: "('f, 'o, 'w) destroy_call"
    and destroy_fn :: 'f and darg :: ptr
    and dtor :: "addr \<Rightarrow> 'w \<Rightarrow> 'w"
    and winv :: "addr set \<Rightarrow> 'w \<Rightarrow> bool"
  assumes destroy: "winv L w \<Longrightarrow> a \<in> L \<Longrightarrow>
      call_destroy destroy_fn darg (Some a) (s, w) = Some (s, dtor a w) \<and> winv (L - {a}) (dtor a w)"
    and winv_mono: "winv L w \<Longrightarrow> L \<subseteq> L' \<Longrightarrow> winv L' w"
begin

lemma connection_free_ok:
  assumes c: "s_conns s a = Some c" "c_destroy c = Some destroy_fn" "c_destroyarg c = darg"
    and t: "s_dispatch s = Some t" "disp_rep t xs" and w: "winv L w" "a \<in> L"
  shows "\<exists>t' ys. connection_free env call_destroy (Some a) (s, w) =
      Some (s\<lparr>s_os := ne_close env (c_socket c) (s_os s), s_dispatch := Some t', s_conns := (s_conns s)(a := None)\<rparr>, dtor a w) \<and>
    disp_rep t' ys \<and> mset ys = filter_mset (\<lambda>x. p_fd (fst x) \<noteq> c_socket c) (mset xs) \<and> quiet xs ys \<and>
    winv (L - {a}) (dtor a w)"
proof -
  from table_remove_fd_rep [OF t(2), of "c_socket c"] obtain t' ys where
    "table_remove_fd (c_socket c) (Some t) = Some (Some t')" "disp_rep t' ys"
    "mset ys = filter_mset (\<lambda>x. p_fd (fst x) \<noteq> c_socket c) (mset xs)" "quiet xs ys" by blast
  moreover from this destroy [OF w, of s] c t(1) have "connection_free env call_destroy (Some a) (s, w) =
      Some (s\<lparr>s_os := ne_close env (c_socket c) (s_os s), s_dispatch := Some t', s_conns := (s_conns s)(a := None)\<rparr>, dtor a w)"
    by (simp add: connection_free_def call_opt_def)
  ultimately show ?thesis using destroy [OF w] by blast
qed

lemma remove_ok:
  assumes rep: "net_rep env other s cs xs" and a: "a \<in> set cs" and wired: "s_conndestroy s = Some destroy_fn" "s_conndestroyarg s = darg"
    and w: "winv (set cs) w"
  shows "\<exists>s' ys. server_connection_remove env call_destroy (Some a) (s, w) = Some (s', dtor a w) \<and>
    net_rep env other s' (remove1 a cs) ys \<and> quiet xs ys \<and> sconf s' = sconf s \<and> winv (set (remove1 a cs)) (dtor a w) \<and>
    dropped env a s s'"
proof -
  from rep have r: "list_holds (s_connections s) (map Some cs)" "distinct cs" "dom (s_conns s) = set cs"
      "l_free (the (s_connections s)) = Some (ne_connection_free env)" "entries_ok env other (s_conns s) xs"
    by (simp_all add: net_rep_def)
  from rep obtain t where t: "s_dispatch s = Some t" "disp_rep t xs" by (auto simp: net_rep_def)
  from rep a obtain c where c: "s_conns s a = Some c" "c_destroy c = Some destroy_fn" "c_destroyarg c = darg"
    by (rule net_rep_conn) (simp add: wired)
  from list_holds_find_remove [OF r(1), of "Some a"] a obtain node l where
    l: "list_find (s_connections s) list_equal (Some a) = Some (Some node)"
       "list_remove (s_connections s) (Some node) = Some (Some a, l)" "list_holds l (remove1 (Some a) (map Some cs))"
       "l_free (the l) = Some (ne_connection_free env)"
    using r(4) by auto
  let ?s = "s\<lparr>s_connections := l\<rparr>"
  from connection_free_ok [of ?s a c t xs "set cs" w] c t w a obtain t' ys where
    f: "connection_free env call_destroy (Some a) (?s, w) = Some (?s\<lparr>s_os := ne_close env (c_socket c) (s_os s),
          s_dispatch := Some t', s_conns := (s_conns s)(a := None)\<rparr>, dtor a w)"
       "disp_rep t' ys" "mset ys = filter_mset (\<lambda>x. p_fd (fst x) \<noteq> c_socket c) (mset xs)" "quiet xs ys"
       "winv (set cs - {a}) (dtor a w)" by auto
  let ?s' = "?s\<lparr>s_os := ne_close env (c_socket c) (s_os s), s_dispatch := Some t', s_conns := (s_conns s)(a := None)\<rparr>"
  have "remove1 (Some a) (map Some cs) = map Some (remove1 a cs)"
    by (induction cs) auto
  moreover have "entries_ok env other ((s_conns s)(a := None)) ys"
    by (rule entries_ok_remove [OF r(5) c(1)]) (simp add: set_filter_mset [OF f(3)])
  moreover have "dom ((s_conns s)(a := None)) = set (remove1 a cs)" "distinct (remove1 a cs)"
    using r(2,3) by auto
  moreover have "\<forall>c\<in>ran ((s_conns s)(a := None)). c_destroy c = s_conndestroy s \<and> c_destroyarg c = s_conndestroyarg s"
    using rep by (auto simp: net_rep_def ran_def split: if_splits)
  ultimately have "net_rep env other ?s' (remove1 a cs) ys"
    using l(3,4) f(2) by (simp add: net_rep_def)
  moreover have "server_connection_remove env call_destroy (Some a) (s, w) = Some (?s', dtor a w)"
    using l(1,2) f(1) by (simp add: server_connection_remove_def)
  moreover have "sconf ?s' = sconf s" "winv (set (remove1 a cs)) (dtor a w)" "dropped env a s ?s'"
    using f(5) r(2) c(1) by (simp_all add: dropped_def)
  ultimately show ?thesis using f(4) by blast
qed

lemma reply_ok:
  assumes rep: "net_rep env other s cs xs" and conn: "conn \<in> insert None (Some ` set cs)"
    and wired: "s_conndestroy s = Some destroy_fn" "s_conndestroyarg s = darg" and w: "winv (set cs) w"
  shows "\<exists>s' w' cs' ys. connection_reply env call_destroy conn buffer bufsize (s, w) = Some (s', w') \<and>
    net_rep env other s' cs' ys \<and> quiet xs ys \<and> sconf s' = sconf s \<and> winv (set cs') w' \<and> set cs' \<subseteq> set cs \<and>
    (cs' = cs \<and> w' = w \<or> (\<exists>a. conn = Some a \<and> a \<in> set cs \<and> cs' = remove1 a cs \<and> w' = dtor a w)) \<and>
    (case conn of None \<Rightarrow> s' = s
     | Some a \<Rightarrow> buffer \<noteq> None \<and> 0 < bufsize \<longrightarrow> replied env a (take bufsize (the buffer)) s s')"
proof (cases conn)
  case None
  with rep w show ?thesis by (auto simp: connection_reply_def intro!: exI [of _ xs])
next
  case (Some a)
  with conn have a: "a \<in> set cs" by auto
  from rep a obtain c where c: "s_conns s a = Some c" by (rule net_rep_conn)
  let ?c = "c\<lparr>c_waiting := False\<rparr>"
  let ?s = "s\<lparr>s_conns := (s_conns s)(a \<mapsto> ?c)\<rparr>"
  have r: "net_rep env other ?s cs xs" by (rule net_rep_update [OF rep c]) simp_all
  obtain n os where n: "ne_write env (c_socket c) (take bufsize (the buffer)) (s_os s) = (n, os)" by fastforce
  have run: "connection_reply env call_destroy conn buffer bufsize (s, w) =
      (if buffer = None \<or> bufsize = 0 then Some (?s\<lparr>s_os := s_os s\<rparr>, w)
       else if n = -1 \<or> 0 \<le> n \<and> n < int (s_framesize s)
       then server_connection_remove env call_destroy (Some a) (?s\<lparr>s_os := os\<rparr>, w)
       else Some (?s\<lparr>s_os := os\<rparr>, w))"
    using c n Some by (cases buffer) (auto simp: connection_reply_def Let_def)
  show ?thesis
  proof (cases "buffer \<noteq> None \<and> bufsize \<noteq> 0 \<and> (n = -1 \<or> 0 \<le> n \<and> n < int (s_framesize s))")
    case True
    from remove_ok [of "?s\<lparr>s_os := os\<rparr>" cs xs a w] r a w wired obtain s' ys where
      s': "server_connection_remove env call_destroy (Some a) (?s\<lparr>s_os := os\<rparr>, w) = Some (s', dtor a w)"
        "net_rep env other s' (remove1 a cs) ys" "quiet xs ys" "sconf s' = sconf s" "winv (set (remove1 a cs)) (dtor a w)"
        "dropped env a (?s\<lparr>s_os := os\<rparr>) s'" by auto
    have "replied env a (take bufsize (the buffer)) s s'"
      using True n c s'(6) by (simp add: replied_def dropped_def)
    with s' run True a Some set_remove1_subset [of a cs] show ?thesis
      by (intro exI [of _ s'] exI [of _ "dtor a w"] exI [of _ "remove1 a cs"] exI [of _ ys]) simp
  next
    case False
    let ?s' = "?s\<lparr>s_os := if buffer = None \<or> bufsize = 0 then s_os s else os\<rparr>"
    have "connection_reply env call_destroy conn buffer bufsize (s, w) = Some (?s', w)"
      using run False by auto
    moreover have "buffer \<noteq> None \<and> 0 < bufsize \<longrightarrow> replied env a (take bufsize (the buffer)) s ?s'"
      using False n c by (auto simp: replied_def)
    ultimately show ?thesis
      using r w Some by (intro exI [of _ ?s'] exI [of _ w] exI [of _ cs] exI [of _ xs]) simp
  qed
qed

lemma error_ok:
  assumes rep: "net_rep env other s cs xs" and a: "a \<in> set cs"
    and wired: "s_conndestroy s = Some destroy_fn" "s_conndestroyarg s = darg" and w: "winv (set cs) w"
  shows "\<exists>s' ys. connection_error env call_destroy err (Some a) (s, w) = Some (s', dtor a w) \<and>
    net_rep env other s' (remove1 a cs) ys \<and> quiet xs ys \<and> sconf s' = sconf s \<and> winv (set (remove1 a cs)) (dtor a w) \<and>
    dropped env a s s'"
  using remove_ok [OF assms] by (cases err) (simp_all add: connection_error_def)

lemma net_rep_enqueue:
  assumes "net_rep env other s cs xs" "total_allocator (ne_malloc env)"
  shows "\<exists>n l. list_enqueue (ne_malloc env) (s_connections s) (Some a) = Some (Some n, l) \<and> list_holds l (map Some (cs @ [a])) \<and>
    l_free (the l) = Some (ne_connection_free env)"
proof -
  have "list_holds (s_connections s) (map Some cs)" using assms(1) by (simp add: net_rep_def)
  from list_holds_enqueue [OF assms(2) this, of "Some a"] obtain n l where
    l: "list_enqueue (ne_malloc env) (s_connections s) (Some a) = Some (Some n, l)" "list_holds l (map Some (cs @ [a]))"
    by auto
  from assms(1) obtain l0 where "s_connections s = Some l0"
    by (auto simp: net_rep_def list_holds_def list_rep_def split: option.splits)
  with l list_enqueue_free [of "ne_malloc env" l0 "Some a" "Some n" l] assms(1) show ?thesis by (simp add: net_rep_def)
qed

lemma entries_ok_added:
  assumes "entries_ok env other conns xs" "a \<notin> dom conns" "fd = c_socket c"
  shows "entries_ok env other (conns(a \<mapsto> c)) (xs @ [new_entry fd (-1) (Some (ne_ready env)) (Some (ne_error env)) None (Some a)])"
proof -
  have "entries_ok env other (conns(a \<mapsto> c)) xs" by (rule entries_ok_new [OF assms(1)]) (use assms(2) in auto)
  moreover have "entries_ok env other (conns(a \<mapsto> c)) [new_entry fd (-1) (Some (ne_ready env)) (Some (ne_error env)) None (Some a)]"
    by (simp add: entries_ok_def new_entry_def assms(3))
  ultimately show ?thesis by (simp only: entries_ok_append simp_thms)
qed

lemma listener_ok:
  assumes rep: "net_rep env other s cs xs" and mem: "total_allocator (ne_malloc env)" "ne_grow env"
    and w: "winv (set cs) w" and fd: "fst (fst (ne_accept env (s_listener s) (s_os s))) \<ge> -1"
  shows "\<exists>s' cs' ys. server_listener_ready env s = Some s' \<and> net_rep env other s' cs' ys \<and> quiet xs ys \<and>
    sconf s' = sconf s \<and> winv (set cs') w \<and> (cs' = cs \<or> (\<exists>a. a \<notin> set cs \<and> cs' = cs @ [a]))"
proof -
  obtain fd inet os where acc: "ne_accept env (s_listener s) (s_os s) = ((fd, inet), os)" by (metis prod.exhaust)
  show ?thesis
  proof (cases "fd = -1 \<or> \<not> inet")
    case True
    then have "server_listener_ready env s = Some (s\<lparr>s_os := os\<rparr>)"
      by (auto simp: server_listener_ready_def acc Let_def)
    with rep w show ?thesis by (auto intro!: exI [of _ xs])
  next
    case False
    with fd acc have fd0: "0 \<le> fd" "fd \<noteq> -1" inet by auto
    from rep obtain t where t: "s_dispatch s = Some t" "disp_rep t xs" by (auto simp: net_rep_def)
    have "finite (dom (s_conns s))" using rep by (simp add: net_rep_def)
    with mem(1) obtain a where a: "ne_malloc env (dom (s_conns s)) = Some a" "a \<notin> dom (s_conns s)"
      by (rule total_allocatorE)
    let ?e = "new_entry fd (-1) (Some (ne_ready env)) (Some (ne_error env)) None (Some a)"
    from table_add_rep [OF t(2) fd0(1), of "-1" "Some (ne_ready env)" "Some (ne_error env)" "Some a"] obtain t' where
      t': "table_add True fd (-1) (Some (ne_ready env)) (Some (ne_error env)) (Some a) (Some t) = Some (Some t')"
        "disp_rep t' (xs @ [?e])"
      by blast
    define c where "c = \<lparr>c_socket = fd, c_buffer = (if ne_buffer env then Some (replicate (s_framesize s) 0) else None),
      c_waiting = False, c_destroy = s_conndestroy s, c_destroyarg = s_conndestroyarg s\<rparr>"
    from net_rep_enqueue [OF rep mem(1), of a] obtain n l where
      l: "list_enqueue (ne_malloc env) (s_connections s) (Some a) = Some (Some n, l)" "list_holds l (map Some (cs @ [a]))"
      and lf: "l_free (the l) = Some (ne_connection_free env)" by blast
    let ?s = "s\<lparr>s_os := os, s_conns := (s_conns s)(a \<mapsto> c), s_dispatch := Some t', s_connections := l\<rparr>"
    have run: "server_listener_ready env s = Some ?s"
      using fd0(2,3) a(1) t(1) t'(1) l(1) mem(2)
      by (simp add: server_listener_ready_def acc Let_def connection_new_def c_def)
    have "entries_ok env other (s_conns s) xs" using rep by (simp add: net_rep_def)
    from entries_ok_added [OF this _ refl, of a c] a(2) have "entries_ok env other ((s_conns s)(a \<mapsto> c)) (xs @ [?e])"
      by (auto simp: c_def)
    moreover have na: "a \<notin> set cs" using a(2) rep by (simp add: net_rep_def)
    ultimately have "net_rep env other ?s (cs @ [a]) (xs @ [?e])"
      using rep l(2) lf t'(2) by (auto simp: net_rep_def c_def ran_def)
    moreover have "quiet xs (xs @ [?e])"
      by (simp add: quiet_def pending_append_idle new_entry_def)
    moreover have "winv (set (cs @ [a])) w" by (rule winv_mono [OF w]) auto
    moreover have "sconf ?s = sconf s" by (simp add: sconf_def)
    ultimately show ?thesis using run na by blast
  qed
qed

text \<open>
  A broadcast whose write to the first connection fails: the connection is removed together with its list
  node, and the loop then reads the successor from the node it has just freed.
\<close>

lemma broadcast_failed_write:
  assumes rep: "net_rep env other s (a # cs) xs" and c: "s_conns s a = Some c" "\<not> c_waiting c"
    and wired: "s_conndestroy s = Some destroy_fn" "s_conndestroyarg s = darg" and w: "winv (set (a # cs)) w"
    and fails: "ne_write env (c_socket c) (take n bs) (s_os s) = (-1, os)" and n: "0 < n"
  shows "server_broadcast env call_destroy (Some bs) n (s, w) = None"
proof -
  from rep obtain ns where "list_rep (s_connections s) ns (map Some (a # cs))" by (auto simp: net_rep_def list_holds_def)
  moreover from this obtain k ns' where ns: "ns = k # ns'" by (cases ns) (auto dest: list_rep_length)
  ultimately have lr: "list_rep (s_connections s) ([] @ k # ns') (map Some (a # cs))" by simp
  then obtain l where l: "s_connections s = Some l" "l_head l = Some k" "data_at (l_nodes l) k = Some a"
      "k \<notin> set ns'" "dom (l_nodes l) = insert k (set ns')"
    by (elim list_repE) auto
  from list_remove_rep [OF lr] obtain l' where
    r: "list_remove (s_connections s) (Some k) = Some (Some a, l')" "list_rep l' ns' (map Some cs)" by auto
  from r(2) obtain m where m: "l' = Some m" "dom (l_nodes m) = set ns'" by (elim list_repE) simp
  have f: "list_find (s_connections s) list_equal (Some a) = Some (Some k)"
    using list_find_rep [OF lr, of list_equal "Some a"] l(1,3) by (simp add: list_equal_def)
  from rep obtain t where t: "s_dispatch s = Some t" "disp_rep t xs" by (auto simp: net_rep_def)
  have cd: "c_destroy c = Some destroy_fn" "c_destroyarg c = darg"
    using rep c(1) wired by (auto simp: net_rep_def ran_def)
  let ?s = "s\<lparr>s_conns := (s_conns s)(a \<mapsto> c\<lparr>c_waiting := False\<rparr>), s_os := os, s_connections := l'\<rparr>"
  have "s_conns ?s a = Some (c\<lparr>c_waiting := False\<rparr>)" "s_dispatch ?s = Some t" "a \<in> set (a # cs)" using t by simp_all
  from connection_free_ok [OF this(1) _ _ this(2) t(2) w this(3)] cd obtain s' where
    s': "connection_free env call_destroy (Some a) (?s, w) = Some (s', dtor a w)" "s_connections s' = l'" by auto
  have "connection_reply env call_destroy (Some a) (Some bs) n (s, w) = Some (s', dtor a w)"
    using c fails n f r(1) s'(1) by (simp add: connection_reply_def server_connection_remove_def Let_def)
  moreover have "list_data (l_nodes l) (Some k) = Some (Some a)"
    using l(3,5) by (auto simp: list_data_def data_at_def split: option.splits)
  moreover have "list_next (l_nodes m) (Some k) = None"
    using m(2) l(4) by (auto simp: list_next_def)
  ultimately have "server_broadcast_loop env call_destroy bs n (Some k) (s, w) = None"
    using l(1) c s'(2) m(1) by (subst server_broadcast_loop.simps) simp
  with n l(1,2) show ?thesis by (simp add: server_broadcast_def list_first_def)
qed

lemma free_all_ok:
  assumes "distinct cs" "dom (s_conns s) = set cs" "s_dispatch s = Some t" "disp_rep t xs" "entries_ok env other (s_conns s) xs"
    "\<forall>c\<in>ran (s_conns s). c_destroy c = Some destroy_fn \<and> c_destroyarg c = darg" "winv (set cs) w"
  shows "\<exists>s' t' ys. free_all (\<lambda>a. connection_free env call_destroy (Some a)) (map Some cs) (s, w) = Some (s', fold dtor cs w) \<and>
    s_conns s' = Map.empty \<and> s_dispatch s' = Some t' \<and> disp_rep t' ys \<and> entries_ok env other Map.empty ys \<and> set ys \<subseteq> set xs \<and>
    winv {} (fold dtor cs w)"
  using assms
proof (induction cs arbitrary: s t xs w)
  case Nil
  then show ?case by auto
next
  case (Cons a cs)
  then obtain c where c: "s_conns s a = Some c" by fastforce
  with Cons.prems(6) have cd: "c_destroy c = Some destroy_fn" "c_destroyarg c = darg" by (auto simp: ran_def)
  from connection_free_ok [OF c cd Cons.prems(3,4,7), of] obtain t1 ys where
    f: "connection_free env call_destroy (Some a) (s, w) = Some (s\<lparr>s_os := ne_close env (c_socket c) (s_os s),
          s_dispatch := Some t1, s_conns := (s_conns s)(a := None)\<rparr>, dtor a w)" "disp_rep t1 ys"
       "mset ys = filter_mset (\<lambda>x. p_fd (fst x) \<noteq> c_socket c) (mset xs)" "winv (set (a # cs) - {a}) (dtor a w)" by auto
  note ys = set_filter_mset [OF f(3)]
  let ?s = "s\<lparr>s_os := ne_close env (c_socket c) (s_os s), s_dispatch := Some t1, s_conns := (s_conns s)(a := None)\<rparr>"
  have e: "entries_ok env other (s_conns ?s) ys"
    using entries_ok_remove [OF Cons.prems(5) c, of ys] ys by simp
  have d: "distinct cs" "dom (s_conns ?s) = set cs" "s_dispatch ?s = Some t1" "winv (set cs) (dtor a w)"
    using Cons.prems(1,2) f(4) by auto
  have g: "\<forall>c\<in>ran (s_conns ?s). c_destroy c = Some destroy_fn \<and> c_destroyarg c = darg"
    using Cons.prems(6) by (auto simp: ran_def split: if_splits)
  from Cons.IH [OF d(1-3) f(2) e g d(4)] obtain s' t' zs where
    "free_all (\<lambda>a. connection_free env call_destroy (Some a)) (map Some cs) (?s, dtor a w) = Some (s', fold dtor cs (dtor a w))"
    "s_conns s' = Map.empty" "s_dispatch s' = Some t'" "disp_rep t' zs" "entries_ok env other Map.empty zs" "set zs \<subseteq> set ys"
    "winv {} (fold dtor cs (dtor a w))" by blast
  with f(1) ys show ?case by auto
qed

lemma close_ok:
  assumes rep: "net_rep env other s cs xs" and wired: "s_conndestroy s = Some destroy_fn" "s_conndestroyarg s = darg"
    and w: "winv (set cs) w"
  shows "\<exists>t ys os. server_close env call_destroy (s, w) = Some (Some t, os, fold dtor cs w) \<and> disp_rep t ys \<and>
    entries_ok env other Map.empty ys \<and> (\<forall>x\<in>set ys. x \<in> set xs \<and> p_fd (fst x) \<noteq> s_listener s) \<and> winv {} (fold dtor cs w)"
proof -
  from rep obtain t0 where t0: "s_dispatch s = Some t0" "disp_rep t0 xs" by (auto simp: net_rep_def)
  from table_remove_fd_rep [OF t0(2), of "s_listener s"] obtain t1 ys where
    t1: "table_remove_fd (s_listener s) (Some t0) = Some (Some t1)" "disp_rep t1 ys"
        "mset ys = filter_mset (\<lambda>x. p_fd (fst x) \<noteq> s_listener s) (mset xs)" by blast
  note ys = set_filter_mset [OF t1(3)]
  let ?s = "s\<lparr>s_dispatch := Some t1, s_os := ne_close env (s_listener s) (s_os s)\<rparr>"
  have "entries_ok env other (s_conns s) xs" using rep by (simp add: net_rep_def)
  then have "entries_ok env other (s_conns s) ys" by (rule entries_ok_mono) (use ys in auto)
  moreover have "\<forall>c\<in>ran (s_conns s). c_destroy c = Some destroy_fn \<and> c_destroyarg c = darg"
    using rep wired by (simp add: net_rep_def)
  ultimately obtain s' t' zs where
    f: "free_all (\<lambda>a. connection_free env call_destroy (Some a)) (map Some cs) (?s, w) = Some (s', fold dtor cs w)"
      "s_dispatch s' = Some t'" "disp_rep t' zs" "entries_ok env other Map.empty zs" "set zs \<subseteq> set ys" "winv {} (fold dtor cs w)"
    using free_all_ok [of cs ?s t1 ys w] rep t1(2) w by (auto simp: net_rep_def)
  from rep obtain l where l: "s_connections s = Some l" "list_holds (Some l) (map Some cs)"
      "l_free l = Some (ne_connection_free env)"
    by (cases "s_connections s") (auto simp: net_rep_def list_holds_def list_rep_def)
  from list_holds_free [OF l(2,3), of "\<lambda>f a. connection_free env call_destroy (Some a)" "(?s, w)" "(s', fold dtor cs w)"] f(1)
  have "list_free (\<lambda>f a. connection_free env call_destroy (Some a)) (Some l) (?s, w) = Some (s', fold dtor cs w)" by simp
  with l(1) t0(1) t1(1) f(2) have "server_close env call_destroy (s, w) = Some (Some t', s_os s', fold dtor cs w)"
    by (simp add: server_close_def)
  with f(3-6) ys show ?thesis by blast
qed

end

section \<open>The contract of the receive callback\<close>

text \<open>\<open>read\<close> stores at most as many bytes as it is asked for, in a buffer of that size.\<close>

definition read_ok :: "('f, 'o) net_env \<Rightarrow> bool" where
  "read_ok env \<longleftrightarrow> (\<forall>fd b k os n bs os'. ne_read env fd b k os = ((n, bs), os') \<longrightarrow>
     -1 \<le> n \<and> n \<le> int k \<and> length bs = k)"

locale net_server = net_client env other call_destroy destroy_fn darg dtor winv
  for env :: "('f, 'o) net_env" and other and call_destroy :: "('f, 'o, 'w) destroy_call" and destroy_fn darg dtor winv +
  fixes call_recv :: "('f, 'o, 'w) recv_call" and recv_fn :: 'f and rarg :: ptr and framesize :: nat
  assumes recv: "net_rep env other s cs xs \<Longrightarrow> winv (set cs) w \<Longrightarrow> a \<in> set cs \<Longrightarrow> s_conndestroy s = Some destroy_fn \<Longrightarrow>
      s_conndestroyarg s = darg \<Longrightarrow> length bs = framesize \<Longrightarrow>
      \<exists>s' w' cs' ys. call_recv recv_fn rarg bs framesize (Some a) (s, w) = Some (s', w') \<and> net_rep env other s' cs' ys \<and>
        quiet xs ys \<and> sconf s' = sconf s \<and> winv (set cs') w' \<and> set cs' \<subseteq> set cs"
begin

lemma ready_ok:
  assumes rep: "net_rep env other s cs xs" and a: "a \<in> set cs" and w: "winv (set cs) w" and rd: "read_ok env"
    and wired: "s_conndestroy s = Some destroy_fn" "s_conndestroyarg s = darg" "s_recvfn s = Some recv_fn" "s_arg s = rarg"
      "s_framesize s = framesize" "framesize < 2 ^ 63"
  shows "\<exists>s' w' cs' ys. connection_ready env call_recv call_destroy (Some a) (s, w) = Some (s', w') \<and>
    net_rep env other s' cs' ys \<and> quiet xs ys \<and> sconf s' = sconf s \<and> winv (set cs') w' \<and> set cs' \<subseteq> set cs"
proof -
  from rep a obtain c where c: "s_conns s a = Some c" by (rule net_rep_conn)
  obtain n bs os where r: "ne_read env (c_socket c) (c_buffer c \<noteq> None) framesize (s_os s) = ((n, bs), os)"
    by (metis prod.exhaust)
  with rd have n: "-1 \<le> n" "n \<le> int framesize" "length bs = framesize" unfolding read_ok_def by blast+
  show ?thesis
  proof (cases "n = int framesize")
    case False
    then have "connection_ready env call_recv call_destroy (Some a) (s, w) =
        server_connection_remove env call_destroy (Some a) (s\<lparr>s_os := os\<rparr>, w)"
      using c r n wired by (auto simp: connection_ready_def Let_def)
    with remove_ok [of "s\<lparr>s_os := os\<rparr>" cs xs a w] rep a w wired set_remove1_subset [of a cs] show ?thesis
      by simp blast
  next
    case True
    let ?c = "c\<lparr>c_waiting := True, c_buffer := Some bs\<rparr>"
    let ?s = "s\<lparr>s_os := os, s_conns := (s_conns s)(a \<mapsto> ?c)\<rparr>"
    have "unat (word_of_int (int framesize) :: size_t) = framesize"
      using wired(6) by (simp add: unat_of_nat)
    then have "connection_ready env call_recv call_destroy (Some a) (s, w) =
        call_recv recv_fn rarg bs framesize (Some a) (?s, w)"
      using c r True wired by (simp add: connection_ready_def Let_def)
    moreover have "net_rep env other (?s) cs xs"
      using net_rep_update [of env other "s\<lparr>s_os := os\<rparr>" cs xs a c ?c] rep c by simp
    ultimately show ?thesis using recv [of "?s" cs xs w a bs] w a wired n(3) by simp
  qed
qed

end

end
