(* ===== verification/Byte_Pack.thy ===== *)
theory Byte_Pack
  imports Prelude
begin

unbundle bit_operations_syntax

text \<open>
  The structure serialiser of \<open>lib/pack.c\<close>: \<open>pack\<close> writes a list of arguments into a
  byte buffer as a format string says, \<open>unpack\<close> reads them back. Buffers are byte lists; an
  access outside the buffer and a \<open>va_arg\<close> of another type than the argument passed are
  undefined (\<open>None\<close>). The format characters, the two byte orders and the case order are those of
  the source.
\<close>

section \<open>Format characters\<close>

definition PACK_BYTE :: char where "PACK_BYTE = CHR ''c''"
definition PACK_UBYTE :: char where "PACK_UBYTE = CHR ''C''"
definition PACK_SHORT :: char where "PACK_SHORT = CHR ''s''"
definition PACK_USHORT :: char where "PACK_USHORT = CHR ''S''"
definition PACK_INT :: char where "PACK_INT = CHR ''i''"
definition PACK_UINT :: char where "PACK_UINT = CHR ''I''"
definition PACK_LONG :: char where "PACK_LONG = CHR ''l''"
definition PACK_ULONG :: char where "PACK_ULONG = CHR ''L''"
definition PACK_FLOAT :: char where "PACK_FLOAT = CHR ''f''"
definition PACK_DOUBLE :: char where "PACK_DOUBLE = CHR ''d''"
definition PACK_SKIP :: char where "PACK_SKIP = CHR '' ''"
definition PACK_LITTLE :: char where "PACK_LITTLE = CHR ''<''"
definition PACK_BIG :: char where "PACK_BIG = CHR ''>''"
definition PACK_SYS :: char where "PACK_SYS = CHR ''=''"

lemmas pack_chars = PACK_BYTE_def PACK_UBYTE_def PACK_SHORT_def PACK_USHORT_def PACK_INT_def
  PACK_UINT_def PACK_LONG_def PACK_ULONG_def PACK_FLOAT_def PACK_DOUBLE_def PACK_SKIP_def
  PACK_LITTLE_def PACK_BIG_def PACK_SYS_def

fun pack_length :: "string \<Rightarrow> nat" where
  "pack_length [] = 0"
| "pack_length (c # fmt) =
     (if c = PACK_BYTE \<or> c = PACK_UBYTE \<or> c = PACK_SKIP then 1
      else if c = PACK_SHORT \<or> c = PACK_USHORT then 2
      else if c = PACK_INT \<or> c = PACK_UINT \<or> c = PACK_FLOAT then 4
      else if c = PACK_LONG \<or> c = PACK_ULONG \<or> c = PACK_DOUBLE then 8
      else 0) + pack_length fmt"

section \<open>Buffers and arguments\<close>

text \<open>
  The variable arguments: an \<open>unsigned int\<close> (which integer arguments of smaller types are
  promoted to), a \<open>uint64_t\<close>, and a \<open>double\<close> by its bit pattern.
\<close>

datatype va_arg = VaInt uint32 | VaLong uint64 | VaDouble uint64

text \<open>What \<open>unpack\<close> stores through its pointer arguments, by the type of the pointer.\<close>

datatype stored = St8 byte | St16 uint16 | St32 uint32 | St64 uint64

datatype errno = EINVAL | ENOMEM

definition put_bytes :: "byte list \<Rightarrow> nat \<Rightarrow> byte list \<Rightarrow> byte list option" where
  "put_bytes buf out bs =
     (if bs = [] then Some buf
      else if out + length bs \<le> length buf
      then Some (take out buf @ bs @ drop (out + length bs) buf) else None)"

definition get_bytes :: "byte list \<Rightarrow> nat \<Rightarrow> nat \<Rightarrow> byte list option" where
  "get_bytes buf pos n =
     (if n = 0 then Some [] else if pos + n \<le> length buf then Some (take n (drop pos buf)) else None)"

definition byte_of :: "'a::len word \<Rightarrow> nat \<Rightarrow> byte" where
  "byte_of value shift = ucast (drop_bit shift value AND 0xff)"

definition bytes16 :: "bool \<Rightarrow> uint32 \<Rightarrow> byte list" where
  "bytes16 little value =
     (if little then [byte_of value 0, byte_of value 8]
      else [byte_of value 8, byte_of value 0])"

definition bytes32 :: "bool \<Rightarrow> uint32 \<Rightarrow> byte list" where
  "bytes32 little value =
     (if little then [byte_of value 0, byte_of value 8, byte_of value 16, byte_of value 24]
      else [byte_of value 24, byte_of value 16, byte_of value 8, byte_of value 0])"

definition bytes64 :: "bool \<Rightarrow> uint64 \<Rightarrow> byte list" where
  "bytes64 little value =
     (if little
      then [byte_of value 0, byte_of value 8, byte_of value 16, byte_of value 24,
            byte_of value 32, byte_of value 40, byte_of value 48, byte_of value 56]
      else [byte_of value 56, byte_of value 48, byte_of value 40, byte_of value 32,
            byte_of value 24, byte_of value 16, byte_of value 8, byte_of value 0])"

definition word16 :: "bool \<Rightarrow> byte list \<Rightarrow> uint16" where
  "word16 little bs =
     (if little then ucast (bs ! 0) OR push_bit 8 (ucast (bs ! 1))
      else ucast (bs ! 1) OR push_bit 8 (ucast (bs ! 0)))"

definition word32 :: "bool \<Rightarrow> byte list \<Rightarrow> uint32" where
  "word32 little bs =
     (if little
      then ucast (bs ! 0) OR push_bit 8 (ucast (bs ! 1)) OR push_bit 16 (ucast (bs ! 2))
             OR push_bit 24 (ucast (bs ! 3))
      else ucast (bs ! 3) OR push_bit 8 (ucast (bs ! 2)) OR push_bit 16 (ucast (bs ! 1))
             OR push_bit 24 (ucast (bs ! 0)))"

definition word64 :: "bool \<Rightarrow> byte list \<Rightarrow> uint64" where
  "word64 little bs =
     (if little
      then ucast (bs ! 0) OR push_bit 8 (ucast (bs ! 1)) OR push_bit 16 (ucast (bs ! 2))
             OR push_bit 24 (ucast (bs ! 3)) OR push_bit 32 (ucast (bs ! 4))
             OR push_bit 40 (ucast (bs ! 5)) OR push_bit 48 (ucast (bs ! 6))
             OR push_bit 56 (ucast (bs ! 7))
      else ucast (bs ! 7) OR push_bit 8 (ucast (bs ! 6)) OR push_bit 16 (ucast (bs ! 5))
             OR push_bit 24 (ucast (bs ! 4)) OR push_bit 32 (ucast (bs ! 3))
             OR push_bit 40 (ucast (bs ! 2)) OR push_bit 48 (ucast (bs ! 1))
             OR push_bit 56 (ucast (bs ! 0)))"

lemma bit_byte_of: "bit (byte_of v k) n \<longleftrightarrow> n < 8 \<and> bit v (k + n)"
proof -
  have "byte_of v k = ucast (take_bit 8 (drop_bit k v))"
    by (simp add: byte_of_def take_bit_eq_mask mask_eq_exp_minus_1)
  then show ?thesis by (auto simp: bit_simps dest: bit_imp_le_length)
qed

lemma take_byte_0:
  "(ucast (byte_of (v :: 'a::len word) 0) :: 'b::len word) = take_bit 8 (ucast v)"
  by (rule bit_word_eqI) (auto simp: bit_simps bit_byte_of dest: bit_imp_le_length)

lemma take_byte_step:
  "take_bit k (ucast (v :: 'a::len word) :: 'b::len word) OR push_bit k (ucast (byte_of v k))
     = take_bit (k + 8) (ucast v)"
  by (rule bit_word_eqI) (auto simp: bit_simps bit_byte_of dest: bit_imp_le_length)

lemma take_byte_same:
  "ucast (byte_of v 0) = take_bit 8 v"
  "take_bit k v OR push_bit k (ucast (byte_of v k)) = take_bit (k + 8) v"
  using take_byte_0 [of v, where 'b = 'a] take_byte_step [of k v, where 'b = 'a]
  by simp_all

lemma word16_bytes16: "word16 little (bytes16 little v) = ucast v"
  using take_byte_step [of 8 v, where 'b = 16]
  by (simp add: word16_def bytes16_def take_byte_0 take_bit_word_eq_self)

lemma word32_bytes32: "word32 little (bytes32 little v) = v"
  by (simp add: word32_def bytes32_def take_byte_same take_bit_word_eq_self flip: or.assoc)

lemma word64_bytes64: "word64 little (bytes64 little v) = v"
  by (simp add: word64_def bytes64_def take_byte_same take_bit_word_eq_self flip: or.assoc)

lemma ucast_byte_of_0: "byte_of (v :: uint32) 0 = ucast v"
  by (rule bit_word_eqI) (auto simp: bit_simps bit_byte_of)

lemma length_bytes [simp]:
  "length (bytes16 little v) = 2" "length (bytes32 little v) = 4" "length (bytes64 little w) = 8"
  by (simp_all add: bytes16_def bytes32_def bytes64_def)

section \<open>pack and unpack\<close>

text \<open>
  One iteration of the loop of \<open>pack\<close>, the switch on the format character: how far the output
  position advances, the bytes stored there, the byte order and the arguments that follow.
  \<open>sys\<close> is \<open>SYSTEM_LITTLE\<close>, \<open>d2f\<close> the conversion of a \<open>double\<close> to the bits of
  a \<open>float\<close>.
\<close>

definition pack_field :: "bool \<Rightarrow> (uint64 \<Rightarrow> uint32) \<Rightarrow> char \<Rightarrow> bool \<Rightarrow> va_arg list \<Rightarrow>
    (nat \<times> byte list \<times> bool \<times> va_arg list) option" where
  "pack_field sys d2f c little args =
     (if c = PACK_SKIP then Some (1, [], little, args)
      else if c = PACK_BYTE \<or> c = PACK_UBYTE then
        (case args of VaInt value # args' \<Rightarrow> Some (1, [byte_of value 0], little, args') | _ \<Rightarrow> None)
      else if c = PACK_SHORT \<or> c = PACK_USHORT then
        (case args of VaInt value # args' \<Rightarrow> Some (2, bytes16 little value, little, args') | _ \<Rightarrow> None)
      else if c = PACK_INT \<or> c = PACK_UINT then
        (case args of VaInt value # args' \<Rightarrow> Some (4, bytes32 little value, little, args') | _ \<Rightarrow> None)
      else if c = PACK_FLOAT then
        (case args of VaDouble value # args' \<Rightarrow> Some (4, bytes32 little (d2f value), little, args')
         | _ \<Rightarrow> None)
      else if c = PACK_LONG \<or> c = PACK_ULONG \<or> c = PACK_DOUBLE then
        (case args of VaLong value # args' \<Rightarrow> Some (8, bytes64 little value, little, args') | _ \<Rightarrow> None)
      else if c = PACK_LITTLE then Some (0, [], True, args)
      else if c = PACK_BIG then Some (0, [], False, args)
      else if c = PACK_SYS then Some (0, [], sys, args)
      else Some (0, [], little, args))"

fun pack_loop :: "bool \<Rightarrow> (uint64 \<Rightarrow> uint32) \<Rightarrow> string \<Rightarrow> bool \<Rightarrow> nat \<Rightarrow> byte list \<Rightarrow> va_arg list
    \<Rightarrow> byte list option" where
  "pack_loop sys d2f [] little out buf args = Some buf"
| "pack_loop sys d2f (c # fmt) little out buf args =
     (case pack_field sys d2f c little args of
        None \<Rightarrow> None
      | Some (adv, bs, little', args') \<Rightarrow>
          (case put_bytes buf out bs of
             None \<Rightarrow> None
           | Some buf' \<Rightarrow> pack_loop sys d2f fmt little' (out + adv) buf' args'))"

text \<open>
  \<open>pack\<close>: \<open>data\<close> is the caller's buffer or NULL, \<open>sz\<close> the value behind the size
  pointer or NULL, \<open>blk\<close> the block \<open>malloc(length)\<close> returns, if any. The result is the
  buffer returned (or NULL), the new value behind the size pointer, and \<open>errno\<close> if it is set.
\<close>

definition pack :: "bool \<Rightarrow> (uint64 \<Rightarrow> uint32) \<Rightarrow> string \<Rightarrow> byte list option \<Rightarrow> nat option \<Rightarrow>
    byte list option \<Rightarrow> va_arg list \<Rightarrow> (byte list option \<times> nat option \<times> errno option) option" where
  "pack sys d2f format data sz blk args =
     (let length = pack_length format in
      if data \<noteq> None \<and> (sz = None \<or> length > the sz) then Some (None, sz, Some EINVAL)
      else (case (if data = None then blk else data) of
              None \<Rightarrow> Some (None, sz, Some ENOMEM)
            | Some ret \<Rightarrow>
                (case pack_loop sys d2f format sys 0 ret args of
                   None \<Rightarrow> None
                 | Some buf \<Rightarrow> Some (Some buf, map_option (\<lambda>_. length) sz, None))))"

text \<open>
  One iteration of the loop of \<open>unpack\<close>: how far the input position advances, how many bytes
  are read there, the values stored from them, and the byte order that follows.
\<close>

definition unpack_field :: "bool \<Rightarrow> char \<Rightarrow> bool \<Rightarrow> nat \<times> nat \<times> (byte list \<Rightarrow> stored list) \<times> bool" where
  "unpack_field sys c little =
     (if c = PACK_SKIP then (1, 0, \<lambda>bs. [], little)
      else if c = PACK_BYTE \<or> c = PACK_UBYTE then (1, 1, \<lambda>bs. [St8 (bs ! 0)], little)
      else if c = PACK_SHORT \<or> c = PACK_USHORT then (2, 2, \<lambda>bs. [St16 (word16 little bs)], little)
      else if c = PACK_INT \<or> c = PACK_UINT \<or> c = PACK_FLOAT then
        (4, 4, \<lambda>bs. [St32 (word32 little bs)], little)
      else if c = PACK_LONG \<or> c = PACK_ULONG \<or> c = PACK_DOUBLE then
        (8, 8, \<lambda>bs. [St64 (word64 little bs)], little)
      else if c = PACK_LITTLE then (0, 0, \<lambda>bs. [], True)
      else if c = PACK_BIG then (0, 0, \<lambda>bs. [], False)
      else if c = PACK_SYS then (0, 0, \<lambda>bs. [], sys)
      else (0, 0, \<lambda>bs. [], little))"

fun unpack_loop :: "bool \<Rightarrow> string \<Rightarrow> bool \<Rightarrow> nat \<Rightarrow> byte list \<Rightarrow> stored list option" where
  "unpack_loop sys [] little pos buf = Some []"
| "unpack_loop sys (c # fmt) little pos buf =
     (case unpack_field sys c little of (adv, n, store, little') \<Rightarrow>
        (case get_bytes buf pos n of
           None \<Rightarrow> None
         | Some bs \<Rightarrow> map_option (\<lambda>vs. store bs @ vs) (unpack_loop sys fmt little' (pos + adv) buf)))"

text \<open>
  \<open>unpack\<close>: the return value, the values stored through the pointer arguments in order, and
  \<open>errno\<close> if it is set. A NULL \<open>data\<close> passes the size check, and every read through it is
  undefined.
\<close>

definition unpack :: "bool \<Rightarrow> string \<Rightarrow> byte list option \<Rightarrow> nat option \<Rightarrow>
    (int \<times> stored list \<times> errno option) option" where
  "unpack sys format data sz =
     (let length = pack_length format in
      if data \<noteq> None \<and> (sz = None \<or> length > the sz) then Some (-1, [], Some EINVAL)
      else map_option (\<lambda>vs. (0, vs, None))
             (unpack_loop sys format sys 0 (case data of None \<Rightarrow> [] | Some buf \<Rightarrow> buf)))"

section \<open>Lemmas\<close>

text \<open>The width of a field, which \<open>pack_length\<close> counts and both loops advance by.\<close>

definition field_width :: "char \<Rightarrow> nat" where
  "field_width c = pack_length [c]"

lemma pack_length_Cons: "pack_length (c # fmt) = field_width c + pack_length fmt"
  by (simp add: field_width_def)

declare pack_length.simps(2) [simp del]

text \<open>The values that \<open>unpack\<close> should store for the arguments given to \<open>pack\<close>.\<close>

fun arg_value :: "(uint64 \<Rightarrow> uint32) \<Rightarrow> nat \<Rightarrow> va_arg \<Rightarrow> stored" where
  "arg_value d2f w (VaInt v) =
     (if w = 1 then St8 (ucast v) else if w = 2 then St16 (ucast v) else St32 v)"
| "arg_value d2f w (VaDouble v) = St32 (d2f v)"
| "arg_value d2f w (VaLong v) = St64 v"

text \<open>A field that \<open>pack\<close> fills from an argument, and the argument's type.\<close>

definition takes_arg :: "char \<Rightarrow> bool" where
  "takes_arg c \<longleftrightarrow> field_width c \<noteq> 0 \<and> c \<noteq> PACK_SKIP"

fun arg_fits :: "char \<Rightarrow> va_arg \<Rightarrow> bool" where
  "arg_fits c (VaInt v) \<longleftrightarrow> c \<noteq> PACK_FLOAT \<and> field_width c \<in> {1, 2, 4}"
| "arg_fits c (VaDouble v) \<longleftrightarrow> c = PACK_FLOAT"
| "arg_fits c (VaLong v) \<longleftrightarrow> field_width c = 8"

text \<open>Every iteration of \<open>pack\<close> agrees with \<open>pack_length\<close> and with the same iteration of
  \<open>unpack\<close>.\<close>

lemma format_cases:
  assumes "c = CHR '' '' \<Longrightarrow> P" "c = CHR ''c'' \<Longrightarrow> P" "c = CHR ''C'' \<Longrightarrow> P" "c = CHR ''s'' \<Longrightarrow> P"
    "c = CHR ''S'' \<Longrightarrow> P" "c = CHR ''i'' \<Longrightarrow> P" "c = CHR ''I'' \<Longrightarrow> P" "c = CHR ''f'' \<Longrightarrow> P"
    "c = CHR ''l'' \<Longrightarrow> P" "c = CHR ''L'' \<Longrightarrow> P" "c = CHR ''d'' \<Longrightarrow> P" "c = CHR ''<'' \<Longrightarrow> P"
    "c = CHR ''>'' \<Longrightarrow> P" "c = CHR ''='' \<Longrightarrow> P" "c \<notin> set '' cCsSiIflLd<>='' \<Longrightarrow> P"
  shows P
  using assms by fastforce

lemmas field_defs = pack_field_def unpack_field_def takes_arg_def field_width_def pack_length.simps
  pack_chars
  word16_bytes16 word32_bytes32 word64_bytes64 ucast_byte_of_0

lemma pack_field_Some:
  assumes "pack_field sys d2f c little args = Some (adv, bs, little', args')"
  shows "adv = field_width c \<and> length bs = (if takes_arg c then adv else 0) \<and>
    (\<exists>store. unpack_field sys c little = (adv, length bs, store, little') \<and>
      store bs = (if takes_arg c then [arg_value d2f adv (hd args)] else [])) \<and>
    args = (if takes_arg c then [hd args] else []) @ args'"
  using assms
  by (cases c rule: format_cases) (auto simp: field_defs split: list.splits va_arg.splits)

lemma takes_arg_iff: "takes_arg c \<longleftrightarrow> c \<in> set ''cCsSiIflLd''"
  by (cases c rule: format_cases) (simp_all add: field_defs)

lemma pack_field_no_arg:
  "\<not> takes_arg c \<Longrightarrow> \<exists>little'. pack_field sys d2f c little args = Some (field_width c, [], little', args)"
  by (cases c rule: format_cases) (simp_all add: field_defs, blast+)

lemma pack_field_arg:
  assumes "takes_arg c" "arg_fits c a"
  shows "\<exists>bs. pack_field sys d2f c little (a # args) = Some (field_width c, bs, little, args)"
proof -
  from assms(1) have "c \<in> set ''cCsSiIflLd''" by (simp add: takes_arg_iff)
  with assms(2) show ?thesis
    by (cases c rule: format_cases; cases a) (simp_all add: field_defs)
qed

lemma unpack_field_shape:
  "\<exists>n store l'. unpack_field sys c little = (field_width c, n, store, l') \<and> n \<le> field_width c \<and>
     (\<forall>bs. length (store bs) = (if takes_arg c then 1 else 0))"
  by (cases c rule: format_cases) (simp_all add: field_defs, blast+)

text \<open>Writing a block, and what later reads see of it.\<close>

lemma put_bytes_Some:
  assumes "put_bytes buf out bs = Some buf'"
  shows "length buf' = length buf" "take out buf' = take out buf"
    "out + length bs \<le> k \<Longrightarrow> drop k buf' = drop k buf"
    "get_bytes buf' out (length bs) = Some bs"
  using assms by (auto simp: put_bytes_def get_bytes_def split: if_splits)

lemma put_bytes_fits:
  "out + length bs \<le> length buf \<Longrightarrow> \<exists>buf'. put_bytes buf out bs = Some buf'"
  by (simp add: put_bytes_def)

lemma get_bytes_prefix:
  "take k buf' = take k buf \<Longrightarrow> length buf' = length buf \<Longrightarrow> pos + n \<le> k \<Longrightarrow>
     get_bytes buf' pos n = get_bytes buf pos n"
proof -
  assume a: "take k buf' = take k buf" "length buf' = length buf" "pos + n \<le> k"
  have "take n (drop pos xs) = take n (drop pos (take k xs))" for xs :: "byte list"
    using a(3) by (simp add: drop_take min_def)
  with a show ?thesis by (metis get_bytes_def)
qed

text \<open>A run of the loop from position \<open>out\<close> keeps the bytes before it and the bytes after the
  packed fields.\<close>

lemma pack_loop_frame:
  "pack_loop sys d2f fmt little out buf args = Some buf' \<Longrightarrow>
     length buf' = length buf \<and> take out buf' = take out buf \<and>
     drop (out + pack_length fmt) buf' = drop (out + pack_length fmt) buf"
proof (induction fmt arbitrary: little out buf args)
  case Nil
  then show ?case by simp
next
  case (Cons c fmt)
  then obtain adv bs l' args' buf1 where
    f: "pack_field sys d2f c little args = Some (adv, bs, l', args')"
       "put_bytes buf out bs = Some buf1" "pack_loop sys d2f fmt l' (out + adv) buf1 args' = Some buf'"
    by (auto split: option.splits)
  have w: "adv = field_width c" "length bs \<le> adv" using pack_field_Some [OF f(1)] by auto
  from Cons.IH [OF f(3)] have ih: "length buf' = length buf1"
      "take (out + adv) buf' = take (out + adv) buf1"
      "drop (out + adv + pack_length fmt) buf' = drop (out + adv + pack_length fmt) buf1" by auto
  from ih(2) have "take out buf' = take out buf1" by (metis take_take min.absorb1 le_add1)
  moreover have "drop (out + adv + pack_length fmt) buf1 = drop (out + adv + pack_length fmt) buf"
    using w by (intro put_bytes_Some(3) [OF f(2)]) simp
  ultimately show ?case
    using ih put_bytes_Some(1,2) [OF f(2)] w(1) by (simp add: pack_length_Cons add.assoc)
qed

lemma pack_loop_total:
  "list_all2 arg_fits (filter takes_arg fmt) args \<Longrightarrow> out + pack_length fmt \<le> length buf \<Longrightarrow>
     \<exists>buf'. pack_loop sys d2f fmt little out buf args = Some buf'"
proof (induction fmt arbitrary: little out buf args)
  case Nil
  then show ?case by simp
next
  case (Cons c fmt)
  obtain bs l' args' where f: "pack_field sys d2f c little args = Some (field_width c, bs, l', args')"
      "list_all2 arg_fits (filter takes_arg fmt) args'"
  proof (cases "takes_arg c")
    case True
    with Cons.prems(1) obtain a args' where "args = a # args'" "arg_fits c a"
        "list_all2 arg_fits (filter takes_arg fmt) args'" by (auto simp: list_all2_Cons1)
    with pack_field_arg [OF True] that show ?thesis by blast
  next
    case False
    with pack_field_no_arg Cons.prems(1) that show ?thesis by fastforce
  qed
  have "length bs \<le> field_width c" using pack_field_Some [OF f(1)] by auto
  with Cons.prems(2) obtain buf1 where b: "put_bytes buf out bs = Some buf1"
    using put_bytes_fits [of out bs buf] by (auto simp: pack_length_Cons)
  have "out + field_width c + pack_length fmt \<le> length buf1"
    using Cons.prems(2) put_bytes_Some(1) [OF b] by (simp add: pack_length_Cons)
  from Cons.IH [OF f(2) this] f(1) b show ?case by simp
qed

fun arg_values :: "(uint64 \<Rightarrow> uint32) \<Rightarrow> string \<Rightarrow> va_arg list \<Rightarrow> stored list" where
  "arg_values d2f [] args = []"
| "arg_values d2f (c # fmt) args =
     (if takes_arg c then arg_value d2f (field_width c) (hd args) # arg_values d2f fmt (tl args)
      else arg_values d2f fmt args)"

lemma unpack_loop_pack_loop:
  "pack_loop sys d2f fmt little out buf args = Some buf' \<Longrightarrow>
     unpack_loop sys fmt little out buf' = Some (arg_values d2f fmt args)"
proof (induction fmt arbitrary: little out buf args)
  case Nil
  then show ?case by simp
next
  case (Cons c fmt)
  then obtain adv bs l' args' buf1 where
    f: "pack_field sys d2f c little args = Some (adv, bs, l', args')"
       "put_bytes buf out bs = Some buf1" "pack_loop sys d2f fmt l' (out + adv) buf1 args' = Some buf'"
    by (auto split: option.splits)
  from pack_field_Some [OF f(1)] obtain store where
    u: "unpack_field sys c little = (adv, length bs, store, l')" "adv = field_width c"
       "length bs \<le> adv"
       "store bs = (if takes_arg c then [arg_value d2f adv (hd args)] else [])"
       "args = (if takes_arg c then [hd args] else []) @ args'" by auto
  have "get_bytes buf' out (length bs) = Some bs"
    using get_bytes_prefix [of "out + adv" buf' buf1 out "length bs"] pack_loop_frame [OF f(3)]
      put_bytes_Some(4) [OF f(2)] u(3) by simp
  moreover have "args' = (if takes_arg c then tl args else args)"
    using u(5) by (cases args) (auto split: if_splits)
  ultimately show ?case
    using u(1,2,4) Cons.IH [OF f(3)] by simp
qed

lemma unpack_loop_total:
  "pos + pack_length fmt \<le> length buf \<Longrightarrow>
     \<exists>vs. unpack_loop sys fmt little pos buf = Some vs \<and> length vs = length (filter takes_arg fmt)"
proof (induction fmt arbitrary: little pos)
  case Nil
  then show ?case by simp
next
  case (Cons c fmt)
  obtain n store l' where u: "unpack_field sys c little = (field_width c, n, store, l')"
      "n \<le> field_width c" "\<And>bs. length (store bs) = (if takes_arg c then 1 else 0)"
    using unpack_field_shape by blast
  from Cons.prems have p: "pos + field_width c + pack_length fmt \<le> length buf"
    by (simp add: pack_length_Cons)
  obtain bs where "get_bytes buf pos n = Some bs"
    using p u(2) by (fastforce simp: get_bytes_def)
  with u Cons.IH [OF p, of l'] show ?case by auto
qed

section \<open>Properties\<close>

text \<open>
  Property C12: whatever \<open>pack\<close> wrote into a buffer, \<open>unpack\<close> with the same format reads back: for
  every format string, with any mixture of byte orders and skipped bytes, and arguments of the
  types the format asks for, both calls succeed within the bounds of the buffer and the values
  stored are the arguments, cut to the width of their field.
\<close>

theorem unpack_pack_roundtrip:
  assumes "list_all2 arg_fits (filter takes_arg fmt) args"
    and "pack_length fmt \<le> n" and "n \<le> length buf"
  shows "\<exists>buf'. pack sys d2f fmt (Some buf) (Some n) blk args
             = Some (Some buf', Some (pack_length fmt), None) \<and>
           length buf' = length buf \<and>
           unpack sys fmt (Some buf') (Some n) = Some (0, arg_values d2f fmt args, None)"
proof -
  obtain buf' where b: "pack_loop sys d2f fmt sys 0 buf args = Some buf'"
    using pack_loop_total [OF assms(1), of 0 buf sys d2f sys] assms(2,3) by auto
  moreover have "length buf' = length buf" using pack_loop_frame [OF b] by blast
  ultimately show ?thesis
    using unpack_loop_pack_loop [OF b] assms(2) by (simp add: pack_def unpack_def Let_def not_less)
qed

theorem unpack_pack_roundtrip_witness:
  "\<exists>buf'. pack True (\<lambda>d. 0) ''>S <I'' (Some (replicate 8 0)) (Some 8) None [VaInt 0x2345, VaInt 7]
       = Some (Some buf', Some 7, None) \<and> length buf' = 8 \<and>
     unpack True ''>S <I'' (Some buf') (Some 8) = Some (0, [St16 0x2345, St32 7], None)"
  using unpack_pack_roundtrip [of "''>S <I''" "[VaInt 0x2345, VaInt 7]" 8 "replicate 8 0" True "\<lambda>d. 0" None]
  by (simp add: takes_arg_iff field_width_def pack_length.simps pack_chars)

text \<open>
  Property C18: \<open>pack\<close> stays inside the packed region: the bytes of the caller's buffer after
  \<open>pack_length\<close> bytes are unchanged, and the size reported back is exactly that length.
\<close>

theorem pack_within_bounds:
  assumes "pack sys d2f fmt (Some buf) sz blk args = Some (Some buf', sz', err)"
  shows "length buf' = length buf \<and> drop (pack_length fmt) buf' = drop (pack_length fmt) buf \<and>
         sz' = Some (pack_length fmt) \<and> err = None \<and> pack_length fmt \<le> the sz"
  using assms pack_loop_frame [of sys d2f fmt sys 0 buf args]
  by (auto simp: pack_def Let_def split: if_splits option.splits)

theorem pack_within_bounds_witness:
  "pack True (\<lambda>d. 0) ''CC'' (Some [1, 2, 3]) (Some 3) None [VaInt 0x0a, VaInt 0x10b]
     = Some (Some [0x0a, 0x0b, 3], Some 2, None) \<and>
   drop (pack_length ''CC'') [0x0a, 0x0b, 3 :: byte] = [3]"
proof -
  have p: "pack True (\<lambda>d. 0) ''CC'' (Some [1, 2, 3]) (Some 3) None [VaInt 0x0a, VaInt 0x10b]
     = Some (Some [0x0a, 0x0b, 3], Some 2, None)"
    by (simp add: pack_def pack_field_def put_bytes_def pack_length.simps pack_chars byte_of_def)
  from pack_within_bounds [OF this] p show ?thesis by simp
qed

text \<open>
  Property C19: the error results. \<open>unpack\<close> on a buffer of at least the stated size either
  returns -1 with \<open>EINVAL\<close>, exactly when the format needs more than that size, or returns 0
  having stored one value per field; it never reads outside the buffer.
\<close>

theorem unpack_result:
  assumes "n \<le> length buf"
  shows "if pack_length fmt > n then unpack sys fmt (Some buf) (Some n) = Some (-1, [], Some EINVAL)
         else \<exists>vs. unpack sys fmt (Some buf) (Some n) = Some (0, vs, None) \<and>
                   length vs = length (filter takes_arg fmt)"
  using unpack_loop_total [of 0 fmt buf sys sys] assms by (auto simp: unpack_def)

theorem unpack_result_witness:
  "unpack True ''CS'' (Some [1, 2, 3]) (Some 2) = Some (-1, [], Some EINVAL)"
  using unpack_result [of 2 "[1, 2, 3]" "''CS''" True] by (simp add: pack_length.simps pack_chars)

end
