(* ===== verification/Dali_Frame.thy ===== *)
theory Dali_Frame
  imports Prelude
begin

text \<open>
  DALI frames (\<open>lib/frame.h\<close>, \<open>lib/frame.c\<close>). Frames live in a store of their own. The
  constructors write through the pointer \<open>malloc\<close> returns without checking it, so a failed
  allocation is undefined behaviour.
\<close>

record DaliFrame =
  f_ecommand :: byte
  f_address :: byte
  f_command :: byte

type_synonym frames = "addr \<rightharpoonup> DaliFrame"

definition daliframe_new :: "malloc \<Rightarrow> byte \<Rightarrow> byte \<Rightarrow> frames \<Rightarrow> (ptr \<times> frames) option" where
  "daliframe_new al address command h = (case al (dom h) of
     None \<Rightarrow> None
   | Some a \<Rightarrow> Some (Some a, h(a \<mapsto> \<lparr>f_ecommand = 0, f_address = address, f_command = command\<rparr>)))"

definition daliframe_enew :: "malloc \<Rightarrow> byte \<Rightarrow> byte \<Rightarrow> byte \<Rightarrow> frames \<Rightarrow> (ptr \<times> frames) option" where
  "daliframe_enew al ecommand address command h = (case al (dom h) of
     None \<Rightarrow> None
   | Some a \<Rightarrow> Some (Some a,
       h(a \<mapsto> \<lparr>f_ecommand = ecommand, f_address = address, f_command = command\<rparr>)))"

definition daliframe_clone :: "malloc \<Rightarrow> ptr \<Rightarrow> frames \<Rightarrow> (ptr \<times> frames) option" where
  "daliframe_clone al frame h = (case al (dom h) of
     None \<Rightarrow> None
   | Some a \<Rightarrow>
     (case deref (h(a \<mapsto> \<lparr>f_ecommand = 0, f_address = 0, f_command = 0\<rparr>)) frame of
        None \<Rightarrow> None
      | Some f \<Rightarrow> Some (Some a, h(a \<mapsto>
          \<lparr>f_ecommand = f_ecommand f, f_address = f_address f, f_command = f_command f\<rparr>))))"

definition daliframe_free :: "ptr \<Rightarrow> frames \<Rightarrow> frames option" where
  "daliframe_free frame h = (if frame \<noteq> None then release h frame else Some h)"

lemma daliframe_new_is_enew: "daliframe_new al = daliframe_enew al 0"
  by (rule ext)+ (simp add: daliframe_new_def daliframe_enew_def)

lemma daliframe_enew_fresh:
  assumes "total_allocator al" "finite (dom h)"
  shows "\<exists>a. daliframe_enew al e ad c h = Some (Some a,
            h(a \<mapsto> \<lparr>f_ecommand = e, f_address = ad, f_command = c\<rparr>)) \<and> h a = None"
proof -
  from assms obtain a where "al (dom h) = Some a" "a \<notin> dom h"
    by (meson total_allocator_def)
  then show ?thesis by (auto simp: daliframe_enew_def)
qed

lemma daliframe_enew_free:
  assumes "total_allocator al" "finite (dom h)"
  shows "\<exists>a. daliframe_enew al e ad c h = Some (Some a,
            h(a \<mapsto> \<lparr>f_ecommand = e, f_address = ad, f_command = c\<rparr>)) \<and>
          daliframe_free (Some a) (h(a \<mapsto> \<lparr>f_ecommand = e, f_address = ad, f_command = c\<rparr>)) = Some h"
proof -
  from daliframe_enew_fresh [OF assms] obtain a where
    a: "daliframe_enew al e ad c h = Some (Some a,
          h(a \<mapsto> \<lparr>f_ecommand = e, f_address = ad, f_command = c\<rparr>))" "h a = None" by blast
  then have "h(a := None) = h" by auto
  with a show ?thesis by (auto simp: daliframe_free_def)
qed

section \<open>Properties\<close>

text \<open>
  Also: cloning an allocated frame gives a new address with the same three bytes, leaves
  every other frame alone, and freeing the clone restores the store exactly.
\<close>

theorem daliframe_clone_free:
  assumes "total_allocator al" and "finite (dom h)" and "h a = Some f"
  shows "\<exists>b h'. daliframe_clone al (Some a) h = Some (Some b, h') \<and> b \<noteq> a \<and> b \<notin> dom h \<and>
           h' b = Some (DaliFrame.truncate f) \<and> (\<forall>x. x \<noteq> b \<longrightarrow> h' x = h x) \<and>
           daliframe_free (Some b) h' = Some h"
proof -
  from assms(1,2) obtain b where b: "al (dom h) = Some b" "b \<notin> dom h"
    by (meson total_allocator_def)
  then have "h b = None" "b \<noteq> a" using assms(3) by auto
  moreover from this have "h(b := None) = h" by auto
  ultimately show ?thesis
    using b assms(3)
    by (auto simp: daliframe_clone_def daliframe_free_def DaliFrame.defs)
qed

theorem daliframe_clone_free_witness:
  "\<exists>b h'. daliframe_clone bump_alloc (Some 4) [4 \<mapsto> \<lparr>f_ecommand = 1, f_address = 2, f_command = 3\<rparr>]
       = Some (Some b, h') \<and> h' b = Some \<lparr>f_ecommand = 1, f_address = 2, f_command = 3\<rparr> \<and>
     daliframe_free (Some b) h' = Some [4 \<mapsto> \<lparr>f_ecommand = 1, f_address = 2, f_command = 3\<rparr>]"
  using daliframe_clone_free [OF bump_total, of "[4 \<mapsto> \<lparr>f_ecommand = 1, f_address = 2, f_command = 3\<rparr>]" 4
      "\<lparr>f_ecommand = 1, f_address = 2, f_command = 3\<rparr>"]
  by (auto simp: DaliFrame.defs)

end
