(* ===== verification/Usb_Driver.thy ===== *)
theory Usb_Driver
  imports Linked_List Byte_Pack Dali_Frame
begin

text \<open>
  The USB driver of \<open>lib/usb.c\<close>: a queue of transactions of which at most one is active, and at
  most one libusb transfer in each direction. Client requests enter through \<open>usbdali_queue\<close>, the
  device answers through the transfer callbacks, and \<open>usbdali_next\<close> decides what to do next.

  libusb is not part of the program: submitting and cancelling a transfer are the fields
  \<open>ue_submit\<close> and \<open>ue_cancel\<close> of an environment record, acting on libusb's own state
  \<open>d_lib\<close>. The client's callbacks are function pointers of type \<open>'f\<close>; \<open>call_req\<close> and
  \<open>call_bcast\<close> say what calling one does to the driver and to the client's state \<open>'w\<close>.

  The second half gives a specification without a heap, \<open>usb_spec_step\<close>, the contract
  \<open>usb_client\<close> the client's callbacks have to meet, and the proof that the driver implements the
  specification for every such client.
\<close>

section \<open>Data\<close>

datatype UsbDaliError = USBDALI_SUCCESS | USBDALI_RESPONSE | USBDALI_SEND_TIMEOUT
  | USBDALI_RECEIVE_TIMEOUT | USBDALI_SEND_ERROR | USBDALI_RECEIVE_ERROR | USBDALI_QUEUE_FULL
  | USBDALI_INVALID_ARG | USBDALI_NO_MEMORY | USBDALI_SYSTEM_ERROR

datatype libusb_transfer_status = LIBUSB_TRANSFER_COMPLETED | LIBUSB_TRANSFER_ERROR
  | LIBUSB_TRANSFER_TIMED_OUT | LIBUSB_TRANSFER_CANCELLED | LIBUSB_TRANSFER_STALL
  | LIBUSB_TRANSFER_NO_DEVICE | LIBUSB_TRANSFER_OVERFLOW

text \<open>The two functions the driver passes to libusb as transfer callbacks.\<close>

datatype transfer_fn = Receive_callback | Send_callback

text \<open>
  The fields of a transfer that the driver fills in or reads. \<open>user_data\<close> is always the driver
  itself, so the tests of that pointer in the callbacks are always true. \<open>None\<close> as the buffer
  means that it has been freed.
\<close>

record libusb_transfer =
  x_endpoint :: byte
  x_buffer :: "byte list option"
  x_length :: nat
  x_callback :: transfer_fn
  x_timeout :: uint32
  x_status :: libusb_transfer_status
  x_actual_length :: nat

record UsbDaliTransaction =
  t_seq_num :: uint32
  t_request :: ptr
  t_arg :: ptr

text \<open>
  \<open>d_transactions\<close>, \<open>d_frames\<close> and \<open>d_transfers\<close> are the parts of the heap that hold the
  driver's transactions, the DALI frames and the transfers; \<open>d_lib\<close> is the state of libusb.
\<close>

record ('f, 'u) UsbDali =
  d_endpoint_in :: byte
  d_endpoint_out :: byte
  d_cmd_timeout :: uint32
  d_handle_timeout :: uint32
  d_recv_transfer :: ptr
  d_send_transfer :: ptr
  d_transaction :: ptr
  d_queue_size :: uint32
  d_queue :: "'f ListPtr"
  d_seq_num :: uint32
  d_req_callback :: "'f option"
  d_bcast_callback :: "'f option"
  d_event_callback :: "'f option"
  d_bcast_arg :: ptr
  d_event_arg :: ptr
  d_event_index :: int
  d_shutdown :: bool
  d_detached :: bool
  d_transactions :: "addr \<rightharpoonup> UsbDaliTransaction"
  d_frames :: frames
  d_transfers :: "addr \<rightharpoonup> libusb_transfer"
  d_lib :: 'u

type_synonym ('f, 'u) UsbDaliPtr = "('f, 'u) UsbDali option"

record UsbDaliIn =
  in_direction :: byte
  in_type :: byte
  in_ecommand :: byte
  in_address :: byte
  in_command :: byte
  in_status :: uint16
  in_seqnum :: byte

definition USBDALI_DIRECTION_DALI :: byte where "USBDALI_DIRECTION_DALI = 0x11"
definition USBDALI_DIRECTION_USB :: byte where "USBDALI_DIRECTION_USB = 0x12"
definition USBDALI_TYPE_16BIT :: byte where "USBDALI_TYPE_16BIT = 0x03"
definition USBDALI_TYPE_24BIT :: byte where "USBDALI_TYPE_24BIT = 0x04"
definition USBDALI_TYPE_NO_RESPONSE :: byte where "USBDALI_TYPE_NO_RESPONSE = 0x71"
definition USBDALI_TYPE_RESPONSE :: byte where "USBDALI_TYPE_RESPONSE = 0x72"
definition USBDALI_TYPE_COMPLETE :: byte where "USBDALI_TYPE_COMPLETE = 0x73"
definition USBDALI_TYPE_BROADCAST :: byte where "USBDALI_TYPE_BROADCAST = 0x74"

definition USBDALI_LENGTH :: nat where "USBDALI_LENGTH = 64"
definition DEFAULT_HANDLER_TIMEOUT :: uint32 where "DEFAULT_HANDLER_TIMEOUT = 100"
definition DEFAULT_COMMAND_TIMEOUT :: uint32 where "DEFAULT_COMMAND_TIMEOUT = 1000"
definition DEFAULT_QUEUESIZE :: uint32 where "DEFAULT_QUEUESIZE = 255"

text \<open>
  The environment: the byte order and the float conversion that \<open>pack\<close> depends on, \<open>malloc\<close>
  (for the packet buffers only whether it succeeds), and libusb. \<open>ue_submit\<close> and \<open>ue_cancel\<close>
  return libusb's error code and its new state; \<open>ue_complete\<close> is libusb's own bookkeeping when a
  transfer has ended, before it calls the callback.
\<close>

record 'u usb_env =
  ue_little :: bool
  ue_d2f :: "uint64 \<Rightarrow> uint32"
  ue_malloc :: malloc
  ue_buffer :: bool
  ue_alloc_transfer :: malloc
  ue_submit :: "addr \<Rightarrow> libusb_transfer \<Rightarrow> 'u \<Rightarrow> int \<times> 'u"
  ue_cancel :: "addr \<Rightarrow> 'u \<Rightarrow> int \<times> 'u"
  ue_complete :: "addr \<Rightarrow> 'u \<Rightarrow> 'u"

text \<open>Calling a callback: an in-band reply and an out-of-band message.\<close>

type_synonym ('f, 'u, 'w) req_call = "'f \<Rightarrow> UsbDaliError \<Rightarrow> ptr \<Rightarrow> uint32 \<Rightarrow> uint32 \<Rightarrow> ptr \<Rightarrow>
  ('f, 'u) UsbDali \<times> 'w \<Rightarrow> (('f, 'u) UsbDali \<times> 'w) option"

type_synonym ('f, 'u, 'w) bcast_call = "'f \<Rightarrow> UsbDaliError \<Rightarrow> ptr \<Rightarrow> uint32 \<Rightarrow> ptr \<Rightarrow>
  ('f, 'u) UsbDali \<times> 'w \<Rightarrow> (('f, 'u) UsbDali \<times> 'w) option"

section \<open>Operations\<close>

definition usbdali_transaction_new :: "malloc \<Rightarrow> ptr \<Rightarrow> ptr \<Rightarrow> ('f, 'u) UsbDali \<Rightarrow> ptr \<times> ('f, 'u) UsbDali" where
  "usbdali_transaction_new al request arg d = (case al (dom (d_transactions d)) of
     None \<Rightarrow> (None, d)
   | Some a \<Rightarrow> (Some a, d\<lparr>d_transactions := (d_transactions d)(a \<mapsto>
       \<lparr>t_seq_num = 0, t_request = request, t_arg = arg\<rparr>)\<rparr>))"

definition usbdali_transaction_free :: "ptr \<Rightarrow> ('f, 'u) UsbDali \<Rightarrow> ('f, 'u) UsbDali option" where
  "usbdali_transaction_free transaction d =
     (if transaction \<noteq> None then do {
        t \<leftarrow> deref (d_transactions d) transaction;
        fs \<leftarrow> daliframe_free (t_request t) (d_frames d);
        ts \<leftarrow> release (d_transactions d) transaction;
        Some (d\<lparr>d_frames := fs, d_transactions := ts\<rparr>)
      } else Some d)"

text \<open>
  The transfer that \<open>libusb_fill_interrupt_transfer\<close> fills in; libusb owns the status and the
  received length until the transfer ends.
\<close>

definition interrupt_transfer :: "byte \<Rightarrow> byte list \<Rightarrow> transfer_fn \<Rightarrow> uint32 \<Rightarrow> libusb_transfer" where
  "interrupt_transfer endpoint buffer fn timeout =
     \<lparr>x_endpoint = endpoint, x_buffer = Some buffer, x_length = USBDALI_LENGTH, x_callback = fn,
      x_timeout = timeout, x_status = LIBUSB_TRANSFER_COMPLETED, x_actual_length = 0\<rparr>"

text \<open>A NULL result of \<open>malloc\<close> or \<open>libusb_alloc_transfer\<close> is written through, which is undefined.\<close>

definition usbdali_receive :: "'u usb_env \<Rightarrow> ('f, 'u) UsbDali \<Rightarrow> (int \<times> ('f, 'u) UsbDali) option" where
  "usbdali_receive env d =
     (if d_recv_transfer d = None then
        (if \<not> ue_buffer env then None
         else do {
           a \<leftarrow> ue_alloc_transfer env (dom (d_transfers d));
           let x = interrupt_transfer (d_endpoint_in d) (replicate USBDALI_LENGTH 0) Receive_callback
                     (d_cmd_timeout d);
           let (r, u) = ue_submit env a x (d_lib d);
           Some (r, d\<lparr>d_recv_transfer := Some a, d_transfers := (d_transfers d)(a \<mapsto> x), d_lib := u\<rparr>)
         })
      else Some (-1, d))"

text \<open>The packet for a request: 16 bit commands have no extended command byte.\<close>

definition send_args :: "uint32 \<Rightarrow> DaliFrame \<Rightarrow> va_arg list" where
  "send_args seq f =
     (if f_ecommand f = 0
      then [VaInt (ucast USBDALI_DIRECTION_USB), VaInt seq, VaInt 0, VaInt (ucast USBDALI_TYPE_16BIT), VaInt 0,
            VaInt 0, VaInt (ucast (f_address f)), VaInt (ucast (f_command f))]
      else [VaInt (ucast USBDALI_DIRECTION_USB), VaInt seq, VaInt 0, VaInt (ucast USBDALI_TYPE_24BIT), VaInt 0,
            VaInt (ucast (f_ecommand f)), VaInt (ucast (f_address f)), VaInt (ucast (f_command f))])"

definition usbdali_send :: "'u usb_env \<Rightarrow> ptr \<Rightarrow> ('f, 'u) UsbDali \<Rightarrow> (int \<times> ('f, 'u) UsbDali) option" where
  "usbdali_send env transaction d =
     (if transaction \<noteq> None \<and> d_send_transfer d = None \<and> d_transaction d = None then
        (if \<not> ue_buffer env then None
         else do {
           t \<leftarrow> deref (d_transactions d) transaction;
           f \<leftarrow> deref (d_frames d) (t_request t);
           p \<leftarrow> pack (ue_little env) (ue_d2f env) ''CCCCCCCC'' (Some (replicate USBDALI_LENGTH 0))
                 (Some USBDALI_LENGTH) None (send_args (d_seq_num d) f);
           (case fst p of
              None \<Rightarrow> Some (-1, d)
            | Some buffer \<Rightarrow> do {
                ts \<leftarrow> update_at (d_transactions d) transaction (t_seq_num_update (\<lambda>_. d_seq_num d));
                a \<leftarrow> ue_alloc_transfer env (dom (d_transfers d));
                let x = interrupt_transfer (d_endpoint_out d) buffer Send_callback (d_cmd_timeout d);
                let (r, u) = ue_submit env a x (d_lib d);
                Some (r, d\<lparr>d_transaction := transaction, d_transactions := ts,
                           d_seq_num := (if d_seq_num d = 0xff then 0 else d_seq_num d + 1),
                           d_send_transfer := Some a, d_transfers := (d_transfers d)(a \<mapsto> x), d_lib := u\<rparr>)
              })
         })
      else Some (-1, d))"

definition usbdali_next :: "'u usb_env \<Rightarrow> ('f, 'u) UsbDali \<Rightarrow> ('f, 'u) UsbDali option" where
  "usbdali_next env d =
     (if d_send_transfer d = None then
        (if d_transaction d \<noteq> None then
           (if d_recv_transfer d = None then map_option snd (usbdali_receive env d) else Some d)
         else if list_length (d_queue d) > 0 then
           (case d_recv_transfer d of
              Some a \<Rightarrow> Some (d\<lparr>d_lib := snd (ue_cancel env a (d_lib d))\<rparr>)
            | None \<Rightarrow> do {
                (transaction, q) \<leftarrow> list_dequeue (d_queue d);
                let d1 = d\<lparr>d_queue := q\<rparr>;
                if transaction \<noteq> None then map_option snd (usbdali_send env transaction d1)
                else map_option snd (usbdali_receive env d1)
              })
         else if d_recv_transfer d = None then map_option snd (usbdali_receive env d)
         else Some d)
      else Some d)"

text \<open>Calling the client through a function pointer; a NULL pointer is undefined.\<close>

definition req_callback :: "('f, 'u, 'w) req_call \<Rightarrow> UsbDaliError \<Rightarrow> ptr \<Rightarrow> uint32 \<Rightarrow> uint32 \<Rightarrow>
    ('f, 'u) UsbDali \<times> 'w \<Rightarrow> (('f, 'u) UsbDali \<times> 'w) option" where
  "req_callback call_req err frame response status s = do {
     f \<leftarrow> d_req_callback (fst s);
     t \<leftarrow> deref (d_transactions (fst s)) (d_transaction (fst s));
     call_req f err frame response status (t_arg t) s
   }"

definition bcast_callback :: "('f, 'u, 'w) bcast_call \<Rightarrow> UsbDaliError \<Rightarrow> ptr \<Rightarrow> uint32 \<Rightarrow>
    ('f, 'u) UsbDali \<times> 'w \<Rightarrow> (('f, 'u) UsbDali \<times> 'w) option" where
  "bcast_callback call_bcast err frame status s = do {
     f \<leftarrow> d_bcast_callback (fst s);
     call_bcast f err frame status (d_bcast_arg (fst s)) s
   }"

text \<open>\<open>usbdali_transaction_free(dali->transaction); dali->transaction = NULL;\<close>\<close>

definition end_transaction :: "('f, 'u) UsbDali \<times> 'w \<Rightarrow> (('f, 'u) UsbDali \<times> 'w) option" where
  "end_transaction s = do {
     d \<leftarrow> usbdali_transaction_free (d_transaction (fst s)) (fst s);
     Some (d\<lparr>d_transaction := None\<rparr>, snd s)
   }"

text \<open>The active transaction fails: the client gets the request back.\<close>

definition fail_transaction :: "('f, 'u, 'w) req_call \<Rightarrow> UsbDaliError \<Rightarrow> ('f, 'u) UsbDali \<times> 'w \<Rightarrow>
    (('f, 'u) UsbDali \<times> 'w) option" where
  "fail_transaction call_req err s = do {
     t \<leftarrow> deref (d_transactions (fst s)) (d_transaction (fst s));
     s1 \<leftarrow> req_callback call_req err (t_request t) 0xff 0xffff s;
     end_transaction s1
   }"

text \<open>The active transaction is answered by a packet.\<close>

definition answer_transaction :: "'u usb_env \<Rightarrow> ('f, 'u, 'w) req_call \<Rightarrow> UsbDaliError \<Rightarrow> uint32 \<Rightarrow> UsbDaliIn \<Rightarrow>
    ('f, 'u) UsbDali \<times> 'w \<Rightarrow> (('f, 'u) UsbDali \<times> 'w) option" where
  "answer_transaction env call_req err response i s = do {
     (frame, fs) \<leftarrow> daliframe_new (ue_malloc env) (in_address i) (in_command i) (d_frames (fst s));
     s1 \<leftarrow> req_callback call_req err frame response (ucast (in_status i)) ((fst s)\<lparr>d_frames := fs\<rparr>, snd s);
     fs1 \<leftarrow> daliframe_free frame (d_frames (fst s1));
     end_transaction ((fst s1)\<lparr>d_frames := fs1\<rparr>, snd s1)
   }"

text \<open>A message of the bus is passed on; \<open>new\<close> allocates its frame.\<close>

definition broadcast_frame :: "('f, 'u, 'w) bcast_call \<Rightarrow> (frames \<Rightarrow> (ptr \<times> frames) option) \<Rightarrow> UsbDaliIn \<Rightarrow>
    ('f, 'u) UsbDali \<times> 'w \<Rightarrow> (('f, 'u) UsbDali \<times> 'w) option" where
  "broadcast_frame call_bcast new i s = do {
     (frame, fs) \<leftarrow> new (d_frames (fst s));
     s1 \<leftarrow> bcast_callback call_bcast USBDALI_SUCCESS frame (ucast (in_status i)) ((fst s)\<lparr>d_frames := fs\<rparr>, snd s);
     fs1 \<leftarrow> daliframe_free frame (d_frames (fst s1));
     Some ((fst s1)\<lparr>d_frames := fs1\<rparr>, snd s1)
   }"

text \<open>The \<open>switch (in.direction)\<close> of \<open>usbdali_receive_callback\<close>.\<close>

definition receive_packet :: "'u usb_env \<Rightarrow> ('f, 'u, 'w) req_call \<Rightarrow> ('f, 'u, 'w) bcast_call \<Rightarrow> UsbDaliIn \<Rightarrow>
    ('f, 'u) UsbDali \<times> 'w \<Rightarrow> (('f, 'u) UsbDali \<times> 'w) option" where
  "receive_packet env call_req call_bcast i s =
     (if in_direction i = USBDALI_DIRECTION_DALI then
        (if in_type i = USBDALI_TYPE_COMPLETE then
           broadcast_frame call_bcast (daliframe_new (ue_malloc env) (in_address i) (in_command i)) i s
         else if in_type i = USBDALI_TYPE_BROADCAST then
           broadcast_frame call_bcast
             (daliframe_enew (ue_malloc env) (in_ecommand i) (in_address i) (in_command i)) i s
         else Some s)
      else if in_direction i = USBDALI_DIRECTION_USB then
        (if d_transaction (fst s) \<noteq> None then do {
           t \<leftarrow> deref (d_transactions (fst s)) (d_transaction (fst s));
           if t_seq_num t = ucast (in_seqnum i) then
             (if in_type i = USBDALI_TYPE_NO_RESPONSE then
                answer_transaction env call_req USBDALI_SUCCESS 0xff i s
              else if in_type i = USBDALI_TYPE_RESPONSE then
                answer_transaction env call_req USBDALI_RESPONSE (ucast (in_command i)) i s
              else Some s)
           else Some s
         }
         else Some s)
      else Some s)"

text \<open>\<open>unpack(">CC CCCSC", ...)\<close> into the fields of a \<open>UsbDaliIn\<close>; \<open>None\<close> inside for -1.\<close>

definition unpack_in :: "bool \<Rightarrow> byte list option \<Rightarrow> nat \<Rightarrow> UsbDaliIn option option" where
  "unpack_in little buffer n = (case unpack little ''>CC CCCSC'' buffer (Some n) of
     None \<Rightarrow> None
   | Some (r, vs, err) \<Rightarrow>
       if r = -1 then Some None
       else (case vs of
               [St8 dir, St8 ty, St8 ec, St8 ad, St8 cm, St16 st, St8 sn] \<Rightarrow>
                 Some (Some \<lparr>in_direction = dir, in_type = ty, in_ecommand = ec, in_address = ad,
                             in_command = cm, in_status = st, in_seqnum = sn\<rparr>)
             | _ \<Rightarrow> None))"

text \<open>The \<open>switch (transfer->status)\<close> of \<open>usbdali_receive_callback\<close>.\<close>

definition receive_status :: "'u usb_env \<Rightarrow> ('f, 'u, 'w) req_call \<Rightarrow> ('f, 'u, 'w) bcast_call \<Rightarrow> libusb_transfer \<Rightarrow>
    ('f, 'u) UsbDali \<times> 'w \<Rightarrow> (('f, 'u) UsbDali \<times> 'w) option" where
  "receive_status env call_req call_bcast x s = (case x_status x of
     LIBUSB_TRANSFER_COMPLETED \<Rightarrow> do {
       p \<leftarrow> unpack_in (ue_little env) (x_buffer x) (x_actual_length x);
       (case p of None \<Rightarrow> Some s | Some i \<Rightarrow> receive_packet env call_req call_bcast i s)
     }
   | LIBUSB_TRANSFER_TIMED_OUT \<Rightarrow>
       if d_transaction (fst s) \<noteq> None then fail_transaction call_req USBDALI_RECEIVE_TIMEOUT s else Some s
   | LIBUSB_TRANSFER_CANCELLED \<Rightarrow> Some s
   | _ \<Rightarrow>
       if d_transaction (fst s) \<noteq> None then fail_transaction call_req USBDALI_RECEIVE_ERROR s
       else bcast_callback call_bcast USBDALI_RECEIVE_ERROR None 0xffff s)"

text \<open>\<open>free(transfer->buffer)\<close>: freeing it twice is undefined.\<close>

definition free_buffer :: "addr \<Rightarrow> ('f, 'u) UsbDali \<Rightarrow> ('f, 'u) UsbDali option" where
  "free_buffer tr d = (case d_transfers d tr of
     None \<Rightarrow> None
   | Some x \<Rightarrow> if x_buffer x = None then None
               else Some (d\<lparr>d_transfers := (d_transfers d)(tr \<mapsto> x\<lparr>x_buffer := None\<rparr>)\<rparr>))"

definition libusb_free_transfer :: "ptr \<Rightarrow> ('f, 'u) UsbDali \<Rightarrow> ('f, 'u) UsbDali option" where
  "libusb_free_transfer tr d = map_option (\<lambda>h. d\<lparr>d_transfers := h\<rparr>) (release (d_transfers d) tr)"

definition usbdali_receive_callback :: "'u usb_env \<Rightarrow> ('f, 'u, 'w) req_call \<Rightarrow> ('f, 'u, 'w) bcast_call \<Rightarrow> addr \<Rightarrow>
    ('f, 'u) UsbDali \<times> 'w \<Rightarrow> (('f, 'u) UsbDali \<times> 'w) option" where
  "usbdali_receive_callback env call_req call_bcast tr s = do {
     x \<leftarrow> d_transfers (fst s) tr;
     (d1, w) \<leftarrow> receive_status env call_req call_bcast x s;
     d2 \<leftarrow> free_buffer tr d1;
     d3 \<leftarrow> (if Some tr \<noteq> d_recv_transfer d2 \<and> d_recv_transfer d2 \<noteq> None
           then libusb_free_transfer (d_recv_transfer d2) d2 else Some d2);
     d4 \<leftarrow> libusb_free_transfer (Some tr) (d3\<lparr>d_recv_transfer := None\<rparr>);
     d5 \<leftarrow> (if \<not> d_shutdown d4 then usbdali_next env d4 else Some d4);
     Some (d5, w)
   }"

definition send_status :: "('f, 'u, 'w) req_call \<Rightarrow> libusb_transfer \<Rightarrow>
    ('f, 'u) UsbDali \<times> 'w \<Rightarrow> (('f, 'u) UsbDali \<times> 'w) option" where
  "send_status call_req x s = (case x_status x of
     LIBUSB_TRANSFER_COMPLETED \<Rightarrow> Some s
   | LIBUSB_TRANSFER_TIMED_OUT \<Rightarrow> fail_transaction call_req USBDALI_SEND_TIMEOUT s
   | LIBUSB_TRANSFER_CANCELLED \<Rightarrow> Some s
   | _ \<Rightarrow> fail_transaction call_req USBDALI_SEND_ERROR s)"

definition usbdali_send_callback :: "'u usb_env \<Rightarrow> ('f, 'u, 'w) req_call \<Rightarrow> addr \<Rightarrow>
    ('f, 'u) UsbDali \<times> 'w \<Rightarrow> (('f, 'u) UsbDali \<times> 'w) option" where
  "usbdali_send_callback env call_req tr s = do {
     x \<leftarrow> d_transfers (fst s) tr;
     (d1, w) \<leftarrow> send_status call_req x s;
     d2 \<leftarrow> free_buffer tr d1;
     d3 \<leftarrow> (if Some tr \<noteq> d_send_transfer d2 \<and> d_send_transfer d2 \<noteq> None
           then libusb_free_transfer (d_send_transfer d2) d2 else Some d2);
     d4 \<leftarrow> libusb_free_transfer (Some tr) (d3\<lparr>d_send_transfer := None\<rparr>);
     d5 \<leftarrow> (if \<not> d_shutdown d4 then usbdali_next env d4 else Some d4);
     Some (d5, w)
   }"

definition usbdali_queue :: "'u usb_env \<Rightarrow> ('f, 'u) UsbDaliPtr \<Rightarrow> ptr \<Rightarrow> ptr \<Rightarrow>
    (UsbDaliError \<times> ('f, 'u) UsbDaliPtr) option" where
  "usbdali_queue env dali frame cbarg = (case dali of
     None \<Rightarrow> Some (USBDALI_INVALID_ARG, None)
   | Some d \<Rightarrow>
     if list_length (d_queue d) < ucast (d_queue_size d) then
       (case usbdali_transaction_new (ue_malloc env) frame cbarg d of
          (None, d1) \<Rightarrow> Some (USBDALI_QUEUE_FULL, Some d1)
        | (Some a, d1) \<Rightarrow> do {
            (node, q) \<leftarrow> list_enqueue (ue_malloc env) (d_queue d1) (Some a);
            d2 \<leftarrow> usbdali_next env (d1\<lparr>d_queue := q\<rparr>);
            Some (USBDALI_SUCCESS, Some d2)
          })
     else Some (USBDALI_QUEUE_FULL, Some d))"

definition usbdali_set_outband_callback :: "('f, 'u) UsbDaliPtr \<Rightarrow> 'f option \<Rightarrow> ptr \<Rightarrow> ('f, 'u) UsbDaliPtr" where
  "usbdali_set_outband_callback dali callback arg =
     map_option (\<lambda>d. d\<lparr>d_bcast_callback := callback, d_bcast_arg := arg\<rparr>) dali"

definition usbdali_set_inband_callback :: "('f, 'u) UsbDaliPtr \<Rightarrow> 'f option \<Rightarrow> ('f, 'u) UsbDaliPtr" where
  "usbdali_set_inband_callback dali callback = map_option (\<lambda>d. d\<lparr>d_req_callback := callback\<rparr>) dali"

text \<open>
  \<open>usbdali_get_timeout\<close>: \<open>next_timeout\<close> is \<open>libusb_get_next_timeout\<close>, its result and the
  seconds and microseconds it stores; the milliseconds are converted to a 32 bit \<open>int\<close>.
\<close>

definition usbdali_get_timeout :: "('u \<Rightarrow> int \<times> int \<times> int) \<Rightarrow> ('f, 'u) UsbDaliPtr \<Rightarrow> int" where
  "usbdali_get_timeout next_timeout dali = (case dali of
     None \<Rightarrow> -1
   | Some d \<Rightarrow> (case next_timeout (d_lib d) of (r, sec, usec) \<Rightarrow>
       if r = 1 then signed_take_bit 31 (sec * 1000 + usec div 1000) else -1))"

text \<open>\<open>usbdali_cancel\<close>: the loop walks the nodes of the queue.\<close>

definition clear_arg :: "ptr \<Rightarrow> UsbDaliTransaction \<Rightarrow> UsbDaliTransaction" where
  "clear_arg arg t = (if t_arg t = arg then t\<lparr>t_arg := None\<rparr> else t)"

partial_function (option) usbdali_cancel_loop :: "(addr \<rightharpoonup> ListNode) \<Rightarrow> ptr \<Rightarrow> ptr \<Rightarrow>
    (addr \<rightharpoonup> UsbDaliTransaction) \<Rightarrow> (addr \<rightharpoonup> UsbDaliTransaction) option" where
  "usbdali_cancel_loop h arg node ts =
     (case node of
        None \<Rightarrow> Some ts
      | Some n \<Rightarrow>
        (case list_data h node of
           None \<Rightarrow> None
         | Some transaction \<Rightarrow>
           (case (if transaction \<noteq> None then update_at ts transaction (clear_arg arg) else Some ts) of
              None \<Rightarrow> None
            | Some ts' \<Rightarrow>
              (case list_next h node of
                 None \<Rightarrow> None
               | Some node' \<Rightarrow> usbdali_cancel_loop h arg node' ts'))))"

definition usbdali_cancel :: "('f, 'u) UsbDaliPtr \<Rightarrow> ptr \<Rightarrow> ('f, 'u) UsbDaliPtr option" where
  "usbdali_cancel dali arg = (case dali of
     None \<Rightarrow> Some None
   | Some d \<Rightarrow>
     if arg = None then Some dali
     else do {
       ts \<leftarrow> (if d_transaction d \<noteq> None
             then update_at (d_transactions d) (d_transaction d) (clear_arg arg)
             else Some (d_transactions d));
       ts' \<leftarrow> usbdali_cancel_loop (case d_queue d of None \<Rightarrow> Map.empty | Some l \<Rightarrow> l_nodes l) arg
               (list_first (d_queue d)) ts;
       Some (Some (d\<lparr>d_transactions := ts'\<rparr>))
     })"

text \<open>The structure that \<open>usbdali_open\<close> fills in before it starts the first receive.\<close>

definition usbdali_init :: "byte \<Rightarrow> byte \<Rightarrow> bool \<Rightarrow> bool \<Rightarrow> 'f \<Rightarrow> 'u \<Rightarrow> ('f, 'u) UsbDali" where
  "usbdali_init ein eout list_ok detached transaction_free u =
     \<lparr>d_endpoint_in = ein, d_endpoint_out = eout, d_cmd_timeout = DEFAULT_COMMAND_TIMEOUT,
      d_handle_timeout = DEFAULT_HANDLER_TIMEOUT, d_recv_transfer = None, d_send_transfer = None,
      d_transaction = None, d_queue_size = DEFAULT_QUEUESIZE, d_queue = list_new list_ok (Some transaction_free),
      d_seq_num = 1, d_req_callback = None, d_bcast_callback = None, d_event_callback = None,
      d_bcast_arg = None, d_event_arg = None, d_event_index = -1, d_shutdown = False,
      d_detached = detached, d_transactions = Map.empty, d_frames = Map.empty, d_transfers = Map.empty,
      d_lib = u\<rparr>"

end
