(* ===== verification/Usb_Refinement.thy ===== *)
theory Usb_Refinement
  imports Usb_Driver
begin

text \<open>
  Correctness of the USB driver. \<open>usb_rep\<close> describes the well-formed driver states and
  \<open>usb_abs\<close> relates them to a specification without pointers, a first-in first-out server of
  requests with three phases. The locale \<open>usb_client\<close> is the contract of the client's callbacks;
  inside it every event of the driver is shown to implement the step of the specification.
\<close>

section \<open>Packets\<close>

definition send_bytes :: "uint32 \<Rightarrow> DaliFrame \<Rightarrow> byte list" where
  "send_bytes seq f =
     [0x12, ucast seq, 0, if f_ecommand f = 0 then 0x03 else 0x04, 0, f_ecommand f, f_address f, f_command f]"

definition parse_in :: "byte list \<Rightarrow> UsbDaliIn" where
  "parse_in b = \<lparr>in_direction = b ! 0, in_type = b ! 1, in_ecommand = b ! 3, in_address = b ! 4,
     in_command = b ! 5, in_status = word16 False [b ! 6, b ! 7], in_seqnum = b ! 8\<rparr>"

lemma empty_packet: "replicate USBDALI_LENGTH (0 :: byte) = [0, 0, 0, 0, 0, 0, 0, 0] @ replicate 56 0"
  by (simp add: USBDALI_LENGTH_def numeral_eq_Suc)

lemma pack_loop_C: "put_bytes buf out [ucast v] = Some buf' \<Longrightarrow>
    pack_loop le d2f (CHR ''C'' # fmt) l out buf (VaInt v # args) = pack_loop le d2f fmt l (Suc out) buf' args"
  by (simp add: pack_field_def pack_chars ucast_byte_of_0)

lemma ucast_byte [simp]: "ucast (ucast (b :: byte) :: uint32) = b"
  by (rule bit_word_eqI) (simp add: bit_simps)

lemma pack_send:
  "pack le d2f ''CCCCCCCC'' (Some (replicate USBDALI_LENGTH 0)) (Some USBDALI_LENGTH) None (send_args seq f)
     = Some (Some (send_bytes seq f @ replicate 56 0), Some 8, None)"
  unfolding empty_packet
  by (simp add: pack_def pack_length.simps pack_chars USBDALI_LENGTH_def send_args_def pack_loop_C
      put_bytes_def send_bytes_def USBDALI_DIRECTION_USB_def USBDALI_TYPE_16BIT_def
      USBDALI_TYPE_24BIT_def del: pack_loop.simps(2))

lemma take_2_drop: "Suc n < length b \<Longrightarrow> take 2 (drop n b) = [b ! n, b ! Suc n]"
  by (simp add: numeral_2_eq_2 take_Suc_conv_app_nth)

lemma unpack_in_eq:
  assumes "length b = USBDALI_LENGTH" "n \<le> USBDALI_LENGTH"
  shows "unpack_in le (Some b) n = Some (if n < 9 then None else Some (parse_in b))"
proof -
  have "Suc (Suc (Suc (Suc (Suc (Suc 0))))) = 6" by simp
  then have "take 2 (drop (Suc (Suc (Suc (Suc (Suc (Suc 0)))))) b) = [b ! 6, b ! 7]"
    using assms(1) take_2_drop [of 6 b] by (simp only: USBDALI_LENGTH_def) simp
  then show ?thesis
    using assms
    by (simp add: unpack_in_def unpack_def pack_length.simps pack_chars unpack_field_def get_bytes_def
      USBDALI_LENGTH_def parse_in_def eval_nat_numeral(2,3))
qed

section \<open>Transactions and their frames\<close>

text \<open>
  \<open>trans_rep ts fs as E\<close>: the transactions allocated are exactly \<open>as\<close>, each owns a frame of
  its own, and the frames allocated are those and the ones in \<open>E\<close>.
\<close>

definition trans_rep :: "(addr \<rightharpoonup> UsbDaliTransaction) \<Rightarrow> frames \<Rightarrow> addr list \<Rightarrow> addr set \<Rightarrow> bool" where
  "trans_rep ts fs as E \<longleftrightarrow> distinct as \<and> dom ts = set as \<and> finite E \<and>
     (\<exists>rs. map (\<lambda>a. t_request (the (ts a))) as = map Some rs \<and> distinct rs \<and>
           dom fs = set rs \<union> E \<and> set rs \<inter> E = {})"

definition item :: "(addr \<rightharpoonup> UsbDaliTransaction) \<Rightarrow> frames \<Rightarrow> addr \<Rightarrow> DaliFrame \<times> ptr" where
  "item ts fs a = (let t = the (ts a) in (the (fs (the (t_request t))), t_arg t))"

lemma trans_rep_finite: "trans_rep ts fs as E \<Longrightarrow> finite (dom ts) \<and> finite (dom fs)"
  by (auto simp: trans_rep_def)

lemma trans_rep_empty: "trans_rep Map.empty Map.empty [] {}"
  by (simp add: trans_rep_def)

lemma trans_rep_lookup:
  assumes "trans_rep ts fs as E" "a \<in> set as"
  obtains t r f where "ts a = Some t" "t_request t = Some r" "fs r = Some f" "r \<notin> E" "item ts fs a = (f, t_arg t)"
proof -
  from assms obtain rs where rs: "map (\<lambda>a. t_request (the (ts a))) as = map Some rs"
      "dom fs = set rs \<union> E" "set rs \<inter> E = {}" and "a \<in> dom ts"
    by (auto simp: trans_rep_def)
  then obtain t where t: "ts a = Some t" by blast
  have "t_request (the (ts a)) \<in> Some ` set rs"
    using assms(2) arg_cong [OF rs(1), of set] by auto
  with t obtain r where r: "t_request t = Some r" "r \<in> set rs" by auto
  with rs(2) obtain f where f: "fs r = Some f" by blast
  with t r rs(3) that [of t r f] show ?thesis by (auto simp: item_def)
qed

lemma requests_upd:
  "a \<notin> set as \<Longrightarrow> map (\<lambda>b. t_request (the ((ts(a := v)) b))) as = map (\<lambda>b. t_request (the (ts b))) as"
  by (rule map_cong) auto

lemma trans_rep_same:
  assumes "trans_rep ts fs as E" "dom ts' = dom ts"
    "\<And>a t. ts a = Some t \<Longrightarrow> t_request (the (ts' a)) = t_request t"
  shows "trans_rep ts' fs as E"
proof -
  have "map (\<lambda>a. t_request (the (ts' a))) as = map (\<lambda>a. t_request (the (ts a))) as"
  proof (rule map_cong [OF refl])
    fix a assume "a \<in> set as"
    with assms(1) obtain t where "ts a = Some t" by (elim trans_rep_lookup)
    with assms(3) show "t_request (the (ts' a)) = t_request (the (ts a))" by simp
  qed
  with assms(1,2) show ?thesis by (simp add: trans_rep_def del: map_eq_conv)
qed

lemma trans_rep_new:
  assumes "trans_rep ts fs as (insert r E)" "r \<notin> E" "ts a = None" "t_request t = Some r"
  shows "trans_rep (ts(a \<mapsto> t)) fs (as @ [a]) E"
proof -
  from assms(1) obtain rs where rs: "map (\<lambda>a. t_request (the (ts a))) as = map Some rs" "distinct rs"
      "dom fs = set rs \<union> insert r E" "set rs \<inter> insert r E = {}" and d: "distinct as" "dom ts = set as" "finite E"
    by (auto simp: trans_rep_def)
  have a: "a \<notin> set as" using assms(3) d(2) by (metis domIff)
  then have "map (\<lambda>b. t_request (the ((ts(a \<mapsto> t)) b))) (as @ [a]) = map Some (rs @ [r])"
    using rs(1) assms(4) by (simp add: requests_upd [OF a] del: fun_upd_apply add: fun_upd_same)
  with rs d a assms(2) show ?thesis
    unfolding trans_rep_def by (intro conjI exI [of _ "rs @ [r]"]) auto
qed

lemma trans_rep_free:
  assumes "trans_rep ts fs (a # as) E" "ts a = Some t" "t_request t = Some r"
  shows "trans_rep (ts(a := None)) (fs(r := None)) as E"
    "\<And>b. b \<in> set as \<Longrightarrow> item (ts(a := None)) (fs(r := None)) b = item ts fs b"
proof -
  from assms obtain rs where rs: "map (\<lambda>a. t_request (the (ts a))) as = map Some rs" "distinct (r # rs)"
      "dom fs = set (r # rs) \<union> E" "set (r # rs) \<inter> E = {}" and d: "distinct (a # as)" "dom ts = set (a # as)" "finite E"
    by (auto simp: trans_rep_def Cons_eq_map_conv)
  have m: "map (\<lambda>b. t_request (the ((ts(a := None)) b))) as = map Some rs"
    using d(1) rs(1) by (simp add: requests_upd del: fun_upd_apply)
  with rs d show "trans_rep (ts(a := None)) (fs(r := None)) as E"
    unfolding trans_rep_def by (intro conjI exI [of _ rs]) auto
  fix b assume b: "b \<in> set as"
  then have "t_request (the (ts b)) \<in> Some ` set rs" using arg_cong [OF rs(1), of set] by auto
  with b d(1) rs(2) show "item (ts(a := None)) (fs(r := None)) b = item ts fs b"
    by (auto simp: item_def Let_def)
qed

lemma trans_rep_frame:
  assumes "trans_rep ts fs as E" "fs r = None"
  shows "trans_rep ts (fs(r \<mapsto> f)) as (insert r E)"
    "\<And>a. a \<in> set as \<Longrightarrow> item ts (fs(r \<mapsto> f)) a = item ts fs a"
proof -
  from assms(1) obtain rs where rs: "map (\<lambda>a. t_request (the (ts a))) as = map Some rs" "distinct rs"
      "dom fs = set rs \<union> E" "set rs \<inter> E = {}" and d: "distinct as" "dom ts = set as" "finite E"
    by (auto simp: trans_rep_def)
  moreover have "r \<notin> set rs" using assms(2) rs(3) by (metis UnI1 domIff)
  ultimately show "trans_rep ts (fs(r \<mapsto> f)) as (insert r E)"
    unfolding trans_rep_def by (intro conjI exI [of _ rs]) simp_all
  fix a assume "a \<in> set as"
  with assms show "item ts (fs(r \<mapsto> f)) a = item ts fs a"
    by (elim trans_rep_lookup) (auto simp: item_def)
qed

lemma trans_rep_unframe:
  assumes "trans_rep ts fs as (insert r E)" "r \<notin> E"
  shows "trans_rep ts (fs(r := None)) as E"
    "\<And>a. a \<in> set as \<Longrightarrow> item ts (fs(r := None)) a = item ts fs a"
proof -
  from assms(1) obtain rs where "map (\<lambda>a. t_request (the (ts a))) as = map Some rs" "distinct rs"
      "dom fs = set rs \<union> insert r E" "set rs \<inter> insert r E = {}" "distinct as" "dom ts = set as" "finite E"
    by (auto simp: trans_rep_def)
  with assms(2) show "trans_rep ts (fs(r := None)) as E"
    unfolding trans_rep_def by (intro conjI exI [of _ rs]) auto
  fix a assume "a \<in> set as"
  with assms show "item ts (fs(r := None)) a = item ts fs a"
    by (elim trans_rep_lookup) (auto simp: item_def)
qed

section \<open>Well-formed driver states\<close>

definition active :: "('f, 'u) UsbDali \<Rightarrow> addr list" where
  "active d = (case d_transaction d of None \<Rightarrow> [] | Some a \<Rightarrow> [a])"

definition xfer_rep :: "('f, 'u) UsbDali \<Rightarrow> bool" where
  "xfer_rep d \<longleftrightarrow>
     dom (d_transfers d) = set_option (d_recv_transfer d) \<union> set_option (d_send_transfer d) \<and>
     (d_send_transfer d \<noteq> None \<longrightarrow> d_recv_transfer d = None) \<and>
     (\<forall>a x. d_transfers d a = Some x \<longrightarrow> (\<exists>b. x_buffer x = Some b \<and> length b = USBDALI_LENGTH) \<and>
        x_callback x = (if d_send_transfer d = Some a then Send_callback else Receive_callback))"

definition usb_rep :: "('f, 'u) UsbDali \<Rightarrow> addr list \<Rightarrow> addr set \<Rightarrow> bool" where
  "usb_rep d qs E \<longleftrightarrow> list_holds (d_queue d) (map Some qs) \<and> length qs \<le> unat (d_queue_size d) \<and>
     trans_rep (d_transactions d) (d_frames d) (active d @ qs) E \<and> xfer_rep d"

section \<open>The specification\<close>

text \<open>
  A server with one request in service at most: \<open>Idle\<close> while it listens to the bus,
  \<open>Sending\<close> while the first pending request goes out and \<open>Awaiting\<close> until it is answered.
  \<open>sp_sent\<close> counts the requests sent; it determines the sequence number.
\<close>

datatype phase = Idle | Sending | Awaiting

record usb_spec =
  sp_phase :: phase
  sp_pending :: "(DaliFrame \<times> ptr) list"
  sp_sent :: nat

datatype usb_out = Reply UsbDaliError DaliFrame uint32 uint32 ptr | Bcast UsbDaliError "DaliFrame option" uint32

definition usb_abs :: "('f, 'u) UsbDali \<Rightarrow> addr list \<Rightarrow> usb_spec \<Rightarrow> bool" where
  "usb_abs d qs \<sigma> \<longleftrightarrow>
     sp_pending \<sigma> = map (item (d_transactions d) (d_frames d)) (active d @ qs) \<and>
     d_seq_num d = word_of_nat (Suc (sp_sent \<sigma>) mod 256) \<and>
     (\<forall>a t. d_transaction d = Some a \<and> d_transactions d a = Some t \<longrightarrow>
        t_seq_num t = word_of_nat (sp_sent \<sigma> mod 256))"

definition phase_of :: "('f, 'u) UsbDali \<Rightarrow> phase" where
  "phase_of d = (if d_send_transfer d \<noteq> None then Sending else if d_transaction d \<noteq> None then Awaiting else Idle)"

definition usb_sim :: "('f, 'u) UsbDali \<Rightarrow> usb_spec \<Rightarrow> addr set \<Rightarrow> bool" where
  "usb_sim d \<sigma> E \<longleftrightarrow> sp_phase \<sigma> = phase_of d \<and> (d_send_transfer d \<noteq> None \<longrightarrow> d_transaction d \<noteq> None) \<and>
     (\<exists>qs. usb_rep d qs E \<and> usb_abs d qs \<sigma>)"

text \<open>The parts of the driver that the events leave alone, and having a transfer under way.\<close>

definition config :: "('f, 'u) UsbDali \<Rightarrow> 'f option \<times> 'f option \<times> ptr \<times> bool \<times> uint32 \<times> 'f option option \<times> bool" where
  "config d = (d_req_callback d, d_bcast_callback d, d_bcast_arg d, d_shutdown d, d_queue_size d,
     map_option l_free (d_queue d), d_detached d)"

definition busy :: "('f, 'u) UsbDali \<Rightarrow> bool" where
  "busy d \<longleftrightarrow> d_recv_transfer d \<noteq> None \<or> d_send_transfer d \<noteq> None"

definition usb_env_ok :: "'u usb_env \<Rightarrow> bool" where
  "usb_env_ok env \<longleftrightarrow> total_allocator (ue_malloc env) \<and> ue_buffer env \<and> total_allocator (ue_alloc_transfer env)"

text \<open>What follows when no transfer is under way: the next pending request is sent.\<close>

definition sp_next :: "usb_spec \<Rightarrow> usb_spec" where
  "sp_next \<sigma> = (if sp_phase \<sigma> = Idle \<and> sp_pending \<sigma> \<noteq> []
     then \<sigma>\<lparr>sp_phase := Sending, sp_sent := Suc (sp_sent \<sigma>)\<rparr> else \<sigma>)"

section \<open>usbdali_next\<close>

lemma usb_env_okE:
  assumes "usb_env_ok env" "finite A"
  obtains a where "ue_alloc_transfer env A = Some a" "a \<notin> A" "ue_buffer env"
  using assms unfolding usb_env_ok_def by (metis total_allocator_def)

lemma xfer_rep_dom: "xfer_rep d \<Longrightarrow> finite (dom (d_transfers d))"
  by (simp add: xfer_rep_def)

lemma xfer_rep_none:
  "xfer_rep d \<Longrightarrow> d_recv_transfer d = None \<Longrightarrow> d_send_transfer d = None \<Longrightarrow> d_transfers d = Map.empty"
  by (auto simp: xfer_rep_def)

text \<open>Starting a receive keeps everything but the transfers.\<close>

lemma usbdali_receive_ok:
  assumes "usb_env_ok env" "xfer_rep d" "d_recv_transfer d = None" "d_send_transfer d = None"
  shows "\<exists>r a h u. usbdali_receive env d = Some (r, d\<lparr>d_recv_transfer := Some a, d_transfers := h, d_lib := u\<rparr>) \<and>
           xfer_rep (d\<lparr>d_recv_transfer := Some a, d_transfers := h, d_lib := u\<rparr>)"
proof -
  from usb_env_okE [OF assms(1) xfer_rep_dom [OF assms(2)]] obtain a where
    a: "ue_alloc_transfer env (dom (d_transfers d)) = Some a" "ue_buffer env" by blast
  define x where "x = interrupt_transfer (d_endpoint_in d) (replicate USBDALI_LENGTH 0)
      Receive_callback (d_cmd_timeout d)"
  obtain r u where u: "ue_submit env a x (d_lib d) = (r, u)" by fastforce
  let ?d = "d\<lparr>d_recv_transfer := Some a, d_transfers := (d_transfers d)(a \<mapsto> x), d_lib := u\<rparr>"
  have "usbdali_receive env d = Some (r, ?d)"
    using a u assms(3) by (simp add: usbdali_receive_def x_def Let_def)
  moreover have "xfer_rep ?d"
    using assms(4) xfer_rep_none [OF assms(2-4)] by (auto simp: xfer_rep_def x_def interrupt_transfer_def)
  ultimately show ?thesis by blast
qed

lemma usbdali_receive_sim:
  assumes "usb_env_ok env" "usb_sim d \<sigma> E" "d_recv_transfer d = None" "d_send_transfer d = None"
  shows "\<exists>d'. map_option snd (usbdali_receive env d) = Some d' \<and> usb_sim d' \<sigma> E \<and>
           busy d' \<and> config d' = config d"
proof -
  from assms(2) have "xfer_rep d" by (auto simp: usb_sim_def usb_rep_def)
  from usbdali_receive_ok [OF assms(1) this assms(3,4)] obtain r a h u where
    r: "usbdali_receive env d = Some (r, d\<lparr>d_recv_transfer := Some a, d_transfers := h, d_lib := u\<rparr>)"
       "xfer_rep (d\<lparr>d_recv_transfer := Some a, d_transfers := h, d_lib := u\<rparr>)" by blast
  show ?thesis
    by (rule exI [of _ "d\<lparr>d_recv_transfer := Some a, d_transfers := h, d_lib := u\<rparr>"])
      (use assms(2,4) r in \<open>auto simp: usb_sim_def phase_of_def usb_rep_def usb_abs_def active_def config_def busy_def\<close>)
qed

lemma next_seq: "(if (word_of_nat (n mod 256) :: uint32) = 0xff then 0 else word_of_nat (n mod 256) + 1) =
    word_of_nat (Suc n mod 256)"
proof -
  have "(word_of_nat (n mod 256) :: uint32) = 0xff \<longleftrightarrow> n mod 256 = 255"
  proof
    assume "(word_of_nat (n mod 256) :: uint32) = 0xff"
    then have "unat (word_of_nat (n mod 256) :: uint32) = 255" by simp
    then show "n mod 256 = 255" by (simp add: unat_of_nat)
  qed simp
  moreover have "Suc n mod 256 = (if n mod 256 = 255 then 0 else Suc (n mod 256))"
    by (simp add: mod_Suc)
  ultimately show ?thesis by simp
qed

text \<open>Sending the transaction at the head, just taken out of the queue.\<close>

lemma usbdali_send_sim:
  assumes env: "usb_env_ok env" and q: "list_holds (d_queue d) (map Some qs)" "length qs \<le> unat (d_queue_size d)"
    and t: "trans_rep (d_transactions d) (d_frames d) (a # qs) E" and x: "xfer_rep d"
    and n: "d_recv_transfer d = None" "d_send_transfer d = None" "d_transaction d = None"
    and s: "d_seq_num d = word_of_nat (Suc (sp_sent \<sigma>) mod 256)"
      "sp_pending \<sigma> = map (item (d_transactions d) (d_frames d)) (a # qs)"
  shows "\<exists>d'. map_option snd (usbdali_send env (Some a) d) = Some d' \<and>
           usb_sim d' (\<sigma>\<lparr>sp_phase := Sending, sp_sent := Suc (sp_sent \<sigma>)\<rparr>) E \<and>
           busy d' \<and> config d' = config d"
proof -
  from t obtain tr r f where f: "d_transactions d a = Some tr" "t_request tr = Some r" "d_frames d r = Some f"
    by (elim trans_rep_lookup [where a = a]) auto
  from usb_env_okE [OF env xfer_rep_dom [OF x]] obtain b where
    b: "ue_alloc_transfer env (dom (d_transfers d)) = Some b" "ue_buffer env" by blast
  define X where "X = interrupt_transfer (d_endpoint_out d) (send_bytes (d_seq_num d) f @ replicate 56 0)
    Send_callback (d_cmd_timeout d)"
  obtain rc u where u: "ue_submit env b X (d_lib d) = (rc, u)" by fastforce
  define ts where "ts = (d_transactions d)(a \<mapsto> tr\<lparr>t_seq_num := d_seq_num d\<rparr>)"
  define d' where "d' = d\<lparr>d_transaction := Some a, d_transactions := ts,
    d_seq_num := (if d_seq_num d = 0xff then 0 else d_seq_num d + 1),
    d_send_transfer := Some b, d_transfers := (d_transfers d)(b \<mapsto> X), d_lib := u\<rparr>"
  have run: "usbdali_send env (Some a) d = Some (rc, d')"
    using f b n u by (simp add: usbdali_send_def pack_send X_def d'_def ts_def Let_def)
  have ts: "trans_rep ts (d_frames d) (a # qs) E"
    by (rule trans_rep_same [OF t]) (auto simp: ts_def f(1))
  have it: "item ts (d_frames d) = item (d_transactions d) (d_frames d)"
    by (auto simp: item_def ts_def f(1))
  have xf: "xfer_rep d'"
    using xfer_rep_none [OF x n(1,2)] n
    by (auto simp: xfer_rep_def d'_def X_def interrupt_transfer_def send_bytes_def USBDALI_LENGTH_def)
  have "usb_rep d' qs E" using q ts xf by (simp add: usb_rep_def d'_def active_def)
  moreover have "usb_abs d' qs (\<sigma>\<lparr>sp_phase := Sending, sp_sent := Suc (sp_sent \<sigma>)\<rparr>)"
    using s it next_seq [of "Suc (sp_sent \<sigma>)"] by (auto simp: usb_abs_def d'_def active_def ts_def)
  moreover have "busy d'" "config d' = config d" "phase_of d' = Sending" "d_transaction d' \<noteq> None"
    by (simp_all add: busy_def config_def d'_def phase_of_def)
  ultimately show ?thesis using run by (auto simp: usb_sim_def)
qed

lemma queue_length:
  assumes "usb_rep d qs E"
  shows "unat (list_length (d_queue d)) = length qs"
proof -
  have "length qs < 2 ^ 64"
    using assms unsigned_less [where 'a = nat, of "d_queue_size d"] by (simp add: usb_rep_def)
  then show ?thesis
    using assms lq.len_bounded [of "d_queue d" "map Some qs"] by (simp add: usb_rep_def)
qed

lemma unat_ucast_size: "unat (ucast (w :: uint32) :: size_t) = unat w"
  using unsigned_less [where 'a = nat, of w] by (simp add: unsigned_ucast_eq take_bit_nat_eq_self)

lemma usbdali_next_sim:
  assumes env: "usb_env_ok env" and sim: "usb_sim d \<sigma> E"
  shows "\<exists>d'. usbdali_next env d = Some d' \<and> usb_sim d' (if busy d then \<sigma> else sp_next \<sigma>) E \<and>
           busy d' \<and> config d' = config d"
proof -
  from sim obtain qs where rep: "usb_rep d qs E" and abs: "usb_abs d qs \<sigma>" and ph: "sp_phase \<sigma> = phase_of d"
    by (auto simp: usb_sim_def)
  have len: "list_length (d_queue d) > 0 \<longleftrightarrow> qs \<noteq> []"
    using queue_length [OF rep] by (auto simp: word_less_nat_alt)
  consider (busy) "busy d" "d_send_transfer d \<noteq> None \<or> d_transaction d \<noteq> None \<or> qs = []"
    | (cancel) r where "d_recv_transfer d = Some r" "d_send_transfer d = None" "d_transaction d = None" "qs \<noteq> []"
    | (recv) "\<not> busy d" "d_transaction d \<noteq> None \<or> qs = []"
    | (send) a qs' where "\<not> busy d" "d_transaction d = None" "qs = a # qs'"
    unfolding busy_def
    by (cases qs; cases "d_recv_transfer d"; cases "d_send_transfer d"; cases "d_transaction d") auto
  then show ?thesis
  proof cases
    case busy
    with sim len show ?thesis by (auto simp: usbdali_next_def busy_def)
  next
    case cancel
    let ?d = "d\<lparr>d_lib := snd (ue_cancel env r (d_lib d))\<rparr>"
    have "usbdali_next env d = Some ?d" using cancel len by (simp add: usbdali_next_def)
    moreover have "usb_sim ?d \<sigma> E"
      using sim by (simp add: usb_sim_def phase_of_def usb_rep_def usb_abs_def active_def xfer_rep_def)
    ultimately show ?thesis using cancel(1) by (auto simp: busy_def config_def)
  next
    case recv
    then have "usbdali_next env d = map_option snd (usbdali_receive env d)" "sp_next \<sigma> = \<sigma>"
      using len abs ph by (auto simp: usbdali_next_def busy_def sp_next_def phase_of_def usb_abs_def active_def)
    with usbdali_receive_sim [OF env sim] recv(1) show ?thesis by (auto simp: busy_def)
  next
    case send
    with rep list_holds_dequeue [of "d_queue d" "Some a" "map Some qs'"] obtain q where
      q: "list_dequeue (d_queue d) = Some (Some a, q)" "list_holds q (map Some qs')"
      by (auto simp: usb_rep_def)
    have sp: "sp_next \<sigma> = \<sigma>\<lparr>sp_phase := Sending, sp_sent := Suc (sp_sent \<sigma>)\<rparr>"
      using abs send ph by (simp add: sp_next_def usb_abs_def busy_def active_def phase_of_def)
    have "usbdali_next env d = map_option snd (usbdali_send env (Some a) (d\<lparr>d_queue := q\<rparr>))"
      using send len q(1) by (simp add: usbdali_next_def busy_def)
    moreover have "length qs' \<le> unat (d_queue_size d)" "xfer_rep (d\<lparr>d_queue := q\<rparr>)"
        "trans_rep (d_transactions d) (d_frames d) (a # qs') E"
        "sp_pending \<sigma> = map (item (d_transactions d) (d_frames d)) (a # qs')"
        "d_seq_num d = word_of_nat (Suc (sp_sent \<sigma>) mod 256)"
        "d_recv_transfer d = None" "d_send_transfer d = None" "d_transaction d = None"
      using send rep abs by (simp_all add: usb_rep_def usb_abs_def active_def busy_def xfer_rep_def)
    moreover have "config (d\<lparr>d_queue := q\<rparr>) = config d" using list_dequeue_keeps_free [OF q(1)] by (simp add: config_def)
    ultimately show ?thesis
      using usbdali_send_sim [OF env, of "d\<lparr>d_queue := q\<rparr>" qs' a E \<sigma>] q(2) send(1) sp by fastforce
  qed
qed

section \<open>usbdali_queue\<close>

text \<open>The requests waiting in the queue do not include the one in service.\<close>

definition sp_waiting :: "usb_spec \<Rightarrow> nat" where
  "sp_waiting \<sigma> = length (sp_pending \<sigma>) - (if sp_phase \<sigma> = Idle then 0 else 1)"

definition sp_request :: "DaliFrame \<Rightarrow> ptr \<Rightarrow> usb_spec \<Rightarrow> usb_spec" where
  "sp_request f arg \<sigma> = \<sigma>\<lparr>sp_pending := sp_pending \<sigma> @ [(f, arg)]\<rparr>"

lemma sp_waiting_eq:
  assumes "usb_abs d qs \<sigma>" "sp_phase \<sigma> = phase_of d" "d_send_transfer d \<noteq> None \<longrightarrow> d_transaction d \<noteq> None"
  shows "sp_waiting \<sigma> = length qs"
  using assms by (auto simp: sp_waiting_def usb_abs_def phase_of_def active_def split: if_splits option.splits)

lemma usbdali_queue_full:
  assumes "usb_sim d \<sigma> E" "unat (d_queue_size d) \<le> sp_waiting \<sigma>"
  shows "usbdali_queue env (Some d) frame arg = Some (USBDALI_QUEUE_FULL, Some d)"
proof -
  from assms(1) obtain qs where "usb_rep d qs E" "sp_waiting \<sigma> = length qs"
    using sp_waiting_eq by (auto simp: usb_sim_def)
  with assms(2) queue_length [of d qs E] have "\<not> list_length (d_queue d) < ucast (d_queue_size d)"
    by (simp add: word_less_nat_alt unat_ucast_size)
  then show ?thesis by (simp add: usbdali_queue_def)
qed

lemma usbdali_queue_sim:
  assumes env: "usb_env_ok env" and sim: "usb_sim d \<sigma> (insert r E)" and r: "r \<notin> E" "d_frames d r = Some f"
    and free: "sp_waiting \<sigma> < unat (d_queue_size d)"
  shows "\<exists>d'. usbdali_queue env (Some d) (Some r) arg = Some (USBDALI_SUCCESS, Some d') \<and>
           usb_sim d' (if busy d then sp_request f arg \<sigma> else sp_next (sp_request f arg \<sigma>)) E \<and>
           busy d' \<and> config d' = config d"
proof -
  from sim obtain qs where rep: "usb_rep d qs (insert r E)" and abs: "usb_abs d qs \<sigma>" and
      ph: "sp_phase \<sigma> = phase_of d" "d_send_transfer d \<noteq> None \<longrightarrow> d_transaction d \<noteq> None"
    by (auto simp: usb_sim_def)
  have w: "length qs < unat (d_queue_size d)" using sp_waiting_eq [OF abs ph] free by simp
  then have lt: "list_length (d_queue d) < ucast (d_queue_size d)"
    using queue_length [OF rep] by (simp add: word_less_nat_alt unat_ucast_size)
  from rep have t: "trans_rep (d_transactions d) (d_frames d) (active d @ qs) (insert r E)"
    by (simp add: usb_rep_def)
  from env trans_rep_finite [OF t] obtain a where
    a: "ue_malloc env (dom (d_transactions d)) = Some a" "a \<notin> dom (d_transactions d)"
    by (meson total_allocatorE usb_env_ok_def)
  define tr where "tr = \<lparr>t_seq_num = 0, t_request = Some r, t_arg = arg\<rparr>"
  have "list_holds (d_queue d) (map Some qs)" "total_allocator (ue_malloc env)"
    using rep env by (simp_all add: usb_rep_def usb_env_ok_def)
  from list_holds_enqueue [OF this(2,1), of "Some a"] obtain node q where
    q: "list_enqueue (ue_malloc env) (d_queue d) (Some a) = Some (node, q)" "list_holds q (map Some (qs @ [a]))"
    by auto
  define d1 where "d1 = d\<lparr>d_transactions := (d_transactions d)(a \<mapsto> tr), d_queue := q\<rparr>"
  have same: "active d1 = active d" "phase_of d1 = phase_of d" "busy d1 = busy d" "config d1 = config d"
    using list_enqueue_keeps_free [OF q(1)] by (simp_all add: d1_def active_def phase_of_def busy_def config_def)
  have nw: "trans_rep ((d_transactions d)(a \<mapsto> tr)) (d_frames d) ((active d @ qs) @ [a]) E"
    by (rule trans_rep_new [OF t r(1)]) (use a(2) in \<open>auto simp: tr_def\<close>)
  have na: "a \<notin> set (active d @ qs)" using a(2) t by (auto simp: trans_rep_def)
  then have "usb_rep d1 (qs @ [a]) E"
    using rep q(2) nw w same(1) by (simp add: usb_rep_def d1_def xfer_rep_def)
  moreover have "map (item ((d_transactions d)(a \<mapsto> tr)) (d_frames d)) (active d @ qs) =
      map (item (d_transactions d) (d_frames d)) (active d @ qs)"
    by (rule map_cong [OF refl]) (use na in \<open>auto simp: item_def\<close>)
  then have "usb_abs d1 (qs @ [a]) (sp_request f arg \<sigma>)"
    using abs na r(2) same(1) by (auto simp: usb_abs_def d1_def sp_request_def item_def tr_def active_def)
  ultimately have "usb_sim d1 (sp_request f arg \<sigma>) E"
    using ph same(2) by (auto simp: usb_sim_def sp_request_def d1_def)
  from usbdali_next_sim [OF env this] same show ?thesis
    using lt a(1) q(1) by (auto simp: usbdali_queue_def usbdali_transaction_new_def d1_def tr_def)
qed

section \<open>usbdali_cancel and other changes of the callback arguments\<close>

text \<open>
  What a client may do to the driver from inside a callback: change arguments of transactions, as
  far as \<open>keep\<close> allows it.
\<close>

definition relabelled :: "(ptr \<Rightarrow> ptr \<Rightarrow> bool) \<Rightarrow> (addr \<rightharpoonup> UsbDaliTransaction) \<Rightarrow>
    (addr \<rightharpoonup> UsbDaliTransaction) \<Rightarrow> bool" where
  "relabelled keep ts ts' \<longleftrightarrow> dom ts' = dom ts \<and>
     (\<forall>a t. ts a = Some t \<longrightarrow> (\<exists>b. ts' a = Some (t\<lparr>t_arg := b\<rparr>) \<and> keep (t_arg t) b))"

definition spec_keep :: "(ptr \<Rightarrow> ptr \<Rightarrow> bool) \<Rightarrow> usb_spec \<Rightarrow> usb_spec \<Rightarrow> bool" where
  "spec_keep keep \<sigma> \<sigma>' \<longleftrightarrow> sp_phase \<sigma>' = sp_phase \<sigma> \<and> sp_sent \<sigma>' = sp_sent \<sigma> \<and>
     list_all2 (rel_prod (=) keep) (sp_pending \<sigma>) (sp_pending \<sigma>')"

definition args :: "('f, 'u) UsbDali \<Rightarrow> ptr set" where
  "args d = t_arg ` ran (d_transactions d)"

lemma relabelledE:
  assumes "relabelled keep ts ts'" "ts a = Some t"
  obtains b where "ts' a = Some (t\<lparr>t_arg := b\<rparr>)" "keep (t_arg t) b"
  using assms unfolding relabelled_def by blast

lemma relabel_rep:
  assumes "relabelled keep (d_transactions d) ts" "usb_rep d qs E"
  shows "usb_rep (d\<lparr>d_transactions := ts\<rparr>) qs E"
proof -
  from assms(2) have t: "trans_rep (d_transactions d) (d_frames d) (active d @ qs) E" by (simp add: usb_rep_def)
  have "trans_rep ts (d_frames d) (active d @ qs) E"
  proof (rule trans_rep_same [OF t])
    show "dom ts = dom (d_transactions d)" using assms(1) by (simp add: relabelled_def)
    show "t_request (the (ts a)) = t_request t" if "d_transactions d a = Some t" for a t
      by (rule relabelledE [OF assms(1) that]) simp
  qed
  with assms(2) show ?thesis by (simp add: usb_rep_def active_def xfer_rep_def)
qed

lemma relabel_item:
  assumes "relabelled keep ts ts'" "ts a = Some t"
  shows "rel_prod (=) keep (item ts fs a) (item ts' fs a)"
  by (rule relabelledE [OF assms]) (simp add: item_def assms(2))

lemma relabel_abs:
  assumes rel: "relabelled keep (d_transactions d) ts" and rep: "usb_rep d qs E" and abs: "usb_abs d qs \<sigma>"
  obtains \<sigma>' where "usb_abs (d\<lparr>d_transactions := ts\<rparr>) qs \<sigma>'" "spec_keep keep \<sigma> \<sigma>'"
proof -
  let ?p = "map (item ts (d_frames d)) (active d @ qs)"
  have dom: "dom (d_transactions d) = set (active d @ qs)" using rep by (simp add: usb_rep_def trans_rep_def)
  have "list_all2 (\<lambda>a b. rel_prod (=) keep (item (d_transactions d) (d_frames d) a) (item ts (d_frames d) b))
      (active d @ qs) (active d @ qs)"
    by (rule list.rel_refl_strong) (use dom relabel_item [OF rel] in blast)
  then have "spec_keep keep \<sigma> (\<sigma>\<lparr>sp_pending := ?p\<rparr>)"
    using abs by (simp add: spec_keep_def usb_abs_def list.rel_map del: map_append)
  moreover have "t_seq_num t' = word_of_nat (sp_sent \<sigma> mod 256)"
    if "d_transaction d = Some a" "ts a = Some t'" for a t'
  proof -
    from that(2) rel obtain t where t: "d_transactions d a = Some t" by (metis domD domI relabelled_def)
    have "t_seq_num t' = t_seq_num t" by (rule relabelledE [OF rel t]) (simp add: that(2))
    with t that(1) abs show ?thesis by (simp add: usb_abs_def)
  qed
  then have "usb_abs (d\<lparr>d_transactions := ts\<rparr>) qs (\<sigma>\<lparr>sp_pending := ?p\<rparr>)"
    using abs by (simp add: usb_abs_def active_def)
  ultimately show ?thesis using that by blast
qed

lemma args_eq:
  assumes "usb_rep d qs E" "usb_abs d qs \<sigma>"
  shows "args d = snd ` set (sp_pending \<sigma>)"
proof -
  have dom: "dom (d_transactions d) = set (active d @ qs)" using assms(1) by (simp add: usb_rep_def trans_rep_def)
  have "t_arg ` ran (d_transactions d) = (\<lambda>a. t_arg (the (d_transactions d a))) ` dom (d_transactions d)"
    by (force simp: ran_def image_iff)
  also have "\<dots> = (\<lambda>a. snd (item (d_transactions d) (d_frames d) a)) ` set (active d @ qs)"
    by (simp add: dom item_def Let_def)
  finally show ?thesis using assms(2) by (simp add: args_def usb_abs_def image_image image_Un)
qed

lemma cancel_loop_dseg:
  assumes "dseg h p c ns q None" "map (data_at h) ns = map Some qs" "set qs \<subseteq> dom ts"
  shows "usbdali_cancel_loop h arg c ts =
    Some (\<lambda>a. if a \<in> set qs then map_option (clear_arg arg) (ts a) else ts a)"
  using assms
proof (induction ns arbitrary: p c qs ts)
  case Nil
  then show ?case by (simp add: usbdali_cancel_loop.simps)
next
  case (Cons n ns)
  from Cons.prems(2) obtain a qs' where qs: "qs = a # qs'" "data_at h n = Some a"
      "map (data_at h) ns = map Some qs'" by (auto simp: Cons_eq_map_conv)
  from Cons.prems(1) qs(2) obtain k where k: "c = Some n" "h n = Some k" "node_data k = Some a"
      "dseg h (Some n) (node_next k) ns q None"
    by (auto simp: data_at_def split: option.splits)
  from Cons.prems(3) qs(1) obtain t where t: "ts a = Some t" by auto
  have "set qs' \<subseteq> dom (ts(a \<mapsto> clear_arg arg t))" using Cons.prems(3) qs(1) by auto
  moreover have "clear_arg arg (clear_arg arg t) = clear_arg arg t" by (simp add: clear_arg_def)
  moreover note Cons.IH [OF k(4) qs(3), of "ts(a \<mapsto> clear_arg arg t)"]
  ultimately have "usbdali_cancel_loop h arg (node_next k) (ts(a \<mapsto> clear_arg arg t)) =
      Some (\<lambda>b. if b \<in> set qs then map_option (clear_arg arg) (ts b) else ts b)"
    using t qs(1) by (auto simp: fun_eq_iff simp del: fun_upd_apply simp add: fun_upd_def)
  then show ?case
    using k t by (subst usbdali_cancel_loop.simps) (simp add: list_data_def list_next_def)
qed

lemma usbdali_cancel_eq:
  assumes "usb_rep d qs E" "arg \<noteq> None"
  shows "usbdali_cancel (Some d) arg =
    Some (Some (d\<lparr>d_transactions := \<lambda>a. map_option (clear_arg arg) (d_transactions d a)\<rparr>))"
proof -
  let ?c = "map_option (clear_arg arg)"
  from assms(1) have t: "trans_rep (d_transactions d) (d_frames d) (active d @ qs) E" by (simp add: usb_rep_def)
  then have dom: "dom (d_transactions d) = set (active d @ qs)" "distinct (active d @ qs)"
    by (simp_all add: trans_rep_def)
  define ts where "ts = (\<lambda>a. if a \<in> set (active d) then ?c (d_transactions d a) else d_transactions d a)"
  have u: "(if d_transaction d \<noteq> None then update_at (d_transactions d) (d_transaction d) (clear_arg arg)
      else Some (d_transactions d)) = Some ts"
    using dom(1) by (cases "d_transaction d") (auto simp: active_def update_at_def ts_def split: option.splits)
  from assms(1) obtain ns where "list_rep (d_queue d) ns (map Some qs)" by (auto simp: usb_rep_def list_holds_def)
  then obtain l where l: "d_queue d = Some l" "dseg (l_nodes l) None (l_head l) ns (l_tail l) None"
      "map (data_at (l_nodes l)) ns = map Some qs" by (elim list_repE) simp
  have "set qs \<subseteq> dom ts" using dom by (auto simp: ts_def)
  from cancel_loop_dseg [OF l(2,3) this, of arg] l(1)
  have "usbdali_cancel (Some d) arg =
      Some (Some (d\<lparr>d_transactions := \<lambda>a. if a \<in> set qs then ?c (ts a) else ts a\<rparr>))"
    using assms(2) u by (auto simp: usbdali_cancel_def list_first_def)
  moreover have "(\<lambda>a. if a \<in> set qs then ?c (ts a) else ts a) = (\<lambda>a. ?c (d_transactions d a))"
    using dom by (auto simp: ts_def fun_eq_iff)
  ultimately show ?thesis by simp
qed

end
