(* ===== verification/Usb_Client.thy ===== *)
theory Usb_Client
  imports Usb_Refinement
begin

text \<open>
  The driver and its client. The events of the driver are the calls of its interface and the end
  of a transfer; \<open>usb_event_step\<close> runs the code, \<open>usb_spec_step\<close> is what should happen. The
  locale \<open>usb_client\<close> states what the driver relies on in its callbacks.
\<close>

section \<open>Events\<close>

datatype usb_event = Request byte byte byte ptr | Cancel ptr | Send_done libusb_transfer_status
  | Receive_done libusb_transfer_status nat "byte list"

text \<open>libusb ends a transfer: it fills in the results and forgets the transfer.\<close>

definition complete :: "'u usb_env \<Rightarrow> addr \<Rightarrow> (libusb_transfer \<Rightarrow> libusb_transfer) \<Rightarrow> ('f, 'u) UsbDali \<Rightarrow> ('f, 'u) UsbDali" where
  "complete env tr f d = d\<lparr>d_transfers := (d_transfers d)(tr := map_option f (d_transfers d tr)),
     d_lib := ue_complete env tr (d_lib d)\<rparr>"

fun usb_event_step :: "'u usb_env \<Rightarrow> ('f, 'u, 'w) req_call \<Rightarrow> ('f, 'u, 'w) bcast_call \<Rightarrow> usb_event \<Rightarrow>
    ('f, 'u) UsbDali \<times> 'w \<Rightarrow> (('f, 'u) UsbDali \<times> 'w) option" where
  "usb_event_step env call_req call_bcast (Request ec ad cm arg) (d, w) = do {
     (frame, fs) \<leftarrow> daliframe_enew (ue_malloc env) ec ad cm (d_frames d);
     (err, dali) \<leftarrow> usbdali_queue env (Some (d\<lparr>d_frames := fs\<rparr>)) frame arg;
     d' \<leftarrow> dali;
     Some (d', w)
   }"
| "usb_event_step env call_req call_bcast (Cancel arg) (d, w) = do {
     dali \<leftarrow> usbdali_cancel (Some d) arg;
     d' \<leftarrow> dali;
     Some (d', w)
   }"
| "usb_event_step env call_req call_bcast (Send_done st) (d, w) = (case d_send_transfer d of
     None \<Rightarrow> Some (d, w)
   | Some tr \<Rightarrow> usbdali_send_callback env call_req tr
       (complete env tr (\<lambda>x. x\<lparr>x_status := st, x_actual_length := USBDALI_LENGTH\<rparr>) d, w))"
| "usb_event_step env call_req call_bcast (Receive_done st n bs) (d, w) = (case d_recv_transfer d of
     None \<Rightarrow> Some (d, w)
   | Some tr \<Rightarrow> usbdali_receive_callback env call_req call_bcast tr
       (complete env tr (\<lambda>x. x\<lparr>x_status := st, x_actual_length := n, x_buffer := Some bs\<rparr>) d, w))"

text \<open>libusb fills the 64 byte buffer of a transfer with at most that many bytes.\<close>

fun event_ok :: "usb_event \<Rightarrow> bool" where
  "event_ok (Receive_done st n bs) \<longleftrightarrow> length bs = USBDALI_LENGTH \<and> n \<le> USBDALI_LENGTH"
| "event_ok ev \<longleftrightarrow> True"

fun event_args :: "usb_event \<Rightarrow> ptr set" where
  "event_args (Request ec ad cm arg) = {arg}"
| "event_args ev = {}"

section \<open>What should happen\<close>

definition sp_answer :: "UsbDaliError \<Rightarrow> DaliFrame \<Rightarrow> uint32 \<Rightarrow> uint32 \<Rightarrow> usb_spec \<Rightarrow> usb_spec \<times> usb_out list" where
  "sp_answer err f response status \<sigma> =
     (\<sigma>\<lparr>sp_phase := Idle, sp_pending := tl (sp_pending \<sigma>)\<rparr>,
      [Reply err f response status (snd (hd (sp_pending \<sigma>)))])"

definition sp_fail :: "UsbDaliError \<Rightarrow> usb_spec \<Rightarrow> usb_spec \<times> usb_out list" where
  "sp_fail err \<sigma> = sp_answer err (fst (hd (sp_pending \<sigma>))) 0xff 0xffff \<sigma>"

definition dali_frame :: "byte \<Rightarrow> UsbDaliIn \<Rightarrow> DaliFrame" where
  "dali_frame ec i = \<lparr>f_ecommand = ec, f_address = in_address i, f_command = in_command i\<rparr>"

text \<open>A packet from the device: bus traffic is passed on, a response with the right sequence number answers
  the request in service.\<close>

definition sp_packet :: "UsbDaliIn \<Rightarrow> usb_spec \<Rightarrow> usb_spec \<times> usb_out list" where
  "sp_packet i \<sigma> =
     (if in_direction i = 0x11 \<and> in_type i = 0x73
      then (\<sigma>, [Bcast USBDALI_SUCCESS (Some (dali_frame 0 i)) (ucast (in_status i))])
      else if in_direction i = 0x11 \<and> in_type i = 0x74
      then (\<sigma>, [Bcast USBDALI_SUCCESS (Some (dali_frame (in_ecommand i) i)) (ucast (in_status i))])
      else if in_direction i = 0x12 \<and> sp_phase \<sigma> \<noteq> Idle \<and> unat (in_seqnum i) = sp_sent \<sigma> mod 256 \<and> in_type i = 0x71
      then sp_answer USBDALI_SUCCESS (dali_frame 0 i) 0xff (ucast (in_status i)) \<sigma>
      else if in_direction i = 0x12 \<and> sp_phase \<sigma> \<noteq> Idle \<and> unat (in_seqnum i) = sp_sent \<sigma> mod 256 \<and> in_type i = 0x72
      then sp_answer USBDALI_RESPONSE (dali_frame 0 i) (ucast (in_command i)) (ucast (in_status i)) \<sigma>
      else (\<sigma>, []))"

fun sp_received :: "libusb_transfer_status \<Rightarrow> nat \<Rightarrow> byte list \<Rightarrow> usb_spec \<Rightarrow> usb_spec \<times> usb_out list" where
  "sp_received LIBUSB_TRANSFER_COMPLETED n bs \<sigma> = (if n < 9 then (\<sigma>, []) else sp_packet (parse_in bs) \<sigma>)"
| "sp_received LIBUSB_TRANSFER_CANCELLED n bs \<sigma> = (\<sigma>, [])"
| "sp_received LIBUSB_TRANSFER_TIMED_OUT n bs \<sigma> =
     (if sp_phase \<sigma> = Idle then (\<sigma>, []) else sp_fail USBDALI_RECEIVE_TIMEOUT \<sigma>)"
| "sp_received st n bs \<sigma> =
     (if sp_phase \<sigma> = Idle then (\<sigma>, [Bcast USBDALI_RECEIVE_ERROR None 0xffff])
      else sp_fail USBDALI_RECEIVE_ERROR \<sigma>)"

fun sp_sent_done :: "libusb_transfer_status \<Rightarrow> usb_spec \<Rightarrow> usb_spec \<times> usb_out list" where
  "sp_sent_done LIBUSB_TRANSFER_COMPLETED \<sigma> = (\<sigma>\<lparr>sp_phase := Awaiting\<rparr>, [])"
| "sp_sent_done LIBUSB_TRANSFER_CANCELLED \<sigma> = (\<sigma>\<lparr>sp_phase := Awaiting\<rparr>, [])"
| "sp_sent_done LIBUSB_TRANSFER_TIMED_OUT \<sigma> = sp_fail USBDALI_SEND_TIMEOUT \<sigma>"
| "sp_sent_done st \<sigma> = sp_fail USBDALI_SEND_ERROR \<sigma>"

definition sp_cancel :: "ptr \<Rightarrow> usb_spec \<Rightarrow> usb_spec" where
  "sp_cancel arg \<sigma> = \<sigma>\<lparr>sp_pending := map (apsnd (\<lambda>x. if x = arg then None else x)) (sp_pending \<sigma>)\<rparr>"

fun usb_spec_step :: "nat \<Rightarrow> usb_event \<Rightarrow> usb_spec \<Rightarrow> usb_spec \<times> usb_out list" where
  "usb_spec_step cap (Request ec ad cm arg) \<sigma> =
     (if sp_waiting \<sigma> < cap
      then sp_request \<lparr>f_ecommand = ec, f_address = ad, f_command = cm\<rparr> arg \<sigma> else \<sigma>, [])"
| "usb_spec_step cap (Cancel arg) \<sigma> = (sp_cancel arg \<sigma>, [])"
| "usb_spec_step cap (Send_done st) \<sigma> =
     (if sp_phase \<sigma> = Sending then apfst sp_next (sp_sent_done st \<sigma>) else (\<sigma>, []))"
| "usb_spec_step cap (Receive_done st n bs) \<sigma> =
     (if sp_phase \<sigma> = Sending then (\<sigma>, []) else apfst sp_next (sp_received st n bs \<sigma>))"

lemma spec_keep_fun:
  assumes "spec_keep (\<lambda>x y. y = g x) \<sigma> \<sigma>'"
  shows "\<sigma>' = \<sigma>\<lparr>sp_pending := map (apsnd g) (sp_pending \<sigma>)\<rparr>"
proof -
  have "list_all2 (rel_prod (=) (\<lambda>x y. y = g x)) xs ys \<Longrightarrow> ys = map (apsnd g) xs" for xs ys :: "(DaliFrame \<times> ptr) list"
    by (induction rule: list_all2_induct) (auto simp: rel_prod_sel)
  with assms show ?thesis by (auto simp: spec_keep_def intro!: usb_spec.equality)
qed

lemma usbdali_cancel_sim:
  assumes "usb_sim d \<sigma> E"
  shows "\<exists>d'. usbdali_cancel (Some d) arg = Some (Some d') \<and> usb_sim d' (sp_cancel arg \<sigma>) E \<and>
    busy d' = busy d \<and> config d' = config d"
proof (cases "arg = None")
  case True
  have "sp_cancel None \<sigma> = \<sigma>"
    by (auto simp: sp_cancel_def apsnd_def map_prod_def map_idI if_distrib cong: if_cong)
  with True assms show ?thesis by (simp add: usbdali_cancel_def)
next
  case False
  from assms obtain qs where q: "usb_rep d qs E" "usb_abs d qs \<sigma>" by (auto simp: usb_sim_def)
  define ts where "ts = (\<lambda>a. map_option (clear_arg arg) (d_transactions d a))"
  have rel: "relabelled (\<lambda>x y. y = (if x = arg then None else x)) (d_transactions d) ts"
    by (auto simp: relabelled_def ts_def dom_def clear_arg_def)
  from relabel_abs [OF this q] obtain \<sigma>' where s: "usb_abs (d\<lparr>d_transactions := ts\<rparr>) qs \<sigma>'"
    "spec_keep (\<lambda>x y. y = (if x = arg then None else x)) \<sigma> \<sigma>'" by blast
  have "\<sigma>' = sp_cancel arg \<sigma>" using spec_keep_fun [OF s(2)] by (simp add: sp_cancel_def)
  with s(1) relabel_rep [OF rel q(1)] assms usbdali_cancel_eq [OF q(1) False, folded ts_def] show ?thesis
    by (auto simp: usb_sim_def phase_of_def busy_def config_def sp_cancel_def)
qed

section \<open>The end of a transaction\<close>

text \<open>The transfers and the configuration, which a client's callback must not touch.\<close>

definition link :: "('f, 'u) UsbDali \<Rightarrow> _" where
  "link d = (d_recv_transfer d, d_send_transfer d, d_transfers d, config d)"

lemma end_transaction_ok:
  assumes "usb_rep d qs E" "usb_abs d qs \<sigma>" "d_transaction d = Some a"
  shows "\<exists>d'. end_transaction (d, w) = Some (d', w) \<and> usb_rep d' qs E \<and>
           usb_abs d' qs (\<sigma>\<lparr>sp_phase := ph, sp_pending := tl (sp_pending \<sigma>)\<rparr>) \<and>
           d_transaction d' = None \<and> link d' = link d \<and> args d' \<subseteq> args d"
proof -
  from assms(1,3) have t: "trans_rep (d_transactions d) (d_frames d) (a # qs) E" "active d = [a]"
    by (simp_all add: usb_rep_def active_def)
  then obtain tr r f where tr: "d_transactions d a = Some tr" "t_request tr = Some r" "d_frames d r = Some f"
    by (elim trans_rep_lookup [where a = a]) simp_all
  note f = trans_rep_free [OF t(1) tr(1,2)]
  define d' where "d' = d\<lparr>d_frames := (d_frames d)(r := None),
    d_transactions := (d_transactions d)(a := None), d_transaction := None\<rparr>"
  have "end_transaction (d, w) = Some (d', w)"
    using assms(3) tr by (simp add: end_transaction_def usbdali_transaction_free_def daliframe_free_def d'_def)
  moreover have "usb_rep d' qs E"
    using assms(1) f(1) by (simp add: usb_rep_def d'_def active_def xfer_rep_def)
  moreover have "map (item ((d_transactions d)(a := None)) ((d_frames d)(r := None))) qs =
      map (item (d_transactions d) (d_frames d)) qs"
    by (rule map_cong [OF refl]) (rule f(2))
  then have "usb_abs d' qs (\<sigma>\<lparr>sp_phase := ph, sp_pending := tl (sp_pending \<sigma>)\<rparr>)"
    using assms(2) t(2) by (simp add: usb_abs_def d'_def active_def)
  moreover have "args d' \<subseteq> args d" by (auto simp: args_def d'_def ran_def)
  ultimately show ?thesis by (intro exI [of _ d']) (simp add: d'_def link_def config_def)
qed

lemma first_pending:
  assumes "usb_rep d qs E" "usb_abs d qs \<sigma>" "d_transaction d = Some a"
  obtains t r f where "d_transactions d a = Some t" "t_request t = Some r" "d_frames d r = Some f"
    "hd (sp_pending \<sigma>) = (f, t_arg t)" "t_arg t \<in> args d" "t_seq_num t = word_of_nat (sp_sent \<sigma> mod 256)"
proof -
  from assms(1,3) have t: "trans_rep (d_transactions d) (d_frames d) (a # qs) E" "active d = [a]"
    by (simp_all add: usb_rep_def active_def)
  then obtain tr r f where tr: "d_transactions d a = Some tr" "t_request tr = Some r" "d_frames d r = Some f"
      "item (d_transactions d) (d_frames d) a = (f, t_arg tr)"
    by (elim trans_rep_lookup [where a = a]) simp_all
  with assms(2,3) t(2) that [of tr r f] show ?thesis
    by (auto simp: usb_abs_def args_def ran_def)
qed

text \<open>A frame that lives only during a callback.\<close>

lemma frame_in:
  assumes "usb_rep d qs E" "usb_abs d qs \<sigma>" "d_frames d r = None"
  shows "usb_rep (d\<lparr>d_frames := (d_frames d)(r \<mapsto> f)\<rparr>) qs (insert r E)"
    "usb_abs (d\<lparr>d_frames := (d_frames d)(r \<mapsto> f)\<rparr>) qs \<sigma>"
proof -
  from assms(1) have t: "trans_rep (d_transactions d) (d_frames d) (active d @ qs) E" by (simp add: usb_rep_def)
  note f = trans_rep_frame [OF t assms(3), where f = f]
  show "usb_rep (d\<lparr>d_frames := (d_frames d)(r \<mapsto> f)\<rparr>) qs (insert r E)"
    using assms(1) f(1) by (simp add: usb_rep_def active_def xfer_rep_def)
  have "map (item (d_transactions d) ((d_frames d)(r \<mapsto> f))) (active d @ qs) =
      map (item (d_transactions d) (d_frames d)) (active d @ qs)"
    by (rule map_cong [OF refl]) (rule f(2))
  with assms(2) show "usb_abs (d\<lparr>d_frames := (d_frames d)(r \<mapsto> f)\<rparr>) qs \<sigma>"
    by (auto simp: usb_abs_def active_def)
qed

lemma frame_notin: "usb_rep d qs E \<Longrightarrow> d_frames d r = None \<Longrightarrow> r \<notin> E"
  by (auto simp: usb_rep_def trans_rep_def)

lemma frame_out:
  assumes "usb_rep d qs (insert r E)" "usb_abs d qs \<sigma>" "r \<notin> E"
  shows "usb_rep (d\<lparr>d_frames := (d_frames d)(r := None)\<rparr>) qs E"
    "usb_abs (d\<lparr>d_frames := (d_frames d)(r := None)\<rparr>) qs \<sigma>"
proof -
  from assms(1) have t: "trans_rep (d_transactions d) (d_frames d) (active d @ qs) (insert r E)"
    by (simp add: usb_rep_def)
  note f = trans_rep_unframe [OF t assms(3)]
  show "usb_rep (d\<lparr>d_frames := (d_frames d)(r := None)\<rparr>) qs E"
    using assms(1) f(1) by (simp add: usb_rep_def active_def xfer_rep_def)
  have "map (item (d_transactions d) ((d_frames d)(r := None))) (active d @ qs) =
      map (item (d_transactions d) (d_frames d)) (active d @ qs)"
    by (rule map_cong [OF refl]) (rule f(2))
  with assms(2) show "usb_abs (d\<lparr>d_frames := (d_frames d)(r := None)\<rparr>) qs \<sigma>"
    by (auto simp: usb_abs_def active_def)
qed

lemma frame_fresh:
  assumes "usb_env_ok env" "usb_rep d qs E"
  obtains r where "daliframe_enew (ue_malloc env) ec ad cm (d_frames d) = Some (Some r,
      (d_frames d)(r \<mapsto> \<lparr>f_ecommand = ec, f_address = ad, f_command = cm\<rparr>))" "d_frames d r = None"
  using assms trans_rep_finite daliframe_enew_fresh [of "ue_malloc env" "d_frames d" ec ad cm]
  unfolding usb_env_ok_def usb_rep_def by blast

fun said_all :: "('o \<Rightarrow> 'w \<Rightarrow> 'w \<Rightarrow> bool) \<Rightarrow> 'o list \<Rightarrow> 'w \<Rightarrow> 'w \<Rightarrow> bool" where
  "said_all said [] w w' \<longleftrightarrow> w' = w"
| "said_all said (x # xs) w w' \<longleftrightarrow> (\<exists>w1. said x w w1 \<and> said_all said xs w1 w')"

lemma seq_match: "(word_of_nat (n mod 256) :: uint32) = ucast (b :: byte) \<longleftrightarrow> unat b = n mod 256"
proof -
  have "unat (word_of_nat (n mod 256) :: uint32) = n mod 256" by (simp add: unat_of_nat)
  moreover have "unat (ucast b :: uint32) = unat b"
    using unsigned_less [where 'a = nat, of b] by (simp add: unsigned_ucast_eq take_bit_nat_eq_self)
  ultimately show ?thesis by (metis word_unat_eq_iff)
qed

lemma usb_abs_phase [simp]: "usb_abs d qs (\<sigma>\<lparr>sp_phase := ph\<rparr>) = usb_abs d qs \<sigma>"
  by (simp add: usb_abs_def)

lemma spec_keep_next: "spec_keep keep \<sigma> \<sigma>' \<Longrightarrow> spec_keep keep (sp_next \<sigma>) (sp_next \<sigma>')"
  by (cases "sp_pending \<sigma>"; cases "sp_pending \<sigma>'") (auto simp: spec_keep_def sp_next_def)

lemma sp_next_pending [simp]: "sp_pending (sp_next \<sigma>) = sp_pending \<sigma>"
  by (simp add: sp_next_def)

text \<open>
  \<open>ready\<close>: the driver is wired to its client and the client accepts the arguments held.
  \<open>served\<close>: a handler ended as the specification says, up to the changes of arguments by the client.
\<close>

definition wired :: "'f \<Rightarrow> 'f \<Rightarrow> ptr \<Rightarrow> ('f, 'u) UsbDali \<Rightarrow> bool" where
  "wired req_fn bcast_fn barg d \<longleftrightarrow> d_req_callback d = Some req_fn \<and> d_bcast_callback d = Some bcast_fn \<and>
     d_bcast_arg d = barg \<and> \<not> d_shutdown d"

definition ready :: "'f \<Rightarrow> 'f \<Rightarrow> ptr \<Rightarrow> (ptr set \<Rightarrow> 'w \<Rightarrow> bool) \<Rightarrow> ('f, 'u) UsbDali \<Rightarrow> addr list \<Rightarrow> addr set \<Rightarrow>
    usb_spec \<Rightarrow> 'w \<Rightarrow> bool" where
  "ready req_fn bcast_fn barg cinv d qs E \<sigma> w \<longleftrightarrow> usb_rep d qs E \<and> usb_abs d qs \<sigma> \<and>
     wired req_fn bcast_fn barg d \<and> cinv (args d) w \<and> (d_transaction d = None \<longleftrightarrow> sp_phase \<sigma> = Idle)"

definition served :: "('w \<Rightarrow> 'w \<Rightarrow> ptr \<Rightarrow> ptr \<Rightarrow> bool) \<Rightarrow> (ptr set \<Rightarrow> 'w \<Rightarrow> bool) \<Rightarrow> (usb_out \<Rightarrow> 'w \<Rightarrow> 'w \<Rightarrow> bool) \<Rightarrow>
    ('f, 'u) UsbDali \<Rightarrow> addr set \<Rightarrow> 'w \<Rightarrow> usb_spec \<times> usb_out list \<Rightarrow> (('f, 'u) UsbDali \<times> 'w) option \<Rightarrow> bool" where
  "served keep cinv said d E w spec r \<longleftrightarrow> (\<exists>d' w' qs \<sigma>'. r = Some (d', w') \<and> usb_rep d' qs E \<and> usb_abs d' qs \<sigma>' \<and>
     spec_keep (keep w w') (fst spec) \<sigma>' \<and> said_all said (snd spec) w w' \<and> cinv (args d') w' \<and> link d' = link d \<and>
     (d_transaction d' = None \<longleftrightarrow> sp_phase (fst spec) = Idle))"

text \<open>\<open>follows\<close>: an event ended as the specification says, with a transfer under way.\<close>

definition follows :: "('w \<Rightarrow> 'w \<Rightarrow> ptr \<Rightarrow> ptr \<Rightarrow> bool) \<Rightarrow> (ptr set \<Rightarrow> 'w \<Rightarrow> bool) \<Rightarrow> (usb_out \<Rightarrow> 'w \<Rightarrow> 'w \<Rightarrow> bool) \<Rightarrow>
    ('f, 'u) UsbDali \<Rightarrow> addr set \<Rightarrow> 'w \<Rightarrow> usb_spec \<times> usb_out list \<Rightarrow> (('f, 'u) UsbDali \<times> 'w) option \<Rightarrow> bool" where
  "follows keep cinv said d E w spec r \<longleftrightarrow> (\<exists>d' w' \<sigma>'. r = Some (d', w') \<and> usb_sim d' \<sigma>' E \<and>
     spec_keep (keep w w') (fst spec) \<sigma>' \<and> said_all said (snd spec) w w' \<and> cinv (args d') w' \<and> busy d' \<and> config d' = config d)"

lemma usb_sim_args: "usb_sim d \<sigma> E \<Longrightarrow> args d = snd ` set (sp_pending \<sigma>)"
  unfolding usb_sim_def by (elim conjE exE) (rule args_eq)

text \<open>After the handlers, both callbacks free the transfer and go on.\<close>

lemma transfer_done:
  assumes env: "usb_env_ok env" and sim: "usb_rep d qs E" "usb_abs d qs \<sigma>"
    and tr: "d_recv_transfer d = Some tr \<and> d_send_transfer d = None \<or> d_send_transfer d = Some tr \<and> d_recv_transfer d = None"
    and ph: "d_transaction d = None \<longleftrightarrow> sp_phase \<sigma> = Idle" "sp_phase \<sigma> \<noteq> Sending"
  shows "\<exists>x d2 d'. d_transfers d tr = Some x \<and> free_buffer tr d = Some d2 \<and>
      d_recv_transfer d2 = d_recv_transfer d \<and> d_send_transfer d2 = d_send_transfer d \<and>
      libusb_free_transfer (Some tr) (d2\<lparr>d_recv_transfer := None\<rparr>) =
        Some (d\<lparr>d_recv_transfer := None, d_transfers := Map.empty\<rparr>) \<and>
      libusb_free_transfer (Some tr) (d2\<lparr>d_send_transfer := None\<rparr>) =
        Some (d\<lparr>d_send_transfer := None, d_transfers := Map.empty\<rparr>) \<and>
      usbdali_next env (d\<lparr>d_recv_transfer := None, d_send_transfer := None, d_transfers := Map.empty\<rparr>) = Some d' \<and>
      usb_sim d' (sp_next \<sigma>) E \<and> busy d' \<and> config d' = config d \<and> args d' = args d"
proof -
  from sim(1) have x: "xfer_rep d" by (simp add: usb_rep_def)
  then have dom: "dom (d_transfers d) = {tr}" using tr by (auto simp: xfer_rep_def)
  then obtain y where y: "d_transfers d tr = Some y" by blast
  with x have buf: "x_buffer y \<noteq> None" by (fastforce simp: xfer_rep_def)
  define d2 where "d2 = d\<lparr>d_transfers := (d_transfers d)(tr \<mapsto> y\<lparr>x_buffer := None\<rparr>)\<rparr>"
  have "dom ((d_transfers d)(tr := None)) = {}" using dom by simp
  then have e: "(d_transfers d)(tr := None) = Map.empty" by (simp only: dom_eq_empty_conv)
  have rel: "release (d_transfers d2) (Some tr) = Some Map.empty"
    by (simp add: release_def d2_def e del: fun_upd_apply add: fun_upd_same)
  let ?d4 = "d\<lparr>d_recv_transfer := None, d_send_transfer := None, d_transfers := Map.empty\<rparr>"
  have "phase_of ?d4 = sp_phase \<sigma>"
    using ph by (cases "sp_phase \<sigma>") (auto simp: phase_of_def)
  then have s4: "usb_sim ?d4 \<sigma> E"
    using sim by (auto simp: usb_sim_def usb_rep_def usb_abs_def active_def xfer_rep_def)
  from usbdali_next_sim [OF env this] obtain d' where
    d': "usbdali_next env ?d4 = Some d'" "usb_sim d' (sp_next \<sigma>) E" "busy d'" "config d' = config ?d4"
    by (auto simp: busy_def)
  have "args d' = args d"
    using usb_sim_args [OF d'(2)] args_eq [OF sim] by simp
  moreover have "free_buffer tr d = Some d2" using y buf by (simp add: free_buffer_def d2_def)
  moreover have "d_recv_transfer d2 = d_recv_transfer d" "d_send_transfer d2 = d_send_transfer d" "config d' = config d"
    using d'(4) by (simp_all add: d2_def config_def)
  moreover have "libusb_free_transfer (Some tr) (d2\<lparr>d_recv_transfer := None\<rparr>) =
      Some (d\<lparr>d_recv_transfer := None, d_transfers := Map.empty\<rparr>)"
    "libusb_free_transfer (Some tr) (d2\<lparr>d_send_transfer := None\<rparr>) =
      Some (d\<lparr>d_send_transfer := None, d_transfers := Map.empty\<rparr>)"
    using rel by (simp_all add: libusb_free_transfer_def) (simp_all add: d2_def)
  ultimately show ?thesis using y d'(1-3) by blast
qed

lemma complete_rep:
  assumes "usb_rep d qs E" "usb_abs d qs \<sigma>"
    and "\<And>x. x_callback (f x) = x_callback x" "\<And>x. \<exists>b. x_buffer x = Some b \<and> length b = USBDALI_LENGTH \<Longrightarrow>
      \<exists>b. x_buffer (f x) = Some b \<and> length b = USBDALI_LENGTH"
  shows "usb_rep (complete env tr f d) qs E" "usb_abs (complete env tr f d) qs \<sigma>"
proof -
  from assms(1) have x: "xfer_rep d" by (simp add: usb_rep_def)
  have "dom ((d_transfers d)(tr := map_option f (d_transfers d tr))) = dom (d_transfers d)"
    by (auto split: if_splits)
  then have "xfer_rep (complete env tr f d)"
    using x assms(3,4) by (auto simp: xfer_rep_def complete_def split: if_splits)
  with assms(1) show "usb_rep (complete env tr f d) qs E"
    by (simp add: usb_rep_def complete_def active_def)
  show "usb_abs (complete env tr f d) qs \<sigma>"
    using assms(2) by (auto simp: usb_abs_def complete_def active_def)
qed

lemma complete_simps [simp]:
  "d_recv_transfer (complete env tr f d) = d_recv_transfer d" "d_send_transfer (complete env tr f d) = d_send_transfer d"
  "d_transaction (complete env tr f d) = d_transaction d" "config (complete env tr f d) = config d"
  "args (complete env tr f d) = args d" "wired rf bf ba (complete env tr f d) = wired rf bf ba d"
  "d_transfers (complete env tr f d) tr = map_option f (d_transfers d tr)"
  by (simp_all add: complete_def config_def args_def wired_def)

lemma sp_answer_phase: "sp_phase (fst (sp_answer err f r st \<sigma>)) = Idle" "sp_phase (fst (sp_fail err \<sigma>)) = Idle"
  by (simp_all add: sp_fail_def sp_answer_def)

lemma sp_done_phase: "sp_phase (fst (sp_sent_done st \<sigma>)) \<noteq> Sending"
  by (cases st) (simp_all add: sp_answer_phase)

lemma sp_received_phase: "sp_phase \<sigma> \<noteq> Sending \<Longrightarrow> sp_phase (fst (sp_received st n bs \<sigma>)) \<noteq> Sending"
  by (cases st) (simp_all add: sp_answer_phase sp_packet_def)

lemma wired_link: "link d' = link d \<Longrightarrow> wired rf bf ba d' = wired rf bf ba d"
  by (simp add: wired_def link_def config_def)

lemma spec_keep_answer:
  "spec_keep keep \<sigma> \<sigma>' \<Longrightarrow> spec_keep keep (\<sigma>\<lparr>sp_phase := ph, sp_pending := tl (sp_pending \<sigma>)\<rparr>)
     (\<sigma>'\<lparr>sp_phase := ph, sp_pending := tl (sp_pending \<sigma>')\<rparr>)"
  by (cases "sp_pending \<sigma>"; cases "sp_pending \<sigma>'") (auto simp: spec_keep_def)

lemma spec_keep_refl: "(\<And>x. keep x x) \<Longrightarrow> spec_keep keep \<sigma> \<sigma>"
  by (auto simp: spec_keep_def rel_prod_sel intro!: list.rel_refl)

section \<open>The contract of the client\<close>

locale usb_client =
  fixes call_req :: "('f, 'u, 'w) req_call"
    and call_bcast :: "('f, 'u, 'w) bcast_call"
    and req_fn :: 'f and bcast_fn :: 'f and barg :: ptr
    and keep :: "'w \<Rightarrow> 'w \<Rightarrow> ptr \<Rightarrow> ptr \<Rightarrow> bool"
    and cinv :: "ptr set \<Rightarrow> 'w \<Rightarrow> bool"
    and said :: "usb_out \<Rightarrow> 'w \<Rightarrow> 'w \<Rightarrow> bool"
  assumes keep_refl: "keep w w x x"
    and cinv_mono: "cinv A w \<Longrightarrow> B \<subseteq> A \<Longrightarrow> cinv B w"
    and cinv_null: "cinv A w \<Longrightarrow> cinv (insert None A) w"
    and req: "usb_rep d qs E \<Longrightarrow> cinv (args d) w \<Longrightarrow> arg \<in> args d \<Longrightarrow> deref (d_frames d) frame = Some f \<Longrightarrow>
      \<exists>ts w'. call_req req_fn err frame response status arg (d, w) = Some (d\<lparr>d_transactions := ts\<rparr>, w') \<and>
        relabelled (keep w w') (d_transactions d) ts \<and> cinv (args (d\<lparr>d_transactions := ts\<rparr>)) w' \<and>
        said (Reply err f response status arg) w w'"
    and bcast: "usb_rep d qs E \<Longrightarrow> cinv (args d) w \<Longrightarrow> map_option Some (deref (d_frames d) frame) = Some fo \<or>
        frame = None \<and> fo = None \<and> err = USBDALI_RECEIVE_ERROR \<Longrightarrow>
      \<exists>ts w'. call_bcast bcast_fn err frame status barg (d, w) = Some (d\<lparr>d_transactions := ts\<rparr>, w') \<and>
        relabelled (keep w w') (d_transactions d) ts \<and> cinv (args (d\<lparr>d_transactions := ts\<rparr>)) w' \<and>
        said (Bcast err fo status) w w'"
begin

lemma req_callback_ok:
  assumes rep: "usb_rep d qs E" and abs: "usb_abs d qs \<sigma>" and w: "wired req_fn bcast_fn barg d" "cinv (args d) w"
    and a: "d_transaction d = Some a" and f: "deref (d_frames d) frame = Some f"
  shows "\<exists>ts w' \<sigma>'. req_callback call_req err frame response status (d, w) = Some (d\<lparr>d_transactions := ts\<rparr>, w') \<and>
    usb_rep (d\<lparr>d_transactions := ts\<rparr>) qs E \<and> usb_abs (d\<lparr>d_transactions := ts\<rparr>) qs \<sigma>' \<and> spec_keep (keep w w') \<sigma> \<sigma>' \<and>
    cinv (args (d\<lparr>d_transactions := ts\<rparr>)) w' \<and> said (Reply err f response status (snd (hd (sp_pending \<sigma>)))) w w'"
proof -
  from rep abs a obtain t where t: "d_transactions d a = Some t" "snd (hd (sp_pending \<sigma>)) = t_arg t" "t_arg t \<in> args d"
    by (rule first_pending) simp
  from req [OF rep w(2) t(3) f, of err response status] obtain ts w' where
    ts: "call_req req_fn err frame response status (t_arg t) (d, w) = Some (d\<lparr>d_transactions := ts\<rparr>, w')"
      "relabelled (keep w w') (d_transactions d) ts" "cinv (args (d\<lparr>d_transactions := ts\<rparr>)) w'"
      "said (Reply err f response status (t_arg t)) w w'" by blast
  from ts(2) rep abs obtain \<sigma>' where "usb_abs (d\<lparr>d_transactions := ts\<rparr>) qs \<sigma>'" "spec_keep (keep w w') \<sigma> \<sigma>'"
    by (rule relabel_abs)
  moreover have "req_callback call_req err frame response status (d, w) = Some (d\<lparr>d_transactions := ts\<rparr>, w')"
    using w(1) a t(1) ts(1) by (simp add: req_callback_def wired_def)
  ultimately show ?thesis using relabel_rep [OF ts(2) rep] ts(3,4) t(2) by (intro exI conjI) auto
qed

lemma fail_served:
  assumes pre: "ready req_fn bcast_fn barg cinv d qs E \<sigma> w" and a: "sp_phase \<sigma> \<noteq> Idle"
  shows "served keep cinv said d E w (sp_fail err \<sigma>) (fail_transaction call_req err (d, w))"
proof -
  from pre have p: "usb_rep d qs E" "usb_abs d qs \<sigma>" "wired req_fn bcast_fn barg d" "cinv (args d) w"
    by (simp_all add: ready_def)
  from pre a obtain b where b: "d_transaction d = Some b" by (auto simp: ready_def)
  from p(1,2) b obtain t r f where t: "d_transactions d b = Some t" "t_request t = Some r" "d_frames d r = Some f"
      "hd (sp_pending \<sigma>) = (f, t_arg t)" by (rule first_pending)
  have fr: "deref (d_frames d) (t_request t) = Some f" using t by simp
  from req_callback_ok [OF p b fr, of err "0xff" "0xffff"] obtain ts w' \<sigma>' where
    r: "req_callback call_req err (t_request t) 0xff 0xffff (d, w) = Some (d\<lparr>d_transactions := ts\<rparr>, w')"
      "usb_rep (d\<lparr>d_transactions := ts\<rparr>) qs E" "usb_abs (d\<lparr>d_transactions := ts\<rparr>) qs \<sigma>'" "spec_keep (keep w w') \<sigma> \<sigma>'"
      "cinv (args (d\<lparr>d_transactions := ts\<rparr>)) w'"
      "said (Reply err f 0xff 0xffff (snd (hd (sp_pending \<sigma>)))) w w'" by blast
  have "d_transaction (d\<lparr>d_transactions := ts\<rparr>) = Some b" using b by simp
  from end_transaction_ok [OF r(2,3) this, of w' Idle] obtain d' where
    d': "end_transaction (d\<lparr>d_transactions := ts\<rparr>, w') = Some (d', w')" "usb_rep d' qs E"
      "usb_abs d' qs (\<sigma>'\<lparr>sp_phase := Idle, sp_pending := tl (sp_pending \<sigma>')\<rparr>)" "d_transaction d' = None"
      "link d' = link (d\<lparr>d_transactions := ts\<rparr>)" "args d' \<subseteq> args (d\<lparr>d_transactions := ts\<rparr>)" by blast
  have "fail_transaction call_req err (d, w) = Some (d', w')"
    using b t(1) r(1) d'(1) by (simp add: fail_transaction_def)
  moreover have "link d' = link d" using d'(5) by (simp add: link_def config_def)
  ultimately show ?thesis
    using d'(2,3,4) cinv_mono [OF r(5) d'(6)] r(6) spec_keep_answer [OF r(4)] t(4)
    by (auto simp: served_def sp_fail_def sp_answer_def)
qed

lemma answer_served:
  assumes env: "usb_env_ok env" and pre: "ready req_fn bcast_fn barg cinv d qs E \<sigma> w" and a: "sp_phase \<sigma> \<noteq> Idle"
  shows "served keep cinv said d E w (sp_answer err (dali_frame 0 i) response (ucast (in_status i)) \<sigma>)
           (answer_transaction env call_req err response i (d, w))"
proof -
  from pre have p: "usb_rep d qs E" "usb_abs d qs \<sigma>" "wired req_fn bcast_fn barg d" "cinv (args d) w"
    by (simp_all add: ready_def)
  from pre a obtain b where b: "d_transaction d = Some b" by (auto simp: ready_def)
  obtain r where r: "daliframe_new (ue_malloc env) (in_address i) (in_command i) (d_frames d) = Some (Some r,
      (d_frames d)(r \<mapsto> dali_frame 0 i))" "d_frames d r = None"
    using frame_fresh [OF env p(1)] by (metis daliframe_new_is_enew dali_frame_def)
  define d1 where "d1 = d\<lparr>d_frames := (d_frames d)(r \<mapsto> dali_frame 0 i)\<rparr>"
  note d1 = frame_in [OF p(1,2) r(2), where f = "dali_frame 0 i", folded d1_def] frame_notin [OF p(1) r(2)]
  have p1: "wired req_fn bcast_fn barg d1" "cinv (args d1) w" "d_transaction d1 = Some b"
      "deref (d_frames d1) (Some r) = Some (dali_frame 0 i)"
    using p(3,4) b by (simp_all add: d1_def wired_def args_def)
  from req_callback_ok [OF d1(1,2) p1, of err response "ucast (in_status i)"] obtain ts w' \<sigma>' where
    c: "req_callback call_req err (Some r) response (ucast (in_status i)) (d1, w) = Some (d1\<lparr>d_transactions := ts\<rparr>, w')"
      "usb_rep (d1\<lparr>d_transactions := ts\<rparr>) qs (insert r E)" "usb_abs (d1\<lparr>d_transactions := ts\<rparr>) qs \<sigma>'"
      "spec_keep (keep w w') \<sigma> \<sigma>'" "cinv (args (d1\<lparr>d_transactions := ts\<rparr>)) w'"
      "said (Reply err (dali_frame 0 i) response (ucast (in_status i)) (snd (hd (sp_pending \<sigma>)))) w w'" by blast
  define d2 where "d2 = d1\<lparr>d_transactions := ts, d_frames := (d_frames d1)(r := None)\<rparr>"
  have d2: "usb_rep d2 qs E" "usb_abs d2 qs \<sigma>'" "d_transaction d2 = Some b"
    using frame_out [OF c(2,3) d1(3)] p1(3) by (simp_all add: d2_def)
  from end_transaction_ok [OF this, of w' Idle] obtain d' where
    d': "end_transaction (d2, w') = Some (d', w')" "usb_rep d' qs E"
      "usb_abs d' qs (\<sigma>'\<lparr>sp_phase := Idle, sp_pending := tl (sp_pending \<sigma>')\<rparr>)" "d_transaction d' = None"
      "link d' = link d2" "args d' \<subseteq> args d2" by blast
  have "answer_transaction env call_req err response i (d, w) = Some (d', w')"
    using r(1) c(1) d'(1) by (simp add: answer_transaction_def d1_def d2_def daliframe_free_def)
  moreover have "link d' = link d" "args d' \<subseteq> args (d1\<lparr>d_transactions := ts\<rparr>)"
    using d'(5,6) by (simp_all add: link_def config_def d2_def d1_def args_def)
  ultimately show ?thesis
    using d'(2-4) cinv_mono [OF c(5)] c(6) spec_keep_answer [OF c(4), of Idle] by (auto simp: served_def sp_answer_def)
qed

lemma bcast_served:
  assumes pre: "ready req_fn bcast_fn barg cinv d qs E \<sigma> w"
    and f: "map_option Some (deref (d_frames d) frame) = Some fo \<or> frame = None \<and> fo = None \<and> err = USBDALI_RECEIVE_ERROR"
  shows "\<exists>ts w' \<sigma>'. bcast_callback call_bcast err frame status (d, w) = Some (d\<lparr>d_transactions := ts\<rparr>, w') \<and>
    usb_rep (d\<lparr>d_transactions := ts\<rparr>) qs E \<and> usb_abs (d\<lparr>d_transactions := ts\<rparr>) qs \<sigma>' \<and> spec_keep (keep w w') \<sigma> \<sigma>' \<and>
    cinv (args (d\<lparr>d_transactions := ts\<rparr>)) w' \<and> said (Bcast err fo status) w w'"
proof -
  from pre have p: "usb_rep d qs E" "usb_abs d qs \<sigma>" "wired req_fn bcast_fn barg d" "cinv (args d) w"
    by (simp_all add: ready_def)
  from bcast [OF p(1,4) f, of status] obtain ts w' where
    ts: "call_bcast bcast_fn err frame status barg (d, w) = Some (d\<lparr>d_transactions := ts\<rparr>, w')"
      "relabelled (keep w w') (d_transactions d) ts" "cinv (args (d\<lparr>d_transactions := ts\<rparr>)) w'"
      "said (Bcast err fo status) w w'" by blast
  from ts(2) p(1,2) obtain \<sigma>' where "usb_abs (d\<lparr>d_transactions := ts\<rparr>) qs \<sigma>'" "spec_keep (keep w w') \<sigma> \<sigma>'"
    by (rule relabel_abs)
  moreover have "bcast_callback call_bcast err frame status (d, w) = Some (d\<lparr>d_transactions := ts\<rparr>, w')"
    using p(3) ts(1) by (simp add: bcast_callback_def wired_def)
  ultimately show ?thesis using relabel_rep [OF ts(2) p(1)] ts(3,4) by blast
qed

lemma broadcast_served:
  assumes pre: "ready req_fn bcast_fn barg cinv d qs E \<sigma> w"
    and new: "new (d_frames d) = Some (Some r, (d_frames d)(r \<mapsto> f))" "d_frames d r = None"
  shows "served keep cinv said d E w (\<sigma>, [Bcast USBDALI_SUCCESS (Some f) (ucast (in_status i))])
           (broadcast_frame call_bcast new i (d, w))"
proof -
  from pre have p: "usb_rep d qs E" "usb_abs d qs \<sigma>" "wired req_fn bcast_fn barg d" "cinv (args d) w"
    by (simp_all add: ready_def)
  define d1 where "d1 = d\<lparr>d_frames := (d_frames d)(r \<mapsto> f)\<rparr>"
  note d1 = frame_in [OF p(1,2) new(2), where f = f, folded d1_def] frame_notin [OF p(1) new(2)]
  have "ready req_fn bcast_fn barg cinv d1 qs (insert r E) \<sigma> w"
    using pre d1 by (simp add: ready_def d1_def wired_def args_def)
  from bcast_served [OF this, of "Some r" "Some f" USBDALI_SUCCESS "ucast (in_status i)"] obtain ts w' \<sigma>' where
    c: "bcast_callback call_bcast USBDALI_SUCCESS (Some r) (ucast (in_status i)) (d1, w) = Some (d1\<lparr>d_transactions := ts\<rparr>, w')"
      "usb_rep (d1\<lparr>d_transactions := ts\<rparr>) qs (insert r E)" "usb_abs (d1\<lparr>d_transactions := ts\<rparr>) qs \<sigma>'"
      "spec_keep (keep w w') \<sigma> \<sigma>'" "cinv (args (d1\<lparr>d_transactions := ts\<rparr>)) w'"
      "said (Bcast USBDALI_SUCCESS (Some f) (ucast (in_status i))) w w'" by (auto simp: d1_def)
  define d2 where "d2 = d1\<lparr>d_transactions := ts, d_frames := (d_frames d1)(r := None)\<rparr>"
  have d2: "usb_rep d2 qs E" "usb_abs d2 qs \<sigma>'"
    using frame_out [OF c(2,3) d1(3)] by (simp_all add: d2_def)
  have "broadcast_frame call_bcast new i (d, w) = Some (d2, w')"
    using new(1) c(1) by (simp add: broadcast_frame_def d1_def d2_def daliframe_free_def)
  moreover have "link d2 = link d" "args d2 = args (d1\<lparr>d_transactions := ts\<rparr>)" "d_transaction d2 = d_transaction d"
    by (simp_all add: link_def config_def d2_def d1_def args_def)
  ultimately show ?thesis
    using d2 c(4-6) pre by (auto simp: served_def ready_def)
qed

lemma idle_served: "ready req_fn bcast_fn barg cinv d qs E \<sigma> w \<Longrightarrow> served keep cinv said d E w (\<sigma>, []) (Some (d, w))"
  using spec_keep_refl [of "keep w w" \<sigma>] keep_refl by (auto simp: served_def ready_def)

lemma packet_served:
  assumes env: "usb_env_ok env" and pre: "ready req_fn bcast_fn barg cinv d qs E \<sigma> w"
  shows "served keep cinv said d E w (sp_packet i \<sigma>) (receive_packet env call_req call_bcast i (d, w))"
proof -
  note defs = receive_packet_def sp_packet_def USBDALI_DIRECTION_DALI_def USBDALI_DIRECTION_USB_def
    USBDALI_TYPE_COMPLETE_def USBDALI_TYPE_BROADCAST_def USBDALI_TYPE_NO_RESPONSE_def USBDALI_TYPE_RESPONSE_def
  from pre have p: "usb_rep d qs E" "usb_abs d qs \<sigma>" "d_transaction d = None \<longleftrightarrow> sp_phase \<sigma> = Idle"
    by (simp_all add: ready_def)
  note new = frame_fresh [OF env p(1), where ad = "in_address i" and cm = "in_command i", folded dali_frame_def]
  consider (bus) "in_direction i = 0x11" | (idle) "in_direction i = 0x12" "d_transaction d = None"
    | (usb) a where "in_direction i = 0x12" "d_transaction d = Some a" | (other) "in_direction i \<notin> {0x11, 0x12}"
    by auto
  then show ?thesis
  proof cases
    case bus
    have "served keep cinv said d E w (\<sigma>, [Bcast USBDALI_SUCCESS (Some (dali_frame ec i)) (ucast (in_status i))])
        (broadcast_frame call_bcast (daliframe_enew (ue_malloc env) ec (in_address i) (in_command i)) i (d, w))" for ec
      by (rule new [of ec]) (rule broadcast_served [OF pre])
    with bus idle_served [OF pre] show ?thesis by (simp add: defs daliframe_new_is_enew)
  next
    case usb
    with p(3) have ph: "sp_phase \<sigma> \<noteq> Idle" by simp
    from p(1,2) usb(2) obtain t where t: "d_transactions d a = Some t" "t_seq_num t = word_of_nat (sp_sent \<sigma> mod 256)"
      by (rule first_pending) simp
    with usb ph idle_served [OF pre] answer_served [OF env pre ph] show ?thesis
      by (simp add: defs seq_match)
  qed (use p(3) idle_served [OF pre] in \<open>simp_all add: defs\<close>)
qed

lemma received_served:
  assumes env: "usb_env_ok env" and pre: "ready req_fn bcast_fn barg cinv d qs E \<sigma> w"
    and x: "x_buffer x = Some bs" "length bs = USBDALI_LENGTH" "x_actual_length x \<le> USBDALI_LENGTH"
  shows "served keep cinv said d E w (sp_received (x_status x) (x_actual_length x) bs \<sigma>)
           (receive_status env call_req call_bcast x (d, w))"
proof -
  have tr: "d_transaction d = None \<longleftrightarrow> sp_phase \<sigma> = Idle" using pre by (simp add: ready_def)
  have err: "served keep cinv said d E w (\<sigma>, [Bcast USBDALI_RECEIVE_ERROR None 0xffff])
      (bcast_callback call_bcast USBDALI_RECEIVE_ERROR None 0xffff (d, w))" if "d_transaction d = None"
    using bcast_served [OF pre, of None None USBDALI_RECEIVE_ERROR "0xffff"] that tr
    by (fastforce simp: served_def link_def config_def)
  show ?thesis
    using tr err idle_served [OF pre] fail_served [OF pre] packet_served [OF env pre] unpack_in_eq [OF x(2,3)] x(1)
    by (cases "x_status x") (simp_all add: receive_status_def)
qed

lemma sent_served:
  assumes pre: "ready req_fn bcast_fn barg cinv d qs E \<sigma> w" and ph: "sp_phase \<sigma> \<noteq> Idle"
  shows "served keep cinv said d E w (sp_sent_done (x_status x) \<sigma>) (send_status call_req x (d, w))"
proof -
  have "ready req_fn bcast_fn barg cinv d qs E (\<sigma>\<lparr>sp_phase := Awaiting\<rparr>) w"
    using pre ph by (simp add: ready_def)
  from idle_served [OF this] fail_served [OF pre ph] show ?thesis
    by (cases "x_status x") (simp_all add: send_status_def)
qed

lemma served_follows:
  assumes env: "usb_env_ok env" and s: "served keep cinv said d E w spec r" and w: "wired req_fn bcast_fn barg d"
    and ph: "sp_phase (fst spec) \<noteq> Sending"
  shows "d_recv_transfer d = Some tr \<Longrightarrow> d_send_transfer d = None \<Longrightarrow>
      d_transfers d tr = Some x \<Longrightarrow> receive_status env call_req call_bcast x (d, w) = r \<Longrightarrow>
      follows keep cinv said d E w (apfst sp_next spec) (usbdali_receive_callback env call_req call_bcast tr (d, w))"
    and "d_send_transfer d = Some tr \<Longrightarrow> d_recv_transfer d = None \<Longrightarrow>
      d_transfers d tr = Some x \<Longrightarrow> send_status call_req x (d, w) = r \<Longrightarrow>
      follows keep cinv said d E w (apfst sp_next spec) (usbdali_send_callback env call_req tr (d, w))"
proof -
  from s obtain d1 w1 qs \<sigma>1 where d1: "r = Some (d1, w1)" "usb_rep d1 qs E" "usb_abs d1 qs \<sigma>1"
      "spec_keep (keep w w1) (fst spec) \<sigma>1" "said_all said (snd spec) w w1" "cinv (args d1) w1" "link d1 = link d"
      "d_transaction d1 = None \<longleftrightarrow> sp_phase (fst spec) = Idle" by (auto simp: served_def)
  have k: "d_recv_transfer d1 = d_recv_transfer d" "d_send_transfer d1 = d_send_transfer d"
      "config d1 = config d" "\<not> d_shutdown d1"
    using d1(7) w by (simp_all add: link_def config_def wired_def)
  have ph1: "d_transaction d1 = None \<longleftrightarrow> sp_phase \<sigma>1 = Idle" "sp_phase \<sigma>1 \<noteq> Sending"
    using d1(4,8) ph by (simp_all add: spec_keep_def)
  note keep = spec_keep_next [OF d1(4)]
  {
    assume a: "d_recv_transfer d = Some tr" "d_send_transfer d = None" "d_transfers d tr = Some x"
      "receive_status env call_req call_bcast x (d, w) = r"
    have "d_recv_transfer d1 = Some tr \<and> d_send_transfer d1 = None \<or> d_send_transfer d1 = Some tr \<and> d_recv_transfer d1 = None"
      using a k by simp
    from transfer_done [OF env d1(2,3) this ph1] obtain d2 d' where
      t: "free_buffer tr d1 = Some d2" "d_recv_transfer d2 = Some tr"
        "libusb_free_transfer (Some tr) (d2\<lparr>d_recv_transfer := None\<rparr>) =
           Some (d1\<lparr>d_recv_transfer := None, d_transfers := Map.empty\<rparr>)"
        "usbdali_next env (d1\<lparr>d_recv_transfer := None, d_send_transfer := None, d_transfers := Map.empty\<rparr>) = Some d'"
        "usb_sim d' (sp_next \<sigma>1) E" "busy d'" "config d' = config d1" "args d' = args d1"
      using a k by auto
    have "d1\<lparr>d_recv_transfer := None, d_send_transfer := None, d_transfers := Map.empty\<rparr> =
        d1\<lparr>d_recv_transfer := None, d_transfers := Map.empty\<rparr>" using a(2) k(2) by simp
    with t a d1(1) k(4) have "usbdali_receive_callback env call_req call_bcast tr (d, w) = Some (d', w1)"
      by (simp add: usbdali_receive_callback_def)
    with t(5-8) d1(5,6) k(3) keep
    show "follows keep cinv said d E w (apfst sp_next spec) (usbdali_receive_callback env call_req call_bcast tr (d, w))"
      by (auto simp: follows_def)
  next
    assume a: "d_send_transfer d = Some tr" "d_recv_transfer d = None" "d_transfers d tr = Some x"
      "send_status call_req x (d, w) = r"
    have "d_recv_transfer d1 = Some tr \<and> d_send_transfer d1 = None \<or> d_send_transfer d1 = Some tr \<and> d_recv_transfer d1 = None"
      using a k by simp
    from transfer_done [OF env d1(2,3) this ph1] obtain d2 d' where
      t: "free_buffer tr d1 = Some d2" "d_send_transfer d2 = Some tr"
        "libusb_free_transfer (Some tr) (d2\<lparr>d_send_transfer := None\<rparr>) =
           Some (d1\<lparr>d_send_transfer := None, d_transfers := Map.empty\<rparr>)"
        "usbdali_next env (d1\<lparr>d_recv_transfer := None, d_send_transfer := None, d_transfers := Map.empty\<rparr>) = Some d'"
        "usb_sim d' (sp_next \<sigma>1) E" "busy d'" "config d' = config d1" "args d' = args d1"
      using a k by auto
    have "d1\<lparr>d_recv_transfer := None, d_send_transfer := None, d_transfers := Map.empty\<rparr> =
        d1\<lparr>d_send_transfer := None, d_transfers := Map.empty\<rparr>" using a(2) k(1) by simp
    with t a d1(1) k(4) have "usbdali_send_callback env call_req tr (d, w) = Some (d', w1)"
      by (simp add: usbdali_send_callback_def)
    with t(5-8) d1(5,6) k(3) keep
    show "follows keep cinv said d E w (apfst sp_next spec) (usbdali_send_callback env call_req tr (d, w))"
      by (auto simp: follows_def)
  }
qed

lemma quiet_follows:
  "usb_sim d' \<sigma> E \<Longrightarrow> cinv (args d') w \<Longrightarrow> busy d' \<Longrightarrow> config d' = config d \<Longrightarrow>
     follows keep cinv said d E w (\<sigma>, []) (Some (d', w))"
  using spec_keep_refl [of "keep w w" \<sigma>] keep_refl by (auto simp: follows_def)

lemma send_done_follows:
  assumes env: "usb_env_ok env" and sim: "usb_sim d \<sigma> E" and w: "wired req_fn bcast_fn barg d" "cinv (args d) w"
    and tr: "d_send_transfer d = Some tr"
  shows "follows keep cinv said d E w (apfst sp_next (sp_sent_done st \<sigma>))
    (usb_event_step env call_req call_bcast (Send_done st) (d, w))"
proof -
  let ?f = "\<lambda>x. x\<lparr>x_status := st, x_actual_length := USBDALI_LENGTH\<rparr>"
  from sim obtain qs where q: "usb_rep d qs E" "usb_abs d qs \<sigma>" by (auto simp: usb_sim_def)
  have ph: "sp_phase \<sigma> = Sending" "d_transaction d \<noteq> None" using sim tr by (auto simp: usb_sim_def phase_of_def)
  have "xfer_rep d" using q(1) by (simp add: usb_rep_def)
  then have "d_recv_transfer d = None" "tr \<in> dom (d_transfers d)" using tr by (simp_all add: xfer_rep_def)
  then obtain x where x: "d_recv_transfer d = None" "d_transfers d tr = Some x" by blast
  have rep: "usb_rep (complete env tr ?f d) qs E" "usb_abs (complete env tr ?f d) qs \<sigma>"
    by (rule complete_rep [OF q]; simp)+
  have "ready req_fn bcast_fn barg cinv (complete env tr ?f d) qs E \<sigma> w"
    using rep w ph by (simp add: ready_def)
  from sent_served [OF this, of "?f x"] ph(1)
  have s: "served keep cinv said (complete env tr ?f d) E w (sp_sent_done st \<sigma>)
      (send_status call_req (?f x) (complete env tr ?f d, w))" by simp
  have "wired req_fn bcast_fn barg (complete env tr ?f d)" using w(1) by simp
  from served_follows(2) [OF env s this sp_done_phase _ _ _ refl] tr x
  have "follows keep cinv said (complete env tr ?f d) E w (apfst sp_next (sp_sent_done st \<sigma>))
      (usbdali_send_callback env call_req tr (complete env tr ?f d, w))" by simp
  with tr show ?thesis by (simp add: follows_def)
qed

lemma receive_done_follows:
  assumes env: "usb_env_ok env" and sim: "usb_sim d \<sigma> E" and w: "wired req_fn bcast_fn barg d" "cinv (args d) w"
    and tr: "d_recv_transfer d = Some tr" and bs: "length bs = USBDALI_LENGTH" "n \<le> USBDALI_LENGTH"
  shows "follows keep cinv said d E w (apfst sp_next (sp_received st n bs \<sigma>))
    (usb_event_step env call_req call_bcast (Receive_done st n bs) (d, w))"
proof -
  let ?f = "\<lambda>x. x\<lparr>x_status := st, x_actual_length := n, x_buffer := Some bs\<rparr>"
  from sim obtain qs where q: "usb_rep d qs E" "usb_abs d qs \<sigma>" by (auto simp: usb_sim_def)
  have xr: "xfer_rep d" using q(1) by (simp add: usb_rep_def)
  then have ns: "d_send_transfer d = None" using tr by (auto simp: xfer_rep_def)
  then have ph: "d_transaction d = None \<longleftrightarrow> sp_phase \<sigma> = Idle" "sp_phase \<sigma> \<noteq> Sending"
    using sim by (auto simp: usb_sim_def phase_of_def)
  from xr tr have "tr \<in> dom (d_transfers d)" by (simp add: xfer_rep_def)
  then obtain x where x: "d_transfers d tr = Some x" by blast
  have rep: "usb_rep (complete env tr ?f d) qs E" "usb_abs (complete env tr ?f d) qs \<sigma>"
    by (rule complete_rep [OF q]; simp add: bs)+
  have "ready req_fn bcast_fn barg cinv (complete env tr ?f d) qs E \<sigma> w"
    using rep w ph by (simp add: ready_def)
  from received_served [OF env this, of "?f x" bs] bs
  have s: "served keep cinv said (complete env tr ?f d) E w (sp_received st n bs \<sigma>)
      (receive_status env call_req call_bcast (?f x) (complete env tr ?f d, w))" by simp
  have "wired req_fn bcast_fn barg (complete env tr ?f d)" using w(1) by simp
  from served_follows(1) [OF env s this sp_received_phase [OF ph(2)] _ _ _ refl] tr x ns
  have "follows keep cinv said (complete env tr ?f d) E w (apfst sp_next (sp_received st n bs \<sigma>))
      (usbdali_receive_callback env call_req call_bcast tr (complete env tr ?f d, w))" by simp
  with tr show ?thesis by (simp add: follows_def)
qed

lemma request_follows:
  assumes env: "usb_env_ok env" and sim: "usb_sim d \<sigma> E" and b: "busy d" and w: "cinv (insert arg (args d)) w"
  shows "\<exists>E'. E \<subseteq> E' \<and> follows keep cinv said d E' w (usb_spec_step (unat (d_queue_size d)) (Request ec ad cm arg) \<sigma>)
    (usb_event_step env call_req call_bcast (Request ec ad cm arg) (d, w))"
proof -
  let ?f = "\<lparr>f_ecommand = ec, f_address = ad, f_command = cm\<rparr>"
  from sim obtain qs where q: "usb_rep d qs E" "usb_abs d qs \<sigma>" by (auto simp: usb_sim_def)
  from env q(1) obtain r where r: "daliframe_enew (ue_malloc env) ec ad cm (d_frames d) =
      Some (Some r, (d_frames d)(r \<mapsto> ?f))" "d_frames d r = None" by (rule frame_fresh)
  define d1 where "d1 = d\<lparr>d_frames := (d_frames d)(r \<mapsto> ?f)\<rparr>"
  have "usb_sim d1 \<sigma> (insert r E)"
    using frame_in [OF q r(2), where f = ?f] sim by (auto simp: usb_sim_def phase_of_def d1_def)
  moreover have d1: "d_frames d1 r = Some ?f" "d_queue_size d1 = d_queue_size d" "busy d1" "config d1 = config d"
      "args d1 = args d"
    using b by (simp_all add: d1_def busy_def config_def args_def)
  ultimately show ?thesis
  proof (cases "sp_waiting \<sigma> < unat (d_queue_size d)")
    case True
    assume s1: "usb_sim d1 \<sigma> (insert r E)"
    from usbdali_queue_sim [OF env s1 frame_notin [OF q(1) r(2)] d1(1), of arg] True d1 obtain d' where
      d': "usbdali_queue env (Some d1) (Some r) arg = Some (USBDALI_SUCCESS, Some d')"
        "usb_sim d' (sp_request ?f arg \<sigma>) E" "busy d'" "config d' = config d" by auto
    have "args d' \<subseteq> insert arg (args d)"
      using usb_sim_args [OF d'(2)] usb_sim_args [OF sim] by (auto simp: sp_request_def)
    from quiet_follows [OF d'(2) cinv_mono [OF w this] d'(3,4)] d'(1) True r(1) show ?thesis
      by (intro exI [of _ E]) (simp add: d1_def)
  next
    case False
    assume s1: "usb_sim d1 \<sigma> (insert r E)"
    have "usbdali_queue env (Some d1) (Some r) arg = Some (USBDALI_QUEUE_FULL, Some d1)"
      using False d1(2) by (intro usbdali_queue_full [OF s1]) simp
    moreover have "cinv (args d1) w" using cinv_mono [OF w] d1(5) by auto
    from quiet_follows [OF s1 this d1(3,4)]
    have "follows keep cinv said d (insert r E) w (\<sigma>, []) (Some (d1, w))" .
    ultimately show ?thesis
      using False r(1) by (intro exI [of _ "insert r E"]) (auto simp: d1_def)
  qed
qed

lemma cancel_follows:
  assumes sim: "usb_sim d \<sigma> E" and b: "busy d" and w: "cinv (args d) w"
  shows "follows keep cinv said d E w (sp_cancel arg \<sigma>, [])
    (usb_event_step env call_req call_bcast (Cancel arg) (d, w))"
proof -
  obtain d' where d': "usbdali_cancel (Some d) arg = Some (Some d')" "usb_sim d' (sp_cancel arg \<sigma>) E" "busy d'"
      "config d' = config d"
    using usbdali_cancel_sim [OF sim, of arg] b by auto
  have "args d' \<subseteq> insert None (args d)"
    using usb_sim_args [OF d'(2)] usb_sim_args [OF sim] by (force simp: sp_cancel_def)
  from quiet_follows [OF d'(2) cinv_mono [OF cinv_null [OF w] this] d'(3,4)] d'(1) show ?thesis by simp
qed

lemma event_follows:
  assumes env: "usb_env_ok env" and sim: "usb_sim d \<sigma> E" and w: "wired req_fn bcast_fn barg d"
    "cinv (event_args ev \<union> args d) w" and b: "busy d" and ev: "event_ok ev"
  shows "\<exists>E'. E \<subseteq> E' \<and> follows keep cinv said d E' w (usb_spec_step (unat (d_queue_size d)) ev \<sigma>)
    (usb_event_step env call_req call_bcast ev (d, w))"
proof -
  have idle: "follows keep cinv said d E w (\<sigma>, []) (Some (d, w))" if "cinv (args d) w"
    by (rule quiet_follows [OF sim that b refl])
  have busy: "d_send_transfer d = None \<longleftrightarrow> sp_phase \<sigma> \<noteq> Sending" "d_recv_transfer d = None \<longleftrightarrow> sp_phase \<sigma> = Sending"
    using sim b by (auto simp: usb_sim_def phase_of_def busy_def usb_rep_def xfer_rep_def)
  show ?thesis
  proof (cases ev)
    case (Request ec ad cm arg)
    with request_follows [OF env sim b, of arg w ec ad cm] w(2) show ?thesis by simp
  next
    case (Cancel arg)
    with cancel_follows [OF sim b, of w arg env] w(2) show ?thesis by auto
  next
    case (Send_done st)
    with send_done_follows [OF env sim w(1)] w(2) idle busy show ?thesis by (cases "d_send_transfer d") auto
  next
    case (Receive_done st n bs)
    with receive_done_follows [OF env sim w(1)] w(2) idle busy ev show ?thesis
      by (cases "d_recv_transfer d") auto
  qed
qed

end

section \<open>Runs\<close>

text \<open>The driver after \<open>usbdali_open\<close> and the two calls of \<open>main\<close> that set the callbacks.\<close>

definition usb_start :: "'u usb_env \<Rightarrow> byte \<Rightarrow> byte \<Rightarrow> bool \<Rightarrow> 'f \<Rightarrow> 'u \<Rightarrow> 'f \<Rightarrow> 'f \<Rightarrow> ptr \<Rightarrow> ('f, 'u) UsbDaliPtr" where
  "usb_start env ein eout detached tfree u req_fn bcast_fn barg = do {
     d \<leftarrow> usbdali_next env (usbdali_init ein eout True detached tfree u);
     usbdali_set_inband_callback (usbdali_set_outband_callback (Some d) (Some bcast_fn) barg) (Some req_fn)
   }"

definition sp_start :: usb_spec where
  "sp_start = \<lparr>sp_phase = Idle, sp_pending = [], sp_sent = 0\<rparr>"

lemma usb_init_sim: "usb_sim (usbdali_init ein eout True detached tfree u) sp_start {}"
proof -
  let ?d = "usbdali_init ein eout True detached tfree u"
  have "usb_rep ?d [] {}"
    by (simp add: usb_rep_def usbdali_init_def active_def trans_rep_empty xfer_rep_def list_holds_new)
  moreover have "usb_abs ?d [] sp_start"
    by (simp add: usb_abs_def usbdali_init_def active_def sp_start_def)
  ultimately show ?thesis by (auto simp: usb_sim_def phase_of_def usbdali_init_def sp_start_def)
qed

lemma usb_start_sim:
  assumes "usb_env_ok env"
  obtains d where "usb_start env ein eout detached tfree u rf bf barg = Some d" "usb_sim d sp_start {}" "busy d"
    "wired rf bf barg d" "unat (d_queue_size d) = 255"
proof -
  let ?i = "usbdali_init ein eout True detached tfree u"
  from usbdali_next_sim [OF assms usb_init_sim, of ein eout detached tfree u] obtain d where
    d: "usbdali_next env ?i = Some d" "usb_sim d sp_start {}" "busy d" "config d = config ?i"
    by (auto simp: busy_def usbdali_init_def sp_next_def sp_start_def split: if_splits)
  let ?d = "d\<lparr>d_bcast_callback := Some bf, d_bcast_arg := barg, d_req_callback := Some rf\<rparr>"
  have "usb_start env ein eout detached tfree u rf bf barg = Some ?d"
    using d(1) by (simp add: usb_start_def usbdali_set_inband_callback_def usbdali_set_outband_callback_def)
  moreover have "usb_sim ?d sp_start {}"
    using d(2) by (simp add: usb_sim_def phase_of_def usb_rep_def usb_abs_def active_def xfer_rep_def)
  moreover have "busy ?d" "wired rf bf barg ?d" "unat (d_queue_size ?d) = 255"
    using d(3,4) by (simp_all add: busy_def wired_def config_def usbdali_init_def DEFAULT_QUEUESIZE_def)
  ultimately show ?thesis using that by blast
qed

fun usb_run :: "'u usb_env \<Rightarrow> ('f, 'u, 'w) req_call \<Rightarrow> ('f, 'u, 'w) bcast_call \<Rightarrow> usb_event list \<Rightarrow>
    ('f, 'u) UsbDali \<times> 'w \<Rightarrow> (('f, 'u) UsbDali \<times> 'w) option" where
  "usb_run env call_req call_bcast [] s = Some s"
| "usb_run env call_req call_bcast (ev # evs) s =
     (case usb_event_step env call_req call_bcast ev s of
        None \<Rightarrow> None | Some s' \<Rightarrow> usb_run env call_req call_bcast evs s')"

fun usb_spec_run :: "nat \<Rightarrow> usb_event list \<Rightarrow> usb_spec \<Rightarrow> usb_spec \<times> usb_out list" where
  "usb_spec_run cap [] \<sigma> = (\<sigma>, [])"
| "usb_spec_run cap (ev # evs) \<sigma> =
     (case usb_spec_step cap ev \<sigma> of (\<sigma>1, outs) \<Rightarrow> apsnd ((@) outs) (usb_spec_run cap evs \<sigma>1))"

text \<open>A client that only records what it is told.\<close>

definition log_req :: "('f, 'u, usb_out list) req_call" where
  "log_req f err frame response status arg s = do {
     fr \<leftarrow> deref (d_frames (fst s)) frame;
     Some (fst s, snd s @ [Reply err fr response status arg])
   }"

definition log_bcast :: "('f, 'u, usb_out list) bcast_call" where
  "log_bcast f err frame status arg s =
     (case frame of
        None \<Rightarrow> Some (fst s, snd s @ [Bcast err None status])
      | Some a \<Rightarrow> do { fr \<leftarrow> d_frames (fst s) a; Some (fst s, snd s @ [Bcast err (Some fr) status]) })"

interpretation lc: usb_client log_req log_bcast rf bf barg "\<lambda>w w'. (=)" "\<lambda>A w. True" "\<lambda>x w w'. w' = w @ [x]"
proof unfold_locales
  have r: "relabelled (=) (d_transactions d) (d_transactions d)" for d :: "('a, 'b) UsbDali"
    by (simp add: relabelled_def)
  fix d :: "('a, 'b) UsbDali" and frame f err response status arg w fo
  {
    assume "deref (d_frames d) frame = Some f"
    then show "\<exists>ts w'. log_req rf err frame response status arg (d, w) = Some (d\<lparr>d_transactions := ts\<rparr>, w') \<and>
        relabelled (=) (d_transactions d) ts \<and> True \<and> w' = w @ [Reply err f response status arg]"
      using r [of d] by (intro exI [of _ "d_transactions d"]) (simp add: log_req_def)
  next
    assume "map_option Some (deref (d_frames d) frame) = Some fo \<or>
        frame = None \<and> fo = None \<and> err = USBDALI_RECEIVE_ERROR"
    then show "\<exists>ts w'. log_bcast bf err frame status barg (d, w) = Some (d\<lparr>d_transactions := ts\<rparr>, w') \<and>
        relabelled (=) (d_transactions d) ts \<and> True \<and> w' = w @ [Bcast err fo status]"
      using r [of d] by (intro exI [of _ "d_transactions d"]) (auto simp: log_bcast_def split: option.splits)
  }
qed auto

lemma said_all_log: "said_all (\<lambda>x w w'. w' = w @ [x]) xs w w' \<longleftrightarrow> w' = w @ xs"
  by (induction xs arbitrary: w) auto

lemma spec_keep_eq: "spec_keep (=) \<sigma> \<sigma>' \<longleftrightarrow> \<sigma>' = \<sigma>"
  by (auto simp: spec_keep_def prod.rel_eq list.rel_eq)

lemma usb_run_log:
  assumes "usb_env_ok env" "usb_sim d \<sigma> E" "wired rf bf barg d" "busy d" "unat (d_queue_size d) = cap"
    "\<forall>ev\<in>set evs. event_ok ev"
  shows "\<exists>d' E'. usb_run env log_req log_bcast evs (d, w) = Some (d', w @ snd (usb_spec_run cap evs \<sigma>)) \<and>
    usb_sim d' (fst (usb_spec_run cap evs \<sigma>)) E' \<and> busy d' \<and> wired rf bf barg d' \<and> E \<subseteq> E'"
  using assms(2-)
proof (induction evs arbitrary: d w \<sigma> E)
  case Nil
  then show ?case by auto
next
  case (Cons ev evs)
  obtain \<sigma>1 outs where sp: "usb_spec_step cap ev \<sigma> = (\<sigma>1, outs)" by fastforce
  from lc.event_follows [OF assms(1) Cons.prems(1,2) _ Cons.prems(3), of ev w] Cons.prems(4,5) sp obtain d1 E1 where
    d1: "usb_event_step env log_req log_bcast ev (d, w) = Some (d1, w @ outs)" "usb_sim d1 \<sigma>1 E1" "busy d1"
      "config d1 = config d" "E \<subseteq> E1"
    by (auto simp: follows_def said_all_log spec_keep_eq)
  from d1(4) Cons.prems(2,4) have w1: "wired rf bf barg d1" "unat (d_queue_size d1) = cap"
    by (auto simp: config_def wired_def)
  from Cons.IH [OF d1(2) w1(1) d1(3) w1(2), of "w @ outs"] Cons.prems(5) d1(1,5) sp show ?case by fastforce
qed

section \<open>Order of the replies\<close>

fun reply_args :: "usb_out list \<Rightarrow> ptr list" where
  "reply_args [] = []"
| "reply_args (Reply err f response status arg # xs) = arg # reply_args xs"
| "reply_args (Bcast err f status # xs) = reply_args xs"

fun request_args :: "usb_event list \<Rightarrow> ptr list" where
  "request_args [] = []"
| "request_args (Request ec ad cm arg # evs) = arg # request_args evs"
| "request_args (ev # evs) = request_args evs"

fun no_cancel :: "usb_event \<Rightarrow> bool" where
  "no_cancel (Cancel arg) = False"
| "no_cancel ev = True"

lemma reply_args_append [simp]: "reply_args (xs @ ys) = reply_args xs @ reply_args ys"
  by (induction xs rule: reply_args.induct) auto

lemma request_args_append [simp]: "request_args (xs @ ys) = request_args xs @ request_args ys"
  by (induction xs rule: request_args.induct) auto

definition sp_ok :: "usb_spec \<Rightarrow> bool" where
  "sp_ok \<sigma> \<longleftrightarrow> (sp_phase \<sigma> \<noteq> Idle \<longrightarrow> sp_pending \<sigma> \<noteq> [])"

lemma sp_answer_order:
  "sp_ok \<sigma> \<Longrightarrow> sp_phase \<sigma> \<noteq> Idle \<Longrightarrow> sp_answer err f r st \<sigma> = (\<sigma>', outs) \<Longrightarrow>
     reply_args outs @ map snd (sp_pending \<sigma>') = map snd (sp_pending \<sigma>) \<and> sp_phase \<sigma>' = Idle"
  by (cases "sp_pending \<sigma>") (auto simp: sp_ok_def sp_answer_def)

lemma sp_ok_next [simp]: "sp_ok (sp_next \<sigma>) = sp_ok \<sigma>"
  by (simp add: sp_ok_def sp_next_def)

lemma sp_received_order:
  assumes "sp_ok \<sigma>" "sp_received st n bs \<sigma> = (\<sigma>', outs)"
  shows "reply_args outs @ map snd (sp_pending \<sigma>') = map snd (sp_pending \<sigma>) \<and> sp_ok \<sigma>'"
proof -
  have "sp_packet i \<sigma> = (\<sigma>', outs) \<Longrightarrow>
      reply_args outs @ map snd (sp_pending \<sigma>') = map snd (sp_pending \<sigma>) \<and> sp_ok \<sigma>'" for i
    using assms(1) sp_answer_order [OF assms(1)] by (auto simp: sp_packet_def sp_ok_def split: if_splits)
  with assms sp_answer_order [OF assms(1)] show ?thesis
    by (cases st) (auto simp: sp_fail_def sp_ok_def split: if_splits)
qed

lemma sp_sent_order:
  assumes "sp_ok \<sigma>" "sp_phase \<sigma> = Sending" "sp_sent_done st \<sigma> = (\<sigma>', outs)"
  shows "reply_args outs @ map snd (sp_pending \<sigma>') = map snd (sp_pending \<sigma>) \<and> sp_ok \<sigma>'"
  using assms sp_answer_order [OF assms(1)] by (cases st) (auto simp: sp_fail_def sp_ok_def)

lemma usb_spec_step_order:
  assumes "sp_ok \<sigma>" "no_cancel ev" "length (sp_pending \<sigma>) < cap \<or> request_args [ev] = []"
    "usb_spec_step cap ev \<sigma> = (\<sigma>', outs)"
  shows "reply_args outs @ map snd (sp_pending \<sigma>') = map snd (sp_pending \<sigma>) @ request_args [ev] \<and> sp_ok \<sigma>'"
proof (cases ev)
  case (Request ec ad cm arg)
  with assms have "sp_waiting \<sigma> < cap" by (auto simp: sp_waiting_def)
  with Request assms show ?thesis by (auto simp: sp_request_def sp_ok_def)
next
  case (Send_done st)
  with assms sp_sent_order [OF assms(1), of st] show ?thesis
    by (cases "sp_sent_done st \<sigma>") (auto split: if_splits)
next
  case (Receive_done st n bs)
  with assms sp_received_order [OF assms(1), of st n bs] show ?thesis
    by (cases "sp_received st n bs \<sigma>") (auto split: if_splits)
qed (use assms in simp)

lemma usb_spec_run_order:
  assumes "sp_ok \<sigma>" "\<forall>ev\<in>set evs. no_cancel ev" "length (sp_pending \<sigma>) + length (request_args evs) \<le> cap"
  shows "reply_args (snd (usb_spec_run cap evs \<sigma>)) @ map snd (sp_pending (fst (usb_spec_run cap evs \<sigma>))) =
    map snd (sp_pending \<sigma>) @ request_args evs \<and> sp_ok (fst (usb_spec_run cap evs \<sigma>))"
  using assms
proof (induction evs arbitrary: \<sigma>)
  case Nil
  then show ?case by simp
next
  case (Cons ev evs)
  obtain \<sigma>1 outs where sp: "usb_spec_step cap ev \<sigma> = (\<sigma>1, outs)" by fastforce
  have a: "request_args (ev # evs) = request_args [ev] @ request_args evs"
    using request_args_append [of "[ev]" evs] by simp
  have b: "length (sp_pending \<sigma>) < cap \<or> request_args [ev] = []" using Cons.prems(3) a by (cases ev) auto
  note st = usb_spec_step_order [OF Cons.prems(1) _ b sp]
  with Cons.prems(2) have "reply_args outs @ map snd (sp_pending \<sigma>1) = map snd (sp_pending \<sigma>) @ request_args [ev]"
      "sp_ok \<sigma>1" by simp_all
  moreover from arg_cong [OF this(1), of length] Cons.prems(3) a
  have "length (sp_pending \<sigma>1) + length (request_args evs) \<le> cap" by simp
  ultimately show ?case
    using Cons.IH [of \<sigma>1] Cons.prems(2) sp a by (simp add: apsnd_def map_prod_def split_beta)
qed

text \<open>
  Rounds in which every transfer ends: a receive fails, by its timeout or another error, and then a send ends in any way. A receive that completes
  or is cancelled is no such round, since it may answer nothing.
\<close>

type_synonym transfer_round = "libusb_transfer_status \<times> nat \<times> byte list \<times> libusb_transfer_status"

fun round_ok :: "transfer_round \<Rightarrow> bool" where
  "round_ok (st, n, bs, st') \<longleftrightarrow> st \<noteq> LIBUSB_TRANSFER_COMPLETED \<and> st \<noteq> LIBUSB_TRANSFER_CANCELLED \<and>
     length bs = USBDALI_LENGTH \<and> n \<le> USBDALI_LENGTH"

fun round_events :: "transfer_round \<Rightarrow> usb_event list" where
  "round_events (st, n, bs, st') = [Receive_done st n bs, Send_done st']"

definition rounds :: "transfer_round list \<Rightarrow> usb_event list" where
  "rounds rs = concat (map round_events rs)"

lemma usb_spec_run_append:
  "usb_spec_run cap (xs @ ys) \<sigma> =
     (case usb_spec_run cap xs \<sigma> of (\<sigma>1, o1) \<Rightarrow> apsnd ((@) o1) (usb_spec_run cap ys \<sigma>1))"
  by (induction xs arbitrary: \<sigma>) (auto simp: apsnd_def map_prod_def split: prod.splits)

text \<open>The rounds needed to answer everything: one for each request, and one more if the first is not awaiting its answer yet.\<close>

definition backlog :: "usb_spec \<Rightarrow> nat" where
  "backlog \<sigma> = (if sp_pending \<sigma> = [] then 0 else if sp_phase \<sigma> = Awaiting then length (sp_pending \<sigma>) else Suc (length (sp_pending \<sigma>)))"

definition sp_moving :: "usb_spec \<Rightarrow> bool" where
  "sp_moving \<sigma> \<longleftrightarrow> (sp_phase \<sigma> = Idle \<longleftrightarrow> sp_pending \<sigma> = [])"

lemma failed_receive:
  assumes "st \<noteq> LIBUSB_TRANSFER_COMPLETED" "st \<noteq> LIBUSB_TRANSFER_CANCELLED" "sp_phase \<sigma> = Awaiting"
  shows "fst (sp_received st n bs \<sigma>) = \<sigma>\<lparr>sp_phase := Idle, sp_pending := tl (sp_pending \<sigma>)\<rparr>"
  using assms by (cases st) (simp_all add: sp_fail_def sp_answer_def)

lemma sent_status:
  "fst (sp_sent_done st \<sigma>) \<in> {\<sigma>\<lparr>sp_phase := Awaiting\<rparr>, \<sigma>\<lparr>sp_phase := Idle, sp_pending := tl (sp_pending \<sigma>)\<rparr>}"
  by (cases st) (simp_all add: sp_fail_def sp_answer_def)

lemma send_backlog:
  assumes "sp_phase \<sigma> = Sending" "sp_pending \<sigma> \<noteq> []" "\<sigma>' = fst (usb_spec_step cap (Send_done st) \<sigma>)"
  shows "backlog \<sigma>' < backlog \<sigma>" "sp_moving \<sigma>'"
  using assms sent_status [of st \<sigma>]
  by (cases "sp_pending \<sigma>"; auto simp: backlog_def sp_moving_def sp_next_def)+

lemma idle_receive: "sp_phase \<sigma> = Idle \<Longrightarrow> st \<noteq> LIBUSB_TRANSFER_COMPLETED \<Longrightarrow> fst (sp_received st n bs \<sigma>) = \<sigma>"
  by (cases st) simp_all

lemma round_backlog:
  assumes "sp_ok \<sigma>" "round_ok r"
  shows "backlog (fst (usb_spec_run cap (round_events r) \<sigma>)) \<le> backlog \<sigma> - 1 \<and> sp_moving (fst (usb_spec_run cap (round_events r) \<sigma>))"
proof -
  obtain st n bs st' where r: "r = (st, n, bs, st')" by (cases r)
  let ?\<sigma>1 = "fst (usb_spec_step cap (Receive_done st n bs) \<sigma>)"
  have run: "fst (usb_spec_run cap (round_events r) \<sigma>) = fst (usb_spec_step cap (Send_done st') ?\<sigma>1)"
    by (simp add: r split_beta)
  show ?thesis
  proof (cases "sp_phase \<sigma>")
    case Idle
    with assms(2) r have s: "?\<sigma>1 = sp_next \<sigma>" by (simp add: idle_receive)
    show ?thesis
    proof (cases "sp_pending \<sigma> = []")
      case True
      with Idle s show ?thesis unfolding run by (simp add: backlog_def sp_moving_def sp_next_def)
    next
      case False
      with Idle s have "sp_phase ?\<sigma>1 = Sending" "sp_pending ?\<sigma>1 = sp_pending \<sigma>" by (simp_all add: sp_next_def)
      with send_backlog [OF this(1) _ refl, of cap st'] False Idle show ?thesis unfolding run by (auto simp: backlog_def)
    qed
  next
    case Sending
    with assms(1) have "?\<sigma>1 = \<sigma>" "sp_pending \<sigma> \<noteq> []" by (simp_all add: sp_ok_def)
    with send_backlog [OF Sending _ refl, of cap st'] show ?thesis unfolding run by auto
  next
    case Awaiting
    with assms r have s: "?\<sigma>1 = sp_next (\<sigma>\<lparr>sp_phase := Idle, sp_pending := tl (sp_pending \<sigma>)\<rparr>)" "sp_pending \<sigma> \<noteq> []"
      by (auto simp: failed_receive sp_ok_def)
    show ?thesis
    proof (cases "tl (sp_pending \<sigma>) = []")
      case True
      with s show ?thesis unfolding run by (simp add: backlog_def sp_moving_def sp_next_def)
    next
      case False
      with s have "sp_phase ?\<sigma>1 = Sending" "sp_pending ?\<sigma>1 = tl (sp_pending \<sigma>)" by (simp_all add: sp_next_def)
      with send_backlog [OF this(1) _ refl, of cap st'] False Awaiting s(2) show ?thesis unfolding run by (auto simp: backlog_def)
    qed
  qed
qed

lemma rounds_drain:
  assumes "sp_ok \<sigma>" "\<forall>r\<in>set rs. round_ok r" "length (sp_pending \<sigma>) < length rs"
  shows "sp_pending (fst (usb_spec_run cap (rounds rs) \<sigma>)) = [] \<and> sp_phase (fst (usb_spec_run cap (rounds rs) \<sigma>)) = Idle"
proof -
  have "backlog (fst (usb_spec_run cap (rounds rs) \<sigma>)) \<le> backlog \<sigma> - length rs \<and>
      (rs = [] \<or> sp_moving (fst (usb_spec_run cap (rounds rs) \<sigma>)))"
    using assms(1,2)
  proof (induction rs arbitrary: \<sigma>)
    case Nil
    then show ?case by (simp add: rounds_def)
  next
    case (Cons r rs)
    let ?\<sigma> = "fst (usb_spec_run cap (round_events r) \<sigma>)"
    have b: "backlog ?\<sigma> \<le> backlog \<sigma> - 1" "sp_moving ?\<sigma>" using round_backlog [OF Cons.prems(1), of r cap] Cons.prems(2) by simp_all
    then have "sp_ok ?\<sigma>" by (simp add: sp_moving_def sp_ok_def)
    from Cons.IH [OF this] Cons.prems(2) b show ?case
      by (cases "rs = []") (auto simp: rounds_def usb_spec_run_append split_beta)
  qed
  moreover have "backlog \<sigma> \<le> length rs" "rs \<noteq> []" using assms(3) by (auto simp: backlog_def)
  ultimately show ?thesis by (auto simp: backlog_def sp_moving_def split: if_splits)
qed

end
