(* ===== verification/Handlers.thy ===== *)
theory Handlers
  imports Net_Refinement Usb_Client
begin

text \<open>
  The callbacks of \<open>src/daliserver.c\<close> that tie the TCP server and the USB driver together. A frame from
  a connection becomes a request of the driver with the connection as its argument, the driver's reply
  goes back to that connection, a message of the bus goes to all of them, and a connection that is closed
  is removed from the driver's transactions.

  The two components call each other, so both contracts are met here at once: the server's destroy
  callback (\<open>net_client\<close>) and receive callback (\<open>net_server\<close>), and the driver's two callbacks
  (\<open>usb_client\<close>).
\<close>

section \<open>Function pointers\<close>

datatype fn = F_server_listener_ready | F_server_listener_error | F_connection_ready | F_connection_error
  | F_connection_free | F_net_frame_handler | F_net_dequeue_connection | F_dali_inband_handler
  | F_dali_outband_handler | F_usbdali_transaction_free | F_usbdali_dispatch_ready | F_usbdali_dispatch_error
  | F_ipc_read_zero

text \<open>The functions that the server registers are those of \<open>lib/net.c\<close>.\<close>

definition net_fns :: "(fn, 'o) net_env \<Rightarrow> bool" where
  "net_fns env \<longleftrightarrow> ne_listener_ready env = F_server_listener_ready \<and> ne_listener_error env = F_server_listener_error \<and>
     ne_ready env = F_connection_ready \<and> ne_error env = F_connection_error \<and> ne_connection_free env = F_connection_free"

section \<open>Frames of the network protocol\<close>

definition DEFAULT_NET_FRAMESIZE :: nat where "DEFAULT_NET_FRAMESIZE = 4"
definition DEFAULT_NET_PROTOCOL :: byte where "DEFAULT_NET_PROTOCOL = 2"
definition NET_STATUS_SUCCESS :: byte where "NET_STATUS_SUCCESS = 0"
definition NET_STATUS_RESPONSE :: byte where "NET_STATUS_RESPONSE = 1"
definition NET_STATUS_BROADCAST :: byte where "NET_STATUS_BROADCAST = 2"
definition NET_STATUS_ERROR :: byte where "NET_STATUS_ERROR = 255"
definition NET_TYPE_SEND :: byte where "NET_TYPE_SEND = 0"

lemmas net_consts = DEFAULT_NET_FRAMESIZE_def DEFAULT_NET_PROTOCOL_def NET_STATUS_SUCCESS_def NET_STATUS_RESPONSE_def
  NET_STATUS_BROADCAST_def NET_STATUS_ERROR_def NET_TYPE_SEND_def

text \<open>The buffer that \<open>dali_inband_handler\<close> fills in.\<close>

definition reply_frame :: "UsbDaliError \<Rightarrow> uint32 \<Rightarrow> byte list" where
  "reply_frame err response =
     (if err = USBDALI_SUCCESS \<or> err = USBDALI_RESPONSE then
        (if err = USBDALI_RESPONSE then [DEFAULT_NET_PROTOCOL, NET_STATUS_RESPONSE, ucast response, 0]
         else [DEFAULT_NET_PROTOCOL, NET_STATUS_SUCCESS, 0, 0])
      else [DEFAULT_NET_PROTOCOL, NET_STATUS_ERROR, 0, 0])"

definition broadcast_bytes :: "DaliFrame \<Rightarrow> byte list" where
  "broadcast_bytes f = [DEFAULT_NET_PROTOCOL, NET_STATUS_BROADCAST, f_address f, f_command f]"

section \<open>The callbacks\<close>

text \<open>
  \<open>arg\<close> is the pointer \<open>usb\<close> of \<open>main\<close>: NULL in a dry run, and otherwise the driver, which is the
  second component of the state.
\<close>

definition net_dequeue_connection :: "ptr \<Rightarrow> ptr \<Rightarrow> (fn, 'u) UsbDaliPtr \<Rightarrow> (fn, 'u) UsbDaliPtr option" where
  "net_dequeue_connection arg conn usb =
     (if arg \<noteq> None \<and> conn \<noteq> None then do { d \<leftarrow> usb; usbdali_cancel (Some d) conn } else Some usb)"

definition call_destroy :: "(fn, 'o, (fn, 'u) UsbDaliPtr) destroy_call" where
  "call_destroy f arg conn sw =
     (case f of F_net_dequeue_connection \<Rightarrow> map_option (Pair (fst sw)) (net_dequeue_connection arg conn (snd sw)) | _ \<Rightarrow> None)"

definition net_frame_handler :: "(fn, 'o) net_env \<Rightarrow> 'u usb_env \<Rightarrow> ptr \<Rightarrow> byte list option \<Rightarrow> nat \<Rightarrow> ptr \<Rightarrow>
    (fn, 'o) Server \<times> (fn, 'u) UsbDaliPtr \<Rightarrow> ((fn, 'o) Server \<times> (fn, 'u) UsbDaliPtr) option" where
  "net_frame_handler env uenv arg buffer bufsize conn sw = (case buffer of
     None \<Rightarrow> Some sw
   | Some b \<Rightarrow>
     if bufsize < DEFAULT_NET_FRAMESIZE then Some sw
     else if length b < 4 then None
     else if b ! 0 = DEFAULT_NET_PROTOCOL then
       (if b ! 1 = NET_TYPE_SEND then
          (if arg \<noteq> None then do {
             d \<leftarrow> snd sw;
             (frame, fs) \<leftarrow> daliframe_new (ue_malloc uenv) (b ! 2) (b ! 3) (d_frames d);
             (err, usb) \<leftarrow> usbdali_queue uenv (Some (d\<lparr>d_frames := fs\<rparr>)) frame conn;
             Some (fst sw, usb)
           }
           else connection_reply env call_destroy conn (Some [DEFAULT_NET_PROTOCOL, NET_STATUS_RESPONSE, 0, 0])
                  DEFAULT_NET_FRAMESIZE sw)
        else Some sw)
     else Some sw)"

definition call_recv :: "(fn, 'o) net_env \<Rightarrow> 'u usb_env \<Rightarrow> (fn, 'o, (fn, 'u) UsbDaliPtr) recv_call" where
  "call_recv env uenv f arg buffer bufsize conn sw =
     (case f of F_net_frame_handler \<Rightarrow> net_frame_handler env uenv arg (Some buffer) bufsize conn sw | _ \<Rightarrow> None)"

text \<open>The frame is read for the log only.\<close>

definition dali_inband_handler :: "(fn, 'o) net_env \<Rightarrow> UsbDaliError \<Rightarrow> ptr \<Rightarrow> uint32 \<Rightarrow> uint32 \<Rightarrow> ptr \<Rightarrow>
    (fn, 'u) UsbDali \<times> (fn, 'o) Server \<Rightarrow> ((fn, 'u) UsbDali \<times> (fn, 'o) Server) option" where
  "dali_inband_handler env err frame response status arg ds = do {
     log \<leftarrow> (if err = USBDALI_SUCCESS \<or> err = USBDALI_RESPONSE then map_option Some (deref (d_frames (fst ds)) frame)
            else Some None);
     if arg \<noteq> None then do {
       (s, usb) \<leftarrow> connection_reply env call_destroy arg (Some (reply_frame err response)) DEFAULT_NET_FRAMESIZE
                    (snd ds, Some (fst ds));
       d \<leftarrow> usb;
       Some (d, s)
     } else Some ds
   }"

definition dali_outband_handler :: "(fn, 'o) net_env \<Rightarrow> UsbDaliError \<Rightarrow> ptr \<Rightarrow> uint32 \<Rightarrow> ptr \<Rightarrow>
    (fn, 'u) UsbDali \<times> (fn, 'o) Server \<Rightarrow> ((fn, 'u) UsbDali \<times> (fn, 'o) Server) option" where
  "dali_outband_handler env err frame status arg ds =
     (if err = USBDALI_SUCCESS then do {
        f \<leftarrow> deref (d_frames (fst ds)) frame;
        if arg \<noteq> None then do {
          (s, usb) \<leftarrow> server_broadcast env call_destroy (Some (broadcast_bytes f)) DEFAULT_NET_FRAMESIZE
                       (snd ds, Some (fst ds));
          d \<leftarrow> usb;
          Some (d, s)
        } else Some ds
      } else Some ds)"

definition call_req :: "(fn, 'o) net_env \<Rightarrow> (fn, 'u, (fn, 'o) Server) req_call" where
  "call_req env f err frame response status arg ds =
     (case f of F_dali_inband_handler \<Rightarrow> dali_inband_handler env err frame response status arg ds | _ \<Rightarrow> None)"

definition call_bcast :: "(fn, 'o) net_env \<Rightarrow> (fn, 'u, (fn, 'o) Server) bcast_call" where
  "call_bcast env f err frame status arg ds =
     (case f of F_dali_outband_handler \<Rightarrow> dali_outband_handler env err frame status arg ds | _ \<Rightarrow> None)"

section \<open>The server's contract\<close>

text \<open>Forgetting a connection: its pending requests stay, and are answered to nobody.\<close>

definition forget :: "addr \<Rightarrow> (fn, 'u) UsbDaliPtr \<Rightarrow> (fn, 'u) UsbDaliPtr" where
  "forget a usb = map_option (\<lambda>d. d\<lparr>d_transactions := \<lambda>x. map_option (clear_arg (Some a)) (d_transactions d x)\<rparr>) usb"

text \<open>The transactions refer to connections in \<open>L\<close> only; this holds at every moment, also during a callback.\<close>

definition refers :: "ptr \<Rightarrow> addr set \<Rightarrow> (fn, 'u) UsbDaliPtr \<Rightarrow> bool" where
  "refers uarg L usb \<longleftrightarrow> (case usb of None \<Rightarrow> uarg = None
     | Some d \<Rightarrow> uarg \<noteq> None \<and> (\<exists>qs E. usb_rep d qs E) \<and> args d \<subseteq> insert None (Some ` L))"

lemma forget_args: "args (d\<lparr>d_transactions := \<lambda>x. map_option (clear_arg (Some a)) (d_transactions d x)\<rparr>) \<subseteq>
    insert None (args d - {Some a})"
proof
  fix x assume "x \<in> args (d\<lparr>d_transactions := \<lambda>x. map_option (clear_arg (Some a)) (d_transactions d x)\<rparr>)"
  then obtain b t where "d_transactions d b = Some t" "x = t_arg (clear_arg (Some a) t)"
    by (auto simp: args_def ran_def)
  then show "x \<in> insert None (args d - {Some a})"
    by (auto simp: args_def ran_def clear_arg_def)
qed

lemma forget_relabels:
  "relabelled (\<lambda>x y. y = (if x = b then None else x)) ts (\<lambda>x. map_option (clear_arg b) (ts x))"
  by (auto simp: relabelled_def dom_def clear_arg_def)

lemma destroy_refers:
  assumes "refers uarg L usb" "a \<in> L"
  shows "call_destroy F_net_dequeue_connection uarg (Some a) (s, usb) = Some (s, forget a usb)"
    "refers uarg (L - {a}) (forget a usb)"
proof -
  show "call_destroy F_net_dequeue_connection uarg (Some a) (s, usb) = Some (s, forget a usb)"
    using assms usbdali_cancel_eq [where arg = "Some a"]
    by (cases usb) (auto simp: refers_def call_destroy_def net_dequeue_connection_def forget_def)
  show "refers uarg (L - {a}) (forget a usb)"
    using assms relabel_rep [OF forget_relabels] forget_args
    by (cases usb) (fastforce simp: refers_def forget_def)+
qed

interpretation nc: net_client env other call_destroy F_net_dequeue_connection uarg forget "refers uarg" for env other uarg
proof unfold_locales
  show "refers uarg L' w" if "refers uarg L w" "L \<subseteq> L'" for L L' w
    using that unfolding refers_def by (cases w) (simp_all, blast)
qed (use destroy_refers in blast)+

section \<open>The driver's contract\<close>

definition wiring :: "ptr \<Rightarrow> (fn, 'o) Server \<Rightarrow> bool" where
  "wiring uarg s \<longleftrightarrow> s_framesize s = DEFAULT_NET_FRAMESIZE \<and> s_recvfn s = Some F_net_frame_handler \<and> s_arg s = uarg \<and>
     s_conndestroy s = Some F_net_dequeue_connection \<and> s_conndestroyarg s = uarg"

lemma wiring_sconf: "sconf s' = sconf s \<Longrightarrow> wiring uarg s' = wiring uarg s"
  by (auto simp: wiring_def sconf_def)

lemma wiringE:
  assumes "wiring uarg s"
  shows "s_conndestroy s = Some F_net_dequeue_connection" "s_conndestroyarg s = uarg"
  using assms by (simp_all add: wiring_def)

text \<open>
  The one thing asked of the network: a broadcast frame is written in full. \<open>server_broadcast\<close> reads a freed
  list node when such a write fails; all other writes may fail.
\<close>

definition bcast_ok :: "(fn, 'o) net_env \<Rightarrow> bool" where
  "bcast_ok env \<longleftrightarrow> (\<forall>f. writes_ok env DEFAULT_NET_FRAMESIZE (broadcast_bytes f))"

definition hosts :: "(fn, 'o) net_env \<Rightarrow> (fn option \<Rightarrow> fn option \<Rightarrow> bool) \<Rightarrow> ptr \<Rightarrow> fn entry list \<Rightarrow> ptr set \<Rightarrow>
    (fn, 'o) Server \<Rightarrow> bool" where
  "hosts env other uarg xs0 A s \<longleftrightarrow> bcast_ok env \<and> uarg \<noteq> None \<and> wiring uarg s \<and>
     (\<exists>cs xs. net_rep env other s cs xs \<and> quiet xs0 xs \<and> A \<subseteq> insert None (Some ` set cs))"

text \<open>What the server does with a message of the driver.\<close>

fun sends :: "(fn, 'o) net_env \<Rightarrow> usb_out \<Rightarrow> (fn, 'o) Server \<Rightarrow> (fn, 'o) Server \<Rightarrow> bool" where
  "sends env (Reply err f response status arg) s s' \<longleftrightarrow> (case arg of None \<Rightarrow> s' = s
     | Some a \<Rightarrow> replied env a (reply_frame err response) s s')"
| "sends env (Bcast err fo status) s s' \<longleftrightarrow>
     (if err = USBDALI_SUCCESS
      then \<exists>cs. list_holds (s_connections s) (map Some cs) \<and>
        s' = s\<lparr>s_os := broadcast_writes env (s_conns s) (broadcast_bytes (the fo)) cs (s_os s)\<rparr>
      else s' = s)"

lemma reply_frame_length [simp]: "length (reply_frame err r) = 4"
  by (simp add: reply_frame_def)

text \<open>The senders a step leaves behind: a request of a connection that the step closed has no sender any more, every other
  request keeps its own.\<close>

definition lost :: "(fn, 'o) Server \<Rightarrow> (fn, 'o) Server \<Rightarrow> ptr \<Rightarrow> ptr" where
  "lost s s' x = (if x \<in> Some ` (dom (s_conns s) - dom (s_conns s')) then None else x)"

lemma lost_same: "dom (s_conns s') = dom (s_conns s) \<Longrightarrow> lost s s' x = x"
  by (simp add: lost_def)

lemma lost_one: "a \<in> dom (s_conns s) \<Longrightarrow> dom (s_conns s') = dom (s_conns s) - {a} \<Longrightarrow> lost s s' x = (if x = Some a then None else x)"
  by (auto simp: lost_def)

lemma relabelled_refl: "dom (s_conns s') = dom (s_conns s) \<Longrightarrow> relabelled (\<lambda>x y. y = lost s s' x) ts ts"
  by (simp add: relabelled_def lost_same)

lemma inband_ok:
  assumes rep: "usb_rep d qs E" and h: "hosts env other uarg xs0 (args d) s" and a: "arg \<in> args d"
    and f: "deref (d_frames d) frame = Some f"
  shows "\<exists>ts s'. dali_inband_handler env err frame response status arg (d, s) = Some (d\<lparr>d_transactions := ts\<rparr>, s') \<and>
    relabelled (\<lambda>x y. y = lost s s' x) (d_transactions d) ts \<and>
    hosts env other uarg xs0 (args (d\<lparr>d_transactions := ts\<rparr>)) s' \<and> sends env (Reply err f response status arg) s s'"
proof (cases arg)
  case None
  with f h show ?thesis
    using relabelled_refl [of s s "d_transactions d"]
    by (intro exI [of _ "d_transactions d"] exI [of _ s]) (simp add: dali_inband_handler_def)
next
  case (Some c)
  from h obtain cs xs where h': "bcast_ok env" "uarg \<noteq> None" "wiring uarg s" "net_rep env other s cs xs" "quiet xs0 xs"
      "args d \<subseteq> insert None (Some ` set cs)" by (auto simp: hosts_def)
  have conn: "arg \<in> insert None (Some ` set cs)" using a h'(6) by blast
  have "refers uarg (set cs) (Some d)" using h'(2,6) rep by (auto simp: refers_def)
  from nc.reply_ok [OF h'(4) conn wiringE [OF h'(3)] this, of "Some (reply_frame err response)" DEFAULT_NET_FRAMESIZE]
  obtain s' w' cs' ys where
    r: "connection_reply env call_destroy arg (Some (reply_frame err response)) DEFAULT_NET_FRAMESIZE (s, Some d) = Some (s', w')"
      "net_rep env other s' cs' ys" "quiet xs ys" "sconf s' = sconf s" "refers uarg (set cs') w'"
      "cs' = cs \<and> w' = Some d \<or> c \<in> set cs \<and> cs' = remove1 c cs \<and> w' = forget c (Some d)"
      "replied env c (reply_frame err response) s s'"
    using Some by (auto simp: DEFAULT_NET_FRAMESIZE_def)
  have dom: "dom (s_conns s) = set cs" "dom (s_conns s') = set cs'" using h'(4) r(2) by (simp_all add: net_rep_def)
  from r(6) obtain ts where ts: "w' = Some (d\<lparr>d_transactions := ts\<rparr>)"
      "relabelled (\<lambda>x y. y = lost s s' x) (d_transactions d) ts"
  proof (elim disjE conjE)
    assume "cs' = cs" "w' = Some d"
    with relabelled_refl [of s' s "d_transactions d"] dom that [of "d_transactions d"] show ?thesis by simp
  next
    assume c: "c \<in> set cs" "cs' = remove1 c cs" "w' = forget c (Some d)"
    have "lost s s' = (\<lambda>x. if x = Some c then None else x)"
      using c dom h'(4) by (intro ext lost_one) (auto simp: net_rep_def)
    with forget_relabels [of "Some c" "d_transactions d"] c(3) that show ?thesis by (simp add: forget_def)
  qed
  have "hosts env other uarg xs0 (args (d\<lparr>d_transactions := ts\<rparr>)) s'"
    using h'(1-3) r(2,5) ts(1) wiring_sconf [OF r(4)] quiet_trans [OF h'(5) r(3)]
    by (auto simp: hosts_def refers_def)
  moreover have "dali_inband_handler env err frame response status arg (d, s) = Some (d\<lparr>d_transactions := ts\<rparr>, s')"
    using f r(1) ts(1) Some by (simp add: dali_inband_handler_def)
  ultimately show ?thesis using ts(2) r(7) Some by auto
qed

lemma outband_ok:
  assumes h: "hosts env other uarg xs0 (args d) s"
    and f: "map_option Some (deref (d_frames d) frame) = Some fo \<or> frame = None \<and> fo = None \<and> err = USBDALI_RECEIVE_ERROR"
  shows "\<exists>s'. dali_outband_handler env err frame status (Some self) (d, s) = Some (d, s') \<and>
    hosts env other uarg xs0 (args d) s' \<and> sends env (Bcast err fo status) s s' \<and> s_conns s' = s_conns s"
proof (cases "err = USBDALI_SUCCESS")
  case False
  with h show ?thesis by (simp add: dali_outband_handler_def)
next
  case True
  with f obtain fr where fr: "deref (d_frames d) frame = Some fr" "fo = Some fr" by auto
  from h obtain cs xs where h': "bcast_ok env" "uarg \<noteq> None" "wiring uarg s" "net_rep env other s cs xs" "quiet xs0 xs"
      "args d \<subseteq> insert None (Some ` set cs)" by (auto simp: hosts_def)
  then have lh: "list_holds (s_connections s) (map Some cs)" "dom (s_conns s) = set cs" by (simp_all add: net_rep_def)
  then obtain ns l where l: "s_connections s = Some l" "dseg (l_nodes l) None (l_head l) ns (l_tail l) None"
      "map (data_at (l_nodes l)) ns = map Some cs" by (auto simp: list_holds_def elim!: list_repE)
  let ?s = "s\<lparr>s_os := broadcast_writes env (s_conns s) (broadcast_bytes fr) cs (s_os s)\<rparr>"
  have "take DEFAULT_NET_FRAMESIZE (broadcast_bytes fr) = broadcast_bytes fr"
    by (simp add: broadcast_bytes_def DEFAULT_NET_FRAMESIZE_def)
  moreover have "writes_ok env (s_framesize s) (broadcast_bytes fr)" using h'(1,3) by (simp add: bcast_ok_def wiring_def)
  ultimately have "server_broadcast env call_destroy (Some (broadcast_bytes fr)) DEFAULT_NET_FRAMESIZE (s, Some d) = Some (?s, Some d)"
    using broadcast_loop_ok [OF l(2,3) _ l(1), of env DEFAULT_NET_FRAMESIZE "broadcast_bytes fr" call_destroy "Some d"] lh(2) l(1)
    by (simp add: server_broadcast_def list_first_def DEFAULT_NET_FRAMESIZE_def)
  then have "dali_outband_handler env err frame status (Some self) (d, s) = Some (d, ?s)"
    using True fr(1) by (simp add: dali_outband_handler_def)
  moreover have "hosts env other uarg xs0 (args d) ?s"
    using h' wiring_sconf [of ?s s uarg] by (auto simp: hosts_def)
  ultimately show ?thesis using True fr(2) lh(1) by auto
qed

interpretation dc: usb_client "call_req env" "call_bcast env" F_dali_inband_handler F_dali_outband_handler "Some self"
    "\<lambda>s s' x y. y = lost s s' x" "hosts env other uarg xs0" "sends env" for env self other uarg xs0
proof unfold_locales
  fix d :: "(fn, 'b) UsbDali" and s qs E arg frame f err response status fo
  assume "usb_rep d qs E" "hosts env other uarg xs0 (args d) s" "arg \<in> args d" "deref (d_frames d) frame = Some f"
  from inband_ok [OF this]
  show "\<exists>ts s'. call_req env F_dali_inband_handler err frame response status arg (d, s) = Some (d\<lparr>d_transactions := ts\<rparr>, s') \<and>
      relabelled (\<lambda>x y. y = lost s s' x) (d_transactions d) ts \<and>
      hosts env other uarg xs0 (args (d\<lparr>d_transactions := ts\<rparr>)) s' \<and> sends env (Reply err f response status arg) s s'"
    by (simp add: call_req_def)
next
  fix d :: "(fn, 'b) UsbDali" and s qs E frame fo err status
  assume h: "hosts env other uarg xs0 (args d) s"
    and f: "map_option Some (deref (d_frames d) frame) = Some fo \<or> frame = None \<and> fo = None \<and> err = USBDALI_RECEIVE_ERROR"
  from outband_ok [OF this, of status self] obtain s' where
    r: "dali_outband_handler env err frame status (Some self) (d, s) = Some (d, s')" "hosts env other uarg xs0 (args d) s'"
      "sends env (Bcast err fo status) s s'" "s_conns s' = s_conns s" by blast
  have "relabelled (\<lambda>x y. y = lost s s' x) (d_transactions d) (d_transactions d)" by (rule relabelled_refl) (simp add: r(4))
  with r(1-3)
  show "\<exists>ts s'. call_bcast env F_dali_outband_handler err frame status (Some self) (d, s) = Some (d\<lparr>d_transactions := ts\<rparr>, s') \<and>
      relabelled (\<lambda>x y. y = lost s s' x) (d_transactions d) ts \<and>
      hosts env other uarg xs0 (args (d\<lparr>d_transactions := ts\<rparr>)) s' \<and> sends env (Bcast err fo status) s s'"
    by (intro exI [of _ "d_transactions d"] exI [of _ s']) (simp add: call_bcast_def)
next
  show "hosts env other uarg xs0 B s" if "hosts env other uarg xs0 A s" "B \<subseteq> A" for A B s
    using that unfolding hosts_def by blast
qed (auto simp: hosts_def lost_def)

section \<open>The receive callback\<close>

text \<open>The driver calls the two handlers, and its queue frees transactions.\<close>

definition hooked :: "addr \<Rightarrow> (fn, 'u) UsbDali \<Rightarrow> bool" where
  "hooked self d \<longleftrightarrow> wired F_dali_inband_handler F_dali_outband_handler (Some self) d \<and>
     map_option l_free (d_queue d) = Some (Some F_usbdali_transaction_free)"

lemma config_hooked: "config d' = config d \<Longrightarrow> hooked self d' = hooked self d"
  by (auto simp: config_def wired_def hooked_def)

text \<open>Between two events the driver is in a state of its specification, with a transfer under way.\<close>

definition serves :: "'u usb_env \<Rightarrow> addr \<Rightarrow> ptr \<Rightarrow> addr set \<Rightarrow> (fn, 'u) UsbDaliPtr \<Rightarrow> bool" where
  "serves uenv self uarg L usb \<longleftrightarrow> usb_env_ok uenv \<and> (case usb of None \<Rightarrow> uarg = None
     | Some d \<Rightarrow> uarg \<noteq> None \<and> (\<exists>\<sigma> E. usb_sim d \<sigma> E) \<and> busy d \<and>
         hooked self d \<and> args d \<subseteq> insert None (Some ` L))"

lemma serves_refers: "serves uenv self uarg L usb \<Longrightarrow> refers uarg L usb"
  unfolding serves_def refers_def usb_sim_def by (cases usb) auto

lemma forget_serves:
  assumes "serves uenv self uarg L usb" "a \<in> L"
  shows "serves uenv self uarg (L - {a}) (forget a usb)"
proof (cases usb)
  case None
  with assms show ?thesis by (simp add: serves_def forget_def)
next
  case (Some d)
  with assms obtain \<sigma> E where d: "usb_sim d \<sigma> E" "busy d" "hooked self d"
    "uarg \<noteq> None" "usb_env_ok uenv" by (auto simp: serves_def)
  then obtain qs where "usb_rep d qs E" by (auto simp: usb_sim_def)
  from usbdali_cancel_eq [OF this, of "Some a"] usbdali_cancel_sim [OF d(1), of "Some a"] obtain d' where
    d': "forget a usb = Some d'" "usb_sim d' (sp_cancel (Some a) \<sigma>) E" "busy d'" "config d' = config d"
    using d(2) Some by (auto simp: forget_def)
  have "refers uarg (L - {a}) (forget a usb)" by (rule destroy_refers [OF serves_refers [OF assms(1)] assms(2)])
  with d d' config_hooked [OF d'(4)] show ?thesis by (auto simp: serves_def refers_def)
qed

lemma serves_mono: "serves uenv self uarg L usb \<Longrightarrow> L \<subseteq> L' \<Longrightarrow> serves uenv self uarg L' usb"
  unfolding serves_def by (cases usb) (simp_all, blast)

interpretation sc: net_client env other call_destroy F_net_dequeue_connection uarg forget "serves uenv self uarg"
    for env other uarg uenv self
proof unfold_locales
  show "call_destroy F_net_dequeue_connection uarg (Some a) (s, w) = Some (s, forget a w) \<and>
      serves uenv self uarg (L - {a}) (forget a w)" if "serves uenv self uarg L w" "a \<in> L" for L w a s
    using destroy_refers(1) [OF serves_refers [OF that(1)] that(2)] forget_serves [OF that] by blast
qed (rule serves_mono)

text \<open>A request: the frame handler queues it with its connection.\<close>

lemma frame_queued:
  assumes s: "serves uenv self uarg (set cs) (Some d)" and b: "length bs = 4" "bs ! 0 = 2" "bs ! 1 = 0"
    and sim: "usb_sim d \<sigma> E" and a: "a \<in> set cs"
  shows "\<exists>d' E'. net_frame_handler env uenv uarg (Some bs) 4 (Some a) (s, Some d) = Some (s, Some d') \<and>
    usb_sim d' (fst (usb_spec_step (unat (d_queue_size d)) (Request 0 (bs ! 2) (bs ! 3) (Some a)) \<sigma>)) E' \<and>
    serves uenv self uarg (set cs) (Some d')"
proof -
  let ?ev = "Request 0 (bs ! 2) (bs ! 3) (Some a)"
  have s': "usb_env_ok uenv" "uarg \<noteq> None" "busy d" "hooked self d"
      "args d \<subseteq> insert None (Some ` set cs)" using s by (auto simp: serves_def)
  let ?\<sigma> = "fst (usb_spec_step (unat (d_queue_size d)) ?ev \<sigma>)"
  from lc.request_follows [OF s'(1) sim s'(3), where w = "[]" and arg = "Some a" and ec = 0 and ad = "bs ! 2" and cm = "bs ! 3"] obtain d' E' where
    d': "usb_event_step uenv log_req log_bcast ?ev (d, []) = Some (d', [])" "usb_sim d' ?\<sigma> E'" "busy d'" "config d' = config d"
    by (auto simp: follows_def spec_keep_eq split: if_splits)
  have "args d' \<subseteq> insert (Some a) (args d)"
    using usb_sim_args [OF d'(2)] usb_sim_args [OF sim] by (auto simp: sp_request_def split: if_splits)
  then have "serves uenv self uarg (set cs) (Some d')"
    using s' d'(2-4) a config_hooked [OF d'(4)] by (auto simp: serves_def)
  moreover have "net_frame_handler env uenv uarg (Some bs) 4 (Some a) (s, Some d) = Some (s, Some d')"
    using d'(1) b s'(2) by (auto simp: net_frame_handler_def net_consts daliframe_new_is_enew bind_eq_Some_conv)
  ultimately show ?thesis using d'(2) by blast
qed

interpretation ns: net_server env other call_destroy F_net_dequeue_connection uarg forget "serves uenv self uarg"
    "call_recv env uenv" F_net_frame_handler uarg DEFAULT_NET_FRAMESIZE for env other uarg uenv self
proof unfold_locales
  fix s cs xs and usb :: "(fn, 'b) UsbDaliPtr" and a :: addr and bs :: "byte list"
  assume rep: "net_rep env other s cs xs" and w: "serves uenv self uarg (set cs) usb" and a: "a \<in> set cs"
    and wired: "s_conndestroy s = Some F_net_dequeue_connection" "s_conndestroyarg s = uarg"
    and bs: "length bs = DEFAULT_NET_FRAMESIZE"
  let ?P = "\<lambda>r. \<exists>s' w' cs' ys. r = Some (s', w') \<and> net_rep env other s' cs' ys \<and>
    quiet xs ys \<and> sconf s' = sconf s \<and> serves uenv self uarg (set cs') w' \<and> set cs' \<subseteq> set cs"
  have same: "?P (Some (s, w'))" if "serves uenv self uarg (set cs) w'" for w'
    using rep that by (intro exI [of _ s] exI [of _ w'] exI [of _ cs] exI [of _ xs]) simp
  have reply: "?P (connection_reply env call_destroy (Some a) buffer n (s, usb))" for buffer n
  proof -
    have "Some a \<in> insert None (Some ` set cs)" using a by simp
    from sc.reply_ok [OF rep this wired w] show ?thesis by blast
  qed
  show "?P (call_recv env uenv F_net_frame_handler uarg bs DEFAULT_NET_FRAMESIZE (Some a) (s, usb))"
  proof (cases "bs ! 0 = 2 \<and> bs ! 1 = 0 \<and> usb \<noteq> None")
    case True
    then obtain d \<sigma> E where d: "usb = Some d" "usb_sim d \<sigma> E" using w by (auto simp: serves_def)
    from frame_queued [OF w [unfolded d(1)] _ _ _ d(2) a, of bs env s] True bs same d(1) show ?thesis
      by (auto simp: call_recv_def DEFAULT_NET_FRAMESIZE_def)
  next
    case False
    have "usb = None \<longleftrightarrow> uarg = None" using w by (auto simp: serves_def split: option.splits)
    with False bs same [OF w] reply show ?thesis
      by (auto simp: call_recv_def net_frame_handler_def net_consts)
  qed
qed

end
