(* ===== verification/Ipc.thy ===== *)
theory Ipc
  imports Net_Refinement
begin

text \<open>
  The shutdown notifier of \<open>lib/ipc.c\<close>: a pair of connected sockets, one of which is registered in the
  dispatch table so that a byte written to the other wakes up the event loop.

  The operating system's state is \<open>'o\<close>, and \<open>write\<close>, \<open>read\<close> and \<open>close\<close> are arguments. There is one
  dispatch table, so the pointer \<open>dispatch\<close> of the structure is a flag.
\<close>

section \<open>Data and operations\<close>

record Ipc =
  i_sockets :: "int \<times> int"
  i_dispatch :: bool

type_synonym IpcPtr = "Ipc option"

text \<open>\<open>ok\<close> is the result of \<open>malloc\<close>; \<open>socketpair\<close> returns its result and the two sockets.\<close>

definition ipc_new :: "bool \<Rightarrow> int \<times> int \<times> int \<Rightarrow> IpcPtr" where
  "ipc_new ok socketpair =
     (if \<not> ok then None
      else case socketpair of (r, sockets) \<Rightarrow>
        if r = -1 then None else Some \<lparr>i_sockets = sockets, i_dispatch = False\<rparr>)"

definition ipc_read_socket :: "IpcPtr \<Rightarrow> int" where
  "ipc_read_socket ipc = (case ipc of None \<Rightarrow> -1 | Some i \<Rightarrow> fst (i_sockets i))"

definition ipc_write_socket :: "IpcPtr \<Rightarrow> int" where
  "ipc_write_socket ipc = (case ipc of None \<Rightarrow> -1 | Some i \<Rightarrow> fst (i_sockets i))"

definition ipc_register :: "bool \<Rightarrow> 'f \<Rightarrow> addr \<Rightarrow> IpcPtr \<Rightarrow> 'f DispatchPtr \<Rightarrow> (IpcPtr \<times> 'f DispatchPtr) option" where
  "ipc_register grow read_zero self ipc dispatch = (case ipc of
     None \<Rightarrow> Some (None, dispatch)
   | Some i \<Rightarrow> do {
       t \<leftarrow> (if i_dispatch i then table_remove_fd (ipc_read_socket ipc) dispatch else Some dispatch);
       t' \<leftarrow> table_add grow (ipc_read_socket ipc) POLLIN (Some read_zero) None (Some self) t;
       Some (Some (i\<lparr>i_dispatch := (dispatch \<noteq> None)\<rparr>), t')
     })"

definition ipc_notify :: "(int \<Rightarrow> byte list \<Rightarrow> 'o \<Rightarrow> int \<times> 'o) \<Rightarrow> IpcPtr \<Rightarrow> 'o \<Rightarrow> 'o" where
  "ipc_notify write ipc os = (case ipc of None \<Rightarrow> os | Some i \<Rightarrow> snd (write (ipc_write_socket ipc) [0] os))"

definition ipc_read_zero :: "(int \<Rightarrow> bool \<Rightarrow> nat \<Rightarrow> 'o \<Rightarrow> (int \<times> byte list) \<times> 'o) \<Rightarrow> IpcPtr \<Rightarrow> 'o \<Rightarrow> 'o" where
  "ipc_read_zero read ipc os = (case ipc of None \<Rightarrow> os | Some i \<Rightarrow> snd (read (ipc_read_socket ipc) True 1 os))"

definition ipc_free :: "(int \<Rightarrow> 'o \<Rightarrow> 'o) \<Rightarrow> IpcPtr \<Rightarrow> 'f DispatchPtr \<Rightarrow> 'o \<Rightarrow> ('f DispatchPtr \<times> 'o) option" where
  "ipc_free close ipc dispatch os = (case ipc of
     None \<Rightarrow> Some (dispatch, os)
   | Some i \<Rightarrow> do {
       t \<leftarrow> (if i_dispatch i then table_remove_fd (ipc_read_socket ipc) dispatch else Some dispatch);
       Some (t, close (snd (i_sockets i)) (close (fst (i_sockets i)) os))
     })"

section \<open>The socket pair\<close>

text \<open>
  What \<open>socketpair\<close> promises for two connected stream sockets: \<open>readable fd\<close> are the bytes that wait to be
  read from \<open>fd\<close>, and a successful \<open>write\<close> to one end appends to the bytes of the other end only.
\<close>

definition stream_pair :: "(int \<Rightarrow> byte list \<Rightarrow> 'o \<Rightarrow> int \<times> 'o) \<Rightarrow> (int \<Rightarrow> 'o \<Rightarrow> byte list) \<Rightarrow> int \<times> int \<Rightarrow> bool" where
  "stream_pair write readable p \<longleftrightarrow> fst p \<noteq> snd p \<and>
     (\<forall>fd fd' bs os n os'. (fd, fd') \<in> {p, prod.swap p} \<and> write fd bs os = (n, os') \<longrightarrow>
        readable fd os' = readable fd os \<and>
        readable fd' os' = readable fd' os @ (if n < 0 then [] else take (nat n) bs))"

text \<open>
  A kernel with two connected sockets 3 and 4: the bytes waiting at each of them.
\<close>

definition pipe_write :: "int \<Rightarrow> byte list \<Rightarrow> (int \<Rightarrow> byte list) \<Rightarrow> int \<times> (int \<Rightarrow> byte list)" where
  "pipe_write fd bs q = (if fd = 3 then (int (length bs), q(4 := q 4 @ bs))
     else if fd = 4 then (int (length bs), q(3 := q 3 @ bs)) else (-1, q))"

lemma pipe_pair: "stream_pair pipe_write (\<lambda>fd q. q fd) (3, 4)"
  unfolding stream_pair_def by (auto simp: pipe_write_def)

lemma new_entry_fd [simp]: "p_fd (fst (new_entry fd ev r e i a)) = fd"
  by (simp add: new_entry_def)

lemma ipc_register_rep:
  assumes "disp_rep t xs" "0 \<le> fst (i_sockets i)"
  shows "\<exists>t' ys. ipc_register True rz self (Some i) (Some t) = Some (Some (i\<lparr>i_dispatch := True\<rparr>), Some t') \<and>
    disp_rep t' (ys @ [new_entry (fst (i_sockets i)) POLLIN (Some rz) None None (Some self)]) \<and>
    mset ys = (if i_dispatch i then filter_mset (\<lambda>x. p_fd (fst x) \<noteq> fst (i_sockets i)) (mset xs) else mset xs)"
proof -
  let ?fd = "fst (i_sockets i)"
  obtain t1 ys where t1: "(if i_dispatch i then table_remove_fd ?fd (Some t) else Some (Some t)) = Some (Some t1)"
      "disp_rep t1 ys" "mset ys = (if i_dispatch i then filter_mset (\<lambda>x. p_fd (fst x) \<noteq> ?fd) (mset xs) else mset xs)"
    using table_remove_fd_rep [OF assms(1), of ?fd] assms(1) by (cases "i_dispatch i") auto
  from table_add_rep [OF t1(2) assms(2), of POLLIN "Some rz" None "Some self"] obtain t' where
    "table_add True ?fd POLLIN (Some rz) None (Some self) (Some t1) = Some (Some t')"
    "disp_rep t' (ys @ [new_entry ?fd POLLIN (Some rz) None None (Some self)])" by blast
  with t1 show ?thesis by (auto simp: ipc_register_def ipc_read_socket_def)
qed

section \<open>Properties\<close>

text \<open>
  Property C33: the notifier does not notify. \<open>ipc_write_socket\<close> returns the end that is read, so a byte written by
  \<open>ipc_notify\<close> arrives at the other end, which nobody polls: the registered socket has no more to read than
  before, and the event loop is not woken up by it.
\<close>

theorem ipc_notify_unheard:
  assumes "ipc_new True (0, p) = Some i" and "stream_pair write readable p"
  shows "readable (ipc_read_socket (Some i)) (ipc_notify write (Some i) os) = readable (ipc_read_socket (Some i)) os \<and>
    (\<forall>n. fst (write (fst p) [0] os) = n \<and> 0 < n \<longrightarrow>
      readable (snd p) (ipc_notify write (Some i) os) = readable (snd p) os @ [0])"
proof -
  have i: "i_sockets i = p" using assms(1) by (auto simp: ipc_new_def split: prod.splits if_splits)
  obtain n os' where w: "write (fst p) [0] os = (n, os')" by fastforce
  with assms(2) have "readable (fst p) os' = readable (fst p) os"
      "readable (snd p) os' = readable (snd p) os @ (if n < 0 then [] else take (nat n) [0])"
    unfolding stream_pair_def by (metis insertI1 prod.collapse)+
  with w i show ?thesis by (auto simp: ipc_notify_def ipc_write_socket_def ipc_read_socket_def take_Cons')
qed

theorem ipc_notify_unheard_witness:
  "ipc_notify pipe_write (ipc_new True (0, 3, 4)) (\<lambda>fd. []) 3 = [] \<and>
   ipc_notify pipe_write (ipc_new True (0, 3, 4)) (\<lambda>fd. []) 4 = [0]"
proof -
  have i: "ipc_new True (0, 3, 4) = Some \<lparr>i_sockets = (3, 4), i_dispatch = False\<rparr>" by (simp add: ipc_new_def)
  from ipc_notify_unheard [OF i pipe_pair, of "\<lambda>fd. []"] i show ?thesis
    by (simp add: pipe_write_def ipc_read_socket_def)
qed

text \<open>
  Property C32: registering the notifier, in a table that already has it or not, and freeing it afterwards leaves
  exactly the entries of the other descriptors, each as often as before; both sockets are closed.
\<close>

theorem ipc_register_free:
  assumes "disp_rep t xs" and "0 \<le> fst (i_sockets i)"
  shows "\<exists>i' t1 t2 ys. ipc_register True rz self (Some i) (Some t) = Some (Some i', Some t1) \<and>
    ipc_register True rz self (Some i') (Some t1) = Some (Some i', Some t2) \<and> disp_rep t2 ys \<and>
    filter_mset (\<lambda>x. p_fd (fst x) = fst (i_sockets i)) (mset ys) =
      {#new_entry (fst (i_sockets i)) POLLIN (Some rz) None None (Some self)#} \<and>
    (\<exists>t3 zs. ipc_free (#) (Some i') (Some t2) [] = Some (Some t3, [snd (i_sockets i), fst (i_sockets i)]) \<and> disp_rep t3 zs \<and>
      mset zs = filter_mset (\<lambda>x. p_fd (fst x) \<noteq> fst (i_sockets i)) (mset xs))"
proof -
  let ?fd = "fst (i_sockets i)" and ?i = "i\<lparr>i_dispatch := True\<rparr>"
  let ?e = "new_entry ?fd POLLIN (Some rz) None None (Some self)"
  from ipc_register_rep [OF assms, of rz self] obtain t1 ys where
    t1: "ipc_register True rz self (Some i) (Some t) = Some (Some ?i, Some t1)" "disp_rep t1 (ys @ [?e])"
      "mset ys = (if i_dispatch i then filter_mset (\<lambda>x. p_fd (fst x) \<noteq> ?fd) (mset xs) else mset xs)" by blast
  have f: "filter_mset (\<lambda>x. p_fd (fst x) \<noteq> ?fd) (mset ys) = filter_mset (\<lambda>x. p_fd (fst x) \<noteq> ?fd) (mset xs)"
    by (simp add: t1(3) filter_filter_mset)
  from ipc_register_rep [OF t1(2), of ?i rz self] assms(2) obtain t2 zs where
    t2: "ipc_register True rz self (Some ?i) (Some t1) = Some (Some ?i, Some t2)" "disp_rep t2 (zs @ [?e])"
      "mset zs = filter_mset (\<lambda>x. p_fd (fst x) \<noteq> ?fd) (mset xs)"
    using f by auto
  from table_remove_fd_rep [OF t2(2), of ?fd] t2(3) obtain t3 us where
    t3: "table_remove_fd ?fd (Some t2) = Some (Some t3)" "disp_rep t3 us"
      "mset us = filter_mset (\<lambda>x. p_fd (fst x) \<noteq> ?fd) (mset xs)"
    by (auto simp: filter_filter_mset)
  have "filter_mset (\<lambda>x. p_fd (fst x) = ?fd) (mset (zs @ [?e])) = {#?e#}"
    using t2(3) by (simp add: filter_filter_mset)
  moreover have "ipc_free (#) (Some ?i) (Some t2) [] = Some (Some t3, [snd (i_sockets i), fst (i_sockets i)])"
    using t3(1) by (simp add: ipc_free_def ipc_read_socket_def)
  ultimately show ?thesis using t1(1) t2(1,2) t3(2,3) by blast
qed

theorem ipc_register_free_witness:
  "\<exists>i' t1 t2 ys. ipc_register True () 9 (ipc_new True (0, 3, 4)) (dispatch_new True) = Some (Some i', Some t1) \<and>
    ipc_register True () 9 (Some i') (Some t1) = Some (Some i', Some t2) \<and> disp_rep t2 ys \<and>
    (\<exists>t3. ipc_free (#) (Some i') (Some t2) [] = Some (Some t3, [4, 3]) \<and> disp_rep t3 [])"
proof -
  have i: "ipc_new True (0, 3, 4) = Some \<lparr>i_sockets = (3, 4), i_dispatch = False\<rparr>" by (simp add: ipc_new_def)
  have t: "dispatch_new True = Some (the (dispatch_new True :: unit DispatchPtr))" by (simp add: dispatch_new_def)
  from ipc_register_free [OF disp_rep_new, of "\<lparr>i_sockets = (3, 4), i_dispatch = False\<rparr>" "()" 9] show ?thesis
    unfolding i by (subst t) auto
qed

end
