(* ===== verification/Usb_Properties.thy ===== *)
theory Usb_Properties
  imports Usb_Client
begin

text \<open>
  The properties of the USB driver that its users rely on, each for every run of the driver from
  \<open>usbdali_open\<close> on.
\<close>

section \<open>Properties\<close>

text \<open>
  Property C2: the driver refines its specification. Opened and wired to a client that records its
  callbacks, it runs through every sequence of requests, cancellations and ends of transfers
  without undefined behaviour, makes exactly the callbacks of the specification in its order, and ends
  in a well-formed state that represents the state of the specification.
\<close>

theorem usb_driver_refines_spec:
  assumes "usb_env_ok env" and "\<forall>ev\<in>set evs. event_ok ev"
  shows "\<exists>d0 d' E. usb_start env ein eout detached tfree u req_fn bcast_fn barg = Some d0 \<and>
    usb_run env log_req log_bcast evs (d0, []) = Some (d', snd (usb_spec_run 255 evs sp_start)) \<and>
    usb_sim d' (fst (usb_spec_run 255 evs sp_start)) E"
proof -
  obtain d0 where
    d0: "usb_start env ein eout detached tfree u req_fn bcast_fn barg = Some d0" "usb_sim d0 sp_start {}" "busy d0"
      "wired req_fn bcast_fn barg d0" "unat (d_queue_size d0) = 255"
    by (rule usb_start_sim [OF assms(1)])
  from usb_run_log [OF assms(1) d0(2,4,3,5) assms(2), of "[]"] d0(1) show ?thesis by auto
qed

definition demo_env :: "unit usb_env" where
  "demo_env = \<lparr>ue_little = True, ue_d2f = \<lambda>x. 0, ue_malloc = bump_alloc, ue_buffer = True,
     ue_alloc_transfer = bump_alloc, ue_submit = \<lambda>a x u. (0, u), ue_cancel = \<lambda>a u. (0, u),
     ue_complete = \<lambda>a u. u\<rparr>"

lemma demo_env_ok: "usb_env_ok demo_env"
  by (simp add: usb_env_ok_def demo_env_def bump_total)

text \<open>A response packet, as recorded in the comments of the source.\<close>

definition demo_packet :: "byte list" where
  "demo_packet = [0x12, 0x72, 0, 0, 0, 0x80, 0, 0x4f, 1] @ replicate 55 0"

lemma parse_demo_packet:
  "parse_in demo_packet = \<lparr>in_direction = 0x12, in_type = 0x72, in_ecommand = 0, in_address = 0, in_command = 0x80,
     in_status = 0x4f, in_seqnum = 1\<rparr>"
  by (simp add: demo_packet_def parse_in_def word16_def nth_append)

definition demo_events :: "usb_event list" where
  "demo_events = [Request 0 0xff 0x08 (Some 7), Receive_done LIBUSB_TRANSFER_CANCELLED 0 demo_packet,
     Send_done LIBUSB_TRANSFER_COMPLETED, Receive_done LIBUSB_TRANSFER_COMPLETED 9 demo_packet]"

lemma demo_events_ok: "\<forall>ev\<in>set demo_events. event_ok ev"
  by (simp add: demo_events_def USBDALI_LENGTH_def demo_packet_def)

theorem usb_driver_refines_spec_witness:
  "\<exists>d0 d' E. usb_start demo_env 0x81 0x02 False () () () () None = Some d0 \<and>
     usb_run demo_env log_req log_bcast demo_events (d0, []) =
       Some (d', [Reply USBDALI_RESPONSE \<lparr>f_ecommand = 0, f_address = 0, f_command = 0x80\<rparr> 0x80 0x4f (Some 7)]) \<and>
     usb_sim d' \<lparr>sp_phase = Idle, sp_pending = [], sp_sent = 1\<rparr> E"
proof -
  have "usb_spec_run 255 demo_events sp_start = (\<lparr>sp_phase = Idle, sp_pending = [], sp_sent = 1\<rparr>,
      [Reply USBDALI_RESPONSE \<lparr>f_ecommand = 0, f_address = 0, f_command = 0x80\<rparr> 0x80 0x4f (Some 7)])"
    by (simp add: demo_events_def sp_start_def sp_waiting_def sp_request_def sp_next_def sp_packet_def
        parse_demo_packet sp_answer_def dali_frame_def)
  with usb_driver_refines_spec [OF demo_env_ok demo_events_ok, of "0x81" "0x02" False "()" "()" "()" "()" None]
  show ?thesis by simp
qed

text \<open>
  Property C4: nothing is lost, repeated or reordered. In a run with at most 255 requests in all and no cancellation,
  the replies made so far, followed by the arguments of the active and the queued transactions, are
  exactly the requests made, in their order.
\<close>

theorem usb_replies_in_order:
  assumes "usb_env_ok env" and "\<forall>ev\<in>set evs. event_ok ev" and "\<forall>ev\<in>set evs. no_cancel ev"
    and "length (request_args evs) \<le> 255"
  shows "\<exists>d0 d' log qs. usb_start env ein eout detached tfree u req_fn bcast_fn barg = Some d0 \<and>
    usb_run env log_req log_bcast evs (d0, []) = Some (d', log) \<and> list_holds (d_queue d') (map Some qs) \<and>
    reply_args log @ map (\<lambda>a. t_arg (the (d_transactions d' a))) (active d' @ qs) = request_args evs"
proof -
  obtain d0 where
    d0: "usb_start env ein eout detached tfree u req_fn bcast_fn barg = Some d0" "usb_sim d0 sp_start {}" "busy d0"
      "wired req_fn bcast_fn barg d0" "unat (d_queue_size d0) = 255"
    by (rule usb_start_sim [OF assms(1)])
  from usb_run_log [OF assms(1) d0(2,4,3,5) assms(2), of "[]"] obtain d' E qs where
    r: "usb_run env log_req log_bcast evs (d0, []) = Some (d', snd (usb_spec_run 255 evs sp_start))"
      "usb_rep d' qs E" "usb_abs d' qs (fst (usb_spec_run 255 evs sp_start))" by (auto simp: usb_sim_def)
  have "map snd (sp_pending (fst (usb_spec_run 255 evs sp_start))) =
      map (\<lambda>a. t_arg (the (d_transactions d' a))) (active d' @ qs)"
    using r(3) by (simp add: usb_abs_def item_def comp_def Let_def)
  moreover have "reply_args (snd (usb_spec_run 255 evs sp_start)) @
      map snd (sp_pending (fst (usb_spec_run 255 evs sp_start))) = request_args evs"
    using usb_spec_run_order [of sp_start evs 255] assms(3,4) by (simp add: sp_ok_def sp_start_def)
  ultimately show ?thesis using d0(1) r(1,2) by (auto simp: usb_rep_def)
qed

theorem usb_replies_in_order_witness:
  "\<exists>d0 d' log qs. usb_start demo_env 0x81 0x02 False () () () () None = Some d0 \<and>
     usb_run demo_env log_req log_bcast demo_events (d0, []) = Some (d', log) \<and> list_holds (d_queue d') (map Some qs) \<and>
     reply_args log @ map (\<lambda>a. t_arg (the (d_transactions d' a))) (active d' @ qs) = [Some 7]"
  using usb_replies_in_order [OF demo_env_ok demo_events_ok, of "0x81" "0x02" False "()" "()" "()" "()" None]
  by (simp add: demo_events_def)

text \<open>
  Property C5: every request is answered in the end, even by a device that never responds. After any run with at most 255 requests in all and no
  cancellation, let more rounds follow than there were requests, in each of which a receive fails, by its timeout or another error, and a send
  ends in any way. Then each request has been answered exactly once, in order, and the driver has freed all transactions and waits for
  the next event.
\<close>

theorem usb_all_answered:
  assumes "usb_env_ok env" and "\<forall>ev\<in>set evs. event_ok ev" and "\<forall>ev\<in>set evs. no_cancel ev"
    and "length (request_args evs) \<le> 255" and "\<forall>r\<in>set rs. round_ok r" and "length (request_args evs) < length rs"
  shows "\<exists>d0 d' log. usb_start env ein eout detached tfree u req_fn bcast_fn barg = Some d0 \<and>
    usb_run env log_req log_bcast (evs @ rounds rs) (d0, []) = Some (d', log) \<and>
    reply_args log = request_args evs \<and> d_transactions d' = Map.empty \<and> d_recv_transfer d' \<noteq> None"
proof -
  let ?all = "evs @ rounds rs"
  let ?r = "usb_spec_run 255 ?all sp_start"
  obtain d0 where
    d0: "usb_start env ein eout detached tfree u req_fn bcast_fn barg = Some d0" "usb_sim d0 sp_start {}" "busy d0"
      "wired req_fn bcast_fn barg d0" "unat (d_queue_size d0) = 255"
    by (rule usb_start_sim [OF assms(1)])
  have rd: "\<forall>ev\<in>set (rounds rs). event_ok ev \<and> no_cancel ev" "request_args (rounds rs) = []"
    using assms(5) by (induction rs) (auto simp: rounds_def)
  have "\<forall>ev\<in>set ?all. event_ok ev" using assms(2) rd by auto
  from usb_run_log [OF assms(1) d0(2,4,3,5) this, of "[]"] obtain d' E where
    r: "usb_run env log_req log_bcast ?all (d0, []) = Some (d', snd ?r)" "usb_sim d' (fst ?r) E" "busy d'" by auto
  have ord: "reply_args (snd (usb_spec_run 255 xs sp_start)) @ map snd (sp_pending (fst (usb_spec_run 255 xs sp_start))) =
      request_args xs \<and> sp_ok (fst (usb_spec_run 255 xs sp_start))"
    if "\<forall>ev\<in>set xs. no_cancel ev" "length (request_args xs) \<le> 255" for xs
    using usb_spec_run_order [of sp_start xs 255] that by (simp add: sp_ok_def sp_start_def)
  let ?s = "fst (usb_spec_run 255 evs sp_start)"
  from arg_cong [OF conjunct1 [OF ord [OF assms(3,4)]], of length] have "length (sp_pending ?s) < length rs"
    using assms(6) by simp
  from rounds_drain [OF conjunct2 [OF ord [OF assms(3,4)]] assms(5) this, of 255]
  have e: "sp_pending (fst ?r) = []" "sp_phase (fst ?r) = Idle"
    by (simp_all add: usb_spec_run_append split_beta)
  have "\<forall>ev\<in>set ?all. no_cancel ev" "request_args ?all = request_args evs" using assms(3) rd by auto
  from ord [OF this(1)] this(2) e(1) assms(4) have "reply_args (snd ?r) = request_args evs" by simp
  moreover from r(2) e have "dom (d_transactions d') = {}" "d_send_transfer d' = None"
    by (auto simp: usb_sim_def usb_rep_def usb_abs_def trans_rep_def phase_of_def split: if_splits)
  moreover from this(2) r(3) have "d_recv_transfer d' \<noteq> None" by (simp add: busy_def)
  ultimately show ?thesis using d0(1) r(1) by auto
qed

text \<open>Two requests, and rounds in which the receive times out or fails and the send completes, fails or times out.\<close>

definition demo_rounds :: "transfer_round list" where
  "demo_rounds = [(LIBUSB_TRANSFER_TIMED_OUT, 0, demo_packet, LIBUSB_TRANSFER_COMPLETED),
     (LIBUSB_TRANSFER_ERROR, 0, demo_packet, LIBUSB_TRANSFER_STALL),
     (LIBUSB_TRANSFER_TIMED_OUT, 0, demo_packet, LIBUSB_TRANSFER_TIMED_OUT)]"

theorem usb_all_answered_witness:
  "\<exists>d0 d' log. usb_start demo_env 0x81 0x02 False () () () () None = Some d0 \<and>
     usb_run demo_env log_req log_bcast ([Request 0 1 2 (Some 7), Request 3 4 5 (Some 8)] @ rounds demo_rounds) (d0, []) =
       Some (d', log) \<and>
     reply_args log = [Some 7, Some 8] \<and> d_transactions d' = Map.empty \<and> d_recv_transfer d' \<noteq> None"
proof -
  let ?evs = "[Request 0 1 2 (Some 7), Request 3 4 5 (Some 8)]"
  have "\<forall>ev\<in>set ?evs. event_ok ev" "\<forall>ev\<in>set ?evs. no_cancel ev" "length (request_args ?evs) \<le> 255"
      "\<forall>r\<in>set demo_rounds. round_ok r" "length (request_args ?evs) < length demo_rounds"
    by (simp_all add: demo_rounds_def demo_packet_def USBDALI_LENGTH_def)
  from usb_all_answered [OF demo_env_ok this, of "0x81" "0x02" False "()" "()" "()" "()" None]
  show ?thesis by simp
qed

text \<open>
  Property C20: the packet that \<open>usbdali_send\<close> hands to libusb has the layout of the comments in the source:
  direction, sequence number, 16 or 24 bit type, and the command bytes at their places in a zeroed
  buffer of 64 bytes; the transaction becomes the active one and carries the same sequence number, and
  the counter goes on modulo 256.
\<close>

theorem usbdali_send_packet:
  assumes "d_transactions d a = Some t" and "t_request t = Some r" and "d_frames d r = Some f"
    and "d_send_transfer d = None" and "d_transaction d = None" and "ue_buffer env"
    and "ue_alloc_transfer env (dom (d_transfers d)) = Some tr" and "unat (d_seq_num d) < 256"
  shows "\<exists>rc d'. usbdali_send env (Some a) d = Some (rc, d') \<and> d_send_transfer d' = Some tr \<and>
    map_option x_buffer (d_transfers d' tr) = Some (Some ([0x12, ucast (d_seq_num d), 0,
        if f_ecommand f = 0 then 0x03 else 0x04, 0, f_ecommand f, f_address f, f_command f] @ replicate 56 0)) \<and>
    map_option x_endpoint (d_transfers d' tr) = Some (d_endpoint_out d) \<and>
    d_transaction d' = Some a \<and> map_option t_seq_num (d_transactions d' a) = Some (d_seq_num d) \<and>
    unat (d_seq_num d') = Suc (unat (d_seq_num d)) mod 256"
proof -
  define n where "n = unat (d_seq_num d)"
  have n: "d_seq_num d = word_of_nat (n mod 256)" "n < 256" using assms(8) by (simp_all add: n_def)
  have "unat (if d_seq_num d = 0xff then 0 else d_seq_num d + 1) = Suc n mod 256"
    unfolding n(1) next_seq by (simp add: unat_of_nat)
  with assms show ?thesis
    by (auto simp: usbdali_send_def pack_send send_bytes_def interrupt_transfer_def Let_def n_def split: prod.splits)
qed

definition demo_dali :: "(unit, unit) UsbDali" where
  "demo_dali = (usbdali_init 0x81 0x02 True False () ())\<lparr>d_seq_num := 0xff,
     d_transactions := [5 \<mapsto> \<lparr>t_seq_num = 0, t_request = Some 9, t_arg = None\<rparr>],
     d_frames := [9 \<mapsto> \<lparr>f_ecommand = 0, f_address = 0xff, f_command = 0x08\<rparr>]\<rparr>"

theorem usbdali_send_packet_witness:
  "\<exists>rc d'. usbdali_send demo_env (Some 5) demo_dali = Some (rc, d') \<and> d_send_transfer d' = Some 1 \<and>
    map_option x_buffer (d_transfers d' 1) = Some (Some ([0x12, 0xff, 0, 0x03, 0, 0, 0xff, 0x08] @ replicate 56 0)) \<and>
    unat (d_seq_num d') = 0"
proof -
  have "d_transactions demo_dali 5 = Some \<lparr>t_seq_num = 0, t_request = Some 9, t_arg = None\<rparr>"
      "d_frames demo_dali 9 = Some \<lparr>f_ecommand = 0, f_address = 0xff, f_command = 0x08\<rparr>"
      "d_send_transfer demo_dali = None" "d_transaction demo_dali = None" "d_seq_num demo_dali = 0xff"
      "ue_buffer demo_env" "ue_alloc_transfer demo_env (dom (d_transfers demo_dali)) = Some 1"
    by (simp_all add: demo_dali_def usbdali_init_def demo_env_def bump_alloc_def)
  with usbdali_send_packet [of demo_dali 5 _ 9 _ demo_env 1] show ?thesis by fastforce
qed

text \<open>
  Property C21: \<open>usbdali_cancel\<close> disconnects exactly one client: afterwards no transaction, active or queued,
  refers to its argument, and everything else about every transaction, the queue and the frames is as before.
\<close>

theorem usbdali_cancel_correct:
  assumes "usb_sim d \<sigma> E" and "arg \<noteq> None"
  shows "\<exists>ts. usbdali_cancel (Some d) arg = Some (Some (d\<lparr>d_transactions := ts\<rparr>)) \<and>
    arg \<notin> args (d\<lparr>d_transactions := ts\<rparr>) \<and>
    (\<forall>a. ts a = map_option (\<lambda>t. t\<lparr>t_arg := if t_arg t = arg then None else t_arg t\<rparr>) (d_transactions d a))"
proof -
  from assms(1) obtain qs where "usb_rep d qs E" by (auto simp: usb_sim_def)
  from usbdali_cancel_eq [OF this assms(2)]
  have "usbdali_cancel (Some d) arg =
      Some (Some (d\<lparr>d_transactions := \<lambda>a. map_option (clear_arg arg) (d_transactions d a)\<rparr>))" .
  moreover have "t_arg (clear_arg arg t) \<noteq> arg" for t using assms(2) by (auto simp: clear_arg_def)
  then have "arg \<notin> args (d\<lparr>d_transactions := \<lambda>a. map_option (clear_arg arg) (d_transactions d a)\<rparr>)"
    by (simp add: args_def ran_map_option image_image) (metis imageE)
  moreover have "clear_arg arg = (\<lambda>t. t\<lparr>t_arg := if t_arg t = arg then None else t_arg t\<rparr>)"
    by (auto simp: clear_arg_def fun_eq_iff)
  ultimately show ?thesis
    by (intro exI [of _ "\<lambda>a. map_option (clear_arg arg) (d_transactions d a)"]) simp
qed

theorem usbdali_cancel_correct_witness:
  "\<exists>d0 d' log ts. usb_start demo_env 0x81 0x02 False () () () () None = Some d0 \<and>
     usb_run demo_env log_req log_bcast [Request 0 1 2 (Some 7), Request 0 3 4 (Some 8)] (d0, []) = Some (d', log) \<and>
     usbdali_cancel (Some d') (Some 7) = Some (Some (d'\<lparr>d_transactions := ts\<rparr>)) \<and>
     Some 7 \<notin> args (d'\<lparr>d_transactions := ts\<rparr>)"
proof -
  obtain d0 where d0: "usb_start demo_env 0x81 0x02 False () () () () None = Some d0" "usb_sim d0 sp_start {}" "busy d0"
      "wired () () None d0" "unat (d_queue_size d0) = 255"
    by (rule usb_start_sim [OF demo_env_ok])
  have "\<forall>ev\<in>set [Request 0 1 2 (Some 7), Request 0 3 4 (Some 8)]. event_ok ev" by simp
  from usb_run_log [OF demo_env_ok d0(2,4,3,5) this, of "[]"] obtain d' log \<sigma> E where
    r: "usb_run demo_env log_req log_bcast [Request 0 1 2 (Some 7), Request 0 3 4 (Some 8)] (d0, []) = Some (d', log)"
      "usb_sim d' \<sigma> E" by blast
  from usbdali_cancel_correct [OF r(2), of "Some 7"] d0(1) r(1) show ?thesis by blast
qed

text \<open>
  Property C22: admission. While fewer requests wait than the queue takes, \<open>usbdali_queue\<close> accepts the request
  and takes the frame over; otherwise it returns \<open>USBDALI_QUEUE_FULL\<close> and changes nothing, so that no
  transaction owns the frame and it is left to the caller.
\<close>

theorem usbdali_queue_admission:
  assumes "usb_env_ok env" and "usb_sim d \<sigma> (insert r E)" and "r \<notin> E" and "d_frames d r = Some f" and "busy d"
  shows "if sp_waiting \<sigma> < unat (d_queue_size d)
    then \<exists>d'. usbdali_queue env (Some d) (Some r) arg = Some (USBDALI_SUCCESS, Some d') \<and>
           usb_sim d' (\<sigma>\<lparr>sp_pending := sp_pending \<sigma> @ [(f, arg)]\<rparr>) E
    else usbdali_queue env (Some d) (Some r) arg = Some (USBDALI_QUEUE_FULL, Some d) \<and>
           (\<forall>t\<in>ran (d_transactions d). t_request t \<noteq> Some r)"
proof (cases "sp_waiting \<sigma> < unat (d_queue_size d)")
  case True
  with usbdali_queue_sim [OF assms(1-4) True, of arg] assms(5) show ?thesis by (auto simp: sp_request_def)
next
  case False
  from assms(2) obtain qs where t: "trans_rep (d_transactions d) (d_frames d) (active d @ qs) (insert r E)"
    by (auto simp: usb_sim_def usb_rep_def)
  have "t_request t \<noteq> Some r" if a: "d_transactions d a = Some t" for a t
  proof -
    from t a have "a \<in> set (active d @ qs)" unfolding trans_rep_def by blast
    with t a show ?thesis by (elim trans_rep_lookup) auto
  qed
  with False usbdali_queue_full [OF assms(2), of env "Some r" arg] show ?thesis by (auto simp: ran_def)
qed

theorem usbdali_queue_admission_witness:
  "\<exists>d' d''. usbdali_next demo_env (usbdali_init 0x81 0x02 True False () ()) = Some d' \<and>
     usbdali_queue demo_env (Some (d'\<lparr>d_frames := (d_frames d')(9 \<mapsto> \<lparr>f_ecommand = 0, f_address = 1, f_command = 2\<rparr>)\<rparr>))
       (Some 9) (Some 7) = Some (USBDALI_SUCCESS, Some (d'' :: (unit, unit) UsbDali))"
proof -
  let ?f = "\<lparr>f_ecommand = 0, f_address = 1, f_command = 2\<rparr> :: DaliFrame"
  from usbdali_next_sim [OF demo_env_ok usb_init_sim, of "0x81" "0x02" False "()" "()"] obtain d' where
    d': "usbdali_next demo_env (usbdali_init 0x81 0x02 True False () ()) = Some d'" "usb_sim d' sp_start {}" "busy d'"
      "config d' = config (usbdali_init 0x81 0x02 True False () ())"
    by (auto simp: busy_def usbdali_init_def sp_next_def sp_start_def split: if_splits)
  from d'(2) obtain qs where q: "usb_rep d' qs {}" "usb_abs d' qs sp_start" by (auto simp: usb_sim_def)
  then have "d_frames d' 9 = None"
    by (auto simp: usb_rep_def usb_abs_def trans_rep_def sp_start_def)
  define d1 where "d1 = d'\<lparr>d_frames := (d_frames d')(9 \<mapsto> ?f)\<rparr>"
  from frame_in [OF q \<open>d_frames d' 9 = None\<close>, where f = ?f] d'(2)
  have s: "usb_sim d1 sp_start (insert 9 {})" by (auto simp: usb_sim_def phase_of_def d1_def)
  have "busy d1" "d_frames d1 9 = Some ?f" using d'(3) by (simp_all add: d1_def busy_def)
  moreover have "sp_waiting sp_start < unat (d_queue_size d1)"
    using d'(4) by (simp add: d1_def config_def usbdali_init_def DEFAULT_QUEUESIZE_def sp_waiting_def sp_start_def)
  ultimately show ?thesis
    using usbdali_queue_admission [OF demo_env_ok s, of ?f "Some 7"] d'(1) by (auto simp: d1_def)
qed

text \<open>The driver with a libusb that returns other codes for the transfers it is given.\<close>

abbreviation with_results :: "(addr \<Rightarrow> libusb_transfer \<Rightarrow> 'u \<Rightarrow> int) \<Rightarrow> 'u usb_env \<Rightarrow> 'u usb_env" where
  "with_results rc env \<equiv> env\<lparr>ue_submit := \<lambda>a x u. (rc a x u, snd (ue_submit env a x u))\<rparr>"

lemma same_env:
  "ue_malloc (with_results rc env) = ue_malloc env" "ue_little (with_results rc env) = ue_little env"
  "ue_cancel (with_results rc env) = ue_cancel env" "ue_complete (with_results rc env) = ue_complete env"
  by simp_all

lemma receive_results: "map_option snd (usbdali_receive (with_results rc env) d) = map_option snd (usbdali_receive env d)"
  by (auto simp: usbdali_receive_def Let_def case_prod_beta map_option_bind comp_def intro!: bind_option_cong)

lemma send_results: "map_option snd (usbdali_send (with_results rc env) t d) = map_option snd (usbdali_send env t d)"
  by (auto simp: usbdali_send_def Let_def case_prod_beta map_option_bind comp_def intro!: bind_option_cong split: option.splits)

lemma next_results: "usbdali_next (with_results rc env) d = usbdali_next env d"
  unfolding usbdali_next_def Let_def receive_results send_results same_env ..

lemma packet_results: "receive_packet (with_results rc env) call_req call_bcast i s = receive_packet env call_req call_bcast i s"
  unfolding receive_packet_def answer_transaction_def same_env ..

lemma event_results: "usb_event_step (with_results rc env) call_req call_bcast ev s = usb_event_step env call_req call_bcast ev s"
proof -
  obtain d w where s: "s = (d, w)" by fastforce
  have "receive_status (with_results rc env) call_req call_bcast x s' = receive_status env call_req call_bcast x s'" for x s'
    unfolding receive_status_def packet_results same_env ..
  then show ?thesis unfolding s
    by (cases ev) (simp_all only: usb_event_step.simps usbdali_queue_def next_results complete_def usbdali_send_callback_def
      usbdali_receive_callback_def same_env)
qed

lemma run_results: "usb_run (with_results rc env) call_req call_bcast evs s = usb_run env call_req call_bcast evs s"
  by (induction evs arbitrary: s) (simp_all add: event_results split: option.splits)

lemma start_results:
  "usb_start (with_results rc env) ein eout detached tfree u rf bf barg = usb_start env ein eout detached tfree u rf bf barg"
  unfolding usb_start_def next_results ..

lemma usb_run_append:
  "usb_run env call_req call_bcast (evs @ evs') s =
     (case usb_run env call_req call_bcast evs s of None \<Rightarrow> None | Some s' \<Rightarrow> usb_run env call_req call_bcast evs' s')"
  by (induction evs arbitrary: s) (simp_all split: option.splits)

text \<open>While a send is under way, the calls of clients neither reach libusb nor call back.\<close>

fun is_call :: "usb_event \<Rightarrow> bool" where
  "is_call (Request ec ad cm arg) \<longleftrightarrow> True"
| "is_call (Cancel arg) \<longleftrightarrow> True"
| "is_call ev \<longleftrightarrow> False"

lemma call_while_sending:
  assumes "usb_event_step env call_req call_bcast ev (d, w) = Some (d', w')" "is_call ev" "d_send_transfer d \<noteq> None"
  shows "w' = w \<and> d_lib d' = d_lib d \<and> d_send_transfer d' = d_send_transfer d"
proof (cases ev)
  case (Request ec ad cm arg)
  have "usbdali_next env x = Some x" if "d_send_transfer x \<noteq> None" for x :: "('a, 'b) UsbDali" using that by (auto simp: usbdali_next_def)
  with assms Request show ?thesis
    by (auto simp: usbdali_queue_def usbdali_transaction_new_def split: bind_splits if_splits option.splits prod.splits)
next
  case (Cancel arg)
  with assms show ?thesis by (auto simp: usbdali_cancel_def split: bind_splits if_splits option.splits)
qed (use assms in simp_all)

lemma calls_while_sending:
  "usb_run env call_req call_bcast evs (d, w) = Some (d', w') \<Longrightarrow> \<forall>ev\<in>set evs. is_call ev \<Longrightarrow> d_send_transfer d \<noteq> None \<Longrightarrow>
     w' = w \<and> d_lib d' = d_lib d \<and> d_send_transfer d' = d_send_transfer d"
proof (induction evs arbitrary: d w)
  case (Cons ev evs)
  from Cons.prems(1) obtain d1 w1 where s: "usb_event_step env call_req call_bcast ev (d, w) = Some (d1, w1)"
      "usb_run env call_req call_bcast evs (d1, w1) = Some (d', w')" by (auto split: option.splits)
  from call_while_sending [OF s(1)] Cons.prems(2,3) have "w1 = w" "d_lib d1 = d_lib d" "d_send_transfer d1 = d_send_transfer d" by simp_all
  with Cons.IH [OF s(2)] Cons.prems(2,3) show ?case by simp
qed simp

text \<open>
  Property C40: a refused transfer stops the driver. The codes \<open>rc\<close> that libusb returns for the transfers it is given make no difference: the
  driver goes through the same states and makes the same callbacks as if all were accepted. Once a send was handed over, accepted or
  not, requests and cancellations call neither libusb nor the client until that transfer ends, and libusb does not report the
  end of a transfer that it refused: the active request and all later ones stay unanswered.
\<close>

theorem submit_result_ignored:
  assumes "usb_env_ok env" and "\<forall>ev\<in>set evs. event_ok ev" and "\<forall>ev\<in>set calls. is_call ev"
  shows "\<exists>d0 d log. usb_start (with_results rc env) ein eout detached tfree u req_fn bcast_fn barg = Some d0 \<and>
    usb_run (with_results rc env) log_req log_bcast evs (d0, []) = Some (d, log) \<and>
    usb_run env log_req log_bcast evs (d0, []) = Some (d, log) \<and>
    (d_send_transfer d \<noteq> None \<longrightarrow> (\<exists>d'. usb_run (with_results rc env) log_req log_bcast calls (d, log) = Some (d', log) \<and>
       d_lib d' = d_lib d \<and> d_send_transfer d' = d_send_transfer d))"
proof -
  obtain d0 where d0: "usb_start env ein eout detached tfree u req_fn bcast_fn barg = Some d0" "usb_sim d0 sp_start {}" "busy d0"
      "wired req_fn bcast_fn barg d0" "unat (d_queue_size d0) = 255"
    by (rule usb_start_sim [OF assms(1)])
  from usb_run_log [OF assms(1) d0(2,4,3,5) assms(2), of "[]"] obtain d log where
    d: "usb_run env log_req log_bcast evs (d0, []) = Some (d, log)" by blast
  have "\<forall>ev\<in>set (evs @ calls). event_ok ev" using assms(2,3) by (auto elim!: is_call.elims)
  from usb_run_log [OF assms(1) d0(2,4,3,5) this, of "[]"] d obtain d' log' where
    "usb_run env log_req log_bcast calls (d, log) = Some (d', log')" by (auto simp: usb_run_append)
  with calls_while_sending [OF this assms(3)] d0(1) d show ?thesis
    by (auto simp: run_results start_results)
qed

theorem submit_result_ignored_witness:
  "\<exists>d0 d d'. usb_start (with_results (\<lambda>a x u. -4) demo_env) 0x81 0x02 False () () () () None = Some d0 \<and>
     usb_run (with_results (\<lambda>a x u. -4) demo_env) log_req log_bcast (take 2 demo_events) (d0, []) = Some (d, []) \<and>
     d_send_transfer d \<noteq> None \<and>
     usb_run (with_results (\<lambda>a x u. -4) demo_env) log_req log_bcast [Request 0 1 2 (Some 7)] (d, []) = Some (d', [])"
proof -
  let ?evs = "take 2 demo_events" and ?calls = "[Request 0 1 2 (Some 7)]"
  have ok: "\<forall>ev\<in>set ?evs. event_ok ev" "\<forall>ev\<in>set ?calls. is_call ev"
    using demo_events_ok by (auto dest: in_set_takeD)
  obtain d0 where d0: "usb_start demo_env 0x81 0x02 False () () () () None = Some d0" "usb_sim d0 sp_start {}" "busy d0"
      "wired () () None d0" "unat (d_queue_size d0) = 255"
    by (rule usb_start_sim [OF demo_env_ok])
  have sp: "usb_spec_run 255 ?evs sp_start = (\<lparr>sp_phase = Sending, sp_pending = [(\<lparr>f_ecommand = 0, f_address = 0xff, f_command = 8\<rparr>, Some 7)], sp_sent = 1\<rparr>, [])"
    by (simp add: demo_events_def sp_start_def sp_waiting_def sp_request_def sp_next_def)
  from usb_run_log [OF demo_env_ok d0(2,4,3,5) ok(1), of "[]"] sp obtain d E where
    d: "usb_run demo_env log_req log_bcast ?evs (d0, []) = Some (d, [])" "sp_phase (fst (usb_spec_run 255 ?evs sp_start)) = Sending"
      "usb_sim d (fst (usb_spec_run 255 ?evs sp_start)) E" by auto
  then have "d_send_transfer d \<noteq> None" by (auto simp: usb_sim_def phase_of_def usb_abs_def split: if_splits)
  moreover from submit_result_ignored [OF demo_env_ok ok, of "\<lambda>a x u. -4" "0x81" "0x02" False "()" "()" "()" "()" None]
  obtain d1 d2 log where r: "usb_start (with_results (\<lambda>a x u. -4) demo_env) 0x81 0x02 False () () () () None = Some d1"
      "usb_run (with_results (\<lambda>a x u. -4) demo_env) log_req log_bcast ?evs (d1, []) = Some (d2, log)"
      "usb_run demo_env log_req log_bcast ?evs (d1, []) = Some (d2, log)"
      "d_send_transfer d2 \<noteq> None \<longrightarrow> (\<exists>d'. usb_run (with_results (\<lambda>a x u. -4) demo_env) log_req log_bcast ?calls (d2, log) = Some (d', log))"
    by blast
  moreover have "d1 = d0" using r(1) d0(1) unfolding start_results by simp
  then have "d2 = d \<and> log = []" using r(3) d(1) by simp
  ultimately show ?thesis by blast
qed

end
