(* ===== verification/Usb_Device.thy ===== *)
theory Usb_Device
  imports Usb_Properties Dispatch_Queue
begin

text \<open>
  Opening and closing the device in \<open>lib/usb.c\<close>. The answers of libusb and of the allocator are a record;
  what the code acquires and gives back is a trace, against which the error paths are checked.
\<close>

section \<open>The device\<close>

datatype resource = Context | Device_list | Handle | Config_descriptor | Kernel_driver | Interface
  | Pollfd_array | Usb_pollfds | Driver

text \<open>\<open>Refused\<close>: a call that acquires or gives back nothing, because it failed or because there is nothing to give back.\<close>

datatype trace_item = Acquire resource | Release resource | Refused resource

record libusb_device =
  dv_error :: int
  dv_vendor :: uint16
  dv_product :: uint16
  dv_bus :: byte
  dv_address :: byte

definition VENDOR_ID :: uint16 where "VENDOR_ID = 0x17b5"
definition PRODUCT_ID :: uint16 where "PRODUCT_ID = 0x0020"

text \<open>
  The results of the calls of \<open>usbdali_open\<close>: \<open>q_devices\<close> is \<open>None\<close> when the enumeration fails, and
  the configuration has a number of interfaces, of alternate settings and of endpoints, and the
  addresses of the first two endpoints.
\<close>

record usb_answers =
  q_init :: int
  q_devices :: "libusb_device list option"
  q_open :: "libusb_device \<Rightarrow> int"
  q_config :: int
  q_interfaces :: nat
  q_altsettings :: nat
  q_endpoints :: nat
  q_endpoint0 :: byte
  q_endpoint1 :: byte
  q_active :: int
  q_detach :: int
  q_configure :: int
  q_claim :: int
  q_altsetting :: int
  q_array :: bool
  q_pollfds :: "(int \<times> uint16) list option"
  q_malloc :: bool
  q_list :: bool

section \<open>Finding the device\<close>

definition is_dali :: "int \<Rightarrow> int \<Rightarrow> libusb_device \<Rightarrow> bool" where
  "is_dali busnum devnum dev \<longleftrightarrow>
     (if dv_error dev = 0 then
        (if dv_vendor dev = VENDOR_ID \<and> dv_product dev = PRODUCT_ID then
           (if busnum \<ge> 0 \<and> devnum \<ge> 0 then uint (dv_bus dev) = busnum \<and> uint (dv_address dev) = devnum else True)
         else False)
      else False)"

fun find_loop :: "int \<Rightarrow> int \<Rightarrow> libusb_device list \<Rightarrow> nat \<Rightarrow> libusb_device option \<Rightarrow> libusb_device option" where
  "find_loop busnum devnum devs 0 found = found"
| "find_loop busnum devnum devs (Suc k) found =
     (if found = None
      then find_loop busnum devnum devs k
        (if is_dali busnum devnum (devs ! (length devs - Suc k)) then Some (devs ! (length devs - Suc k)) else found)
      else found)"

definition usbdali_find_device :: "int \<Rightarrow> int \<Rightarrow> usb_answers \<Rightarrow> libusb_device option \<times> trace_item list" where
  "usbdali_find_device busnum devnum q = (case q_devices q of
     None \<Rightarrow> (None, [])
   | Some devs \<Rightarrow>
     (case find_loop busnum devnum devs (length devs) None of
        None \<Rightarrow> (None, [Acquire Device_list, Release Device_list])
      | Some dev \<Rightarrow>
        if q_open q dev < 0 then (None, [Acquire Device_list, Release Device_list])
        else (Some dev, [Acquire Device_list, Acquire Handle, Release Device_list])))"

section \<open>Opening\<close>

text \<open>
  The nested conditions of \<open>usbdali_open\<close>, from the inside out. Each returns the driver, the dispatch table
  and the trace, or \<open>None\<close> for undefined behaviour. \<open>add\<close> is \<open>usbdali_add_pollfd\<close> with the driver's address.
\<close>

type_synonym ('f, 'u) opened = "(('f, 'u) UsbDaliPtr \<times> 'f DispatchPtr \<times> trace_item list) option"

fun add_all :: "(int \<Rightarrow> uint16 \<Rightarrow> 'f DispatchPtr \<Rightarrow> 'f DispatchPtr option) \<Rightarrow> (int \<times> uint16) list \<Rightarrow> 'f DispatchPtr \<Rightarrow>
    'f DispatchPtr option" where
  "add_all add [] t = Some t"
| "add_all add ((fd, events) # fds) t = do { t' \<leftarrow> add fd events t; add_all add fds t' }"

definition open_structure :: "'u usb_env \<Rightarrow> (int \<Rightarrow> uint16 \<Rightarrow> 'f DispatchPtr \<Rightarrow> 'f DispatchPtr option) \<Rightarrow> 'f \<Rightarrow> usb_answers \<Rightarrow>
    byte \<Rightarrow> byte \<Rightarrow> bool \<Rightarrow> 'f DispatchPtr \<Rightarrow> 'u \<Rightarrow> ('f, 'u) opened" where
  "open_structure env add tfree q ein eout detached dispatch u =
     (let got = (if q_array q then [Acquire Pollfd_array] else []) @ (if q_pollfds q \<noteq> None then [Acquire Usb_pollfds] else []);
          undo = (if q_array q then [Release Pollfd_array] else []) @ (if q_pollfds q \<noteq> None then [Release Usb_pollfds] else [])
      in case q_pollfds q of
           Some fds \<Rightarrow>
             if q_array q then
               (if q_malloc q then do {
                  t \<leftarrow> add_all add fds dispatch;
                  d \<leftarrow> usbdali_next env (usbdali_init ein eout (q_list q) detached tfree u);
                  Some (Some d, t, got @ [Acquire Driver, Release Config_descriptor, Release Usb_pollfds])
                }
                else Some (None, dispatch, got @ undo))
             else Some (None, dispatch, got @ undo)
         | None \<Rightarrow> Some (None, dispatch, got @ undo))"

definition open_interface :: "'u usb_env \<Rightarrow> (int \<Rightarrow> uint16 \<Rightarrow> 'f DispatchPtr \<Rightarrow> 'f DispatchPtr option) \<Rightarrow> 'f \<Rightarrow> usb_answers \<Rightarrow>
    byte \<Rightarrow> byte \<Rightarrow> bool \<Rightarrow> 'f DispatchPtr \<Rightarrow> 'u \<Rightarrow> ('f, 'u) opened" where
  "open_interface env add tfree q ein eout detached dispatch u =
     (if q_configure q = 0 then
        (if q_claim q = 0 then
           (if q_altsetting q = 0 then do {
              (dali, t, tr) \<leftarrow> open_structure env add tfree q ein eout detached dispatch u;
              Some (dali, t, Acquire Interface # tr @ (if dali = None then [Release Interface] else []))
            }
            else Some (None, dispatch, [Acquire Interface, Release Interface]))
         else Some (None, dispatch, []))
      else Some (None, dispatch, []))"

definition LIBUSB_ENDPOINT_DIR_MASK :: byte where "LIBUSB_ENDPOINT_DIR_MASK = 0x80"
definition LIBUSB_ENDPOINT_IN :: byte where "LIBUSB_ENDPOINT_IN = 0x80"

definition endpoint_dir :: "byte \<Rightarrow> byte" where
  "endpoint_dir e = Bit_Operations.and e LIBUSB_ENDPOINT_DIR_MASK"

text \<open>
  The flag \<open>detached\<close> is set before the driver is detached and stays set when that fails. The kernel's driver is then still in place, and
  attaching it again later, here or in \<open>usbdali_close\<close>, is refused: \<open>taken\<close> tells whether it was really taken away.
\<close>

definition attach_kernel_driver :: "bool \<Rightarrow> trace_item" where
  "attach_kernel_driver taken = (if taken then Release Kernel_driver else Refused Kernel_driver)"

definition open_endpoints :: "'u usb_env \<Rightarrow> (int \<Rightarrow> uint16 \<Rightarrow> 'f DispatchPtr \<Rightarrow> 'f DispatchPtr option) \<Rightarrow> 'f \<Rightarrow> usb_answers \<Rightarrow>
    'f DispatchPtr \<Rightarrow> 'u \<Rightarrow> ('f, 'u) opened" where
  "open_endpoints env add tfree q dispatch u =
     (let (ein, eout) = (if endpoint_dir (q_endpoint0 q) = LIBUSB_ENDPOINT_IN then (q_endpoint0 q, q_endpoint1 q)
                         else (q_endpoint1 q, q_endpoint0 q));
          detached = (q_active q = 1)
      in if q_active q \<ge> 0 then do {
           (dali, t, tr) \<leftarrow> open_interface env add tfree q ein eout detached dispatch u;
           Some (dali, t, (if detached then [if q_detach q = 0 then Acquire Kernel_driver else Refused Kernel_driver] else []) @ tr @
             (if dali = None \<and> detached then [attach_kernel_driver (q_detach q = 0)] else []))
         }
         else Some (None, dispatch, []))"

definition open_config :: "'u usb_env \<Rightarrow> (int \<Rightarrow> uint16 \<Rightarrow> 'f DispatchPtr \<Rightarrow> 'f DispatchPtr option) \<Rightarrow> 'f \<Rightarrow> usb_answers \<Rightarrow>
    'f DispatchPtr \<Rightarrow> 'u \<Rightarrow> ('f, 'u) opened" where
  "open_config env add tfree q dispatch u =
     (if q_config q = 0 then do {
        (dali, t, tr) \<leftarrow> (if q_interfaces q = 1 \<and> q_altsettings q = 1 \<and> q_endpoints q = 2
                        then open_endpoints env add tfree q dispatch u
                        else Some (None, dispatch, []));
        Some (dali, t, Acquire Config_descriptor # tr @ (if dali = None then [Release Config_descriptor] else []))
      }
      else Some (None, dispatch, []))"

text \<open>\<open>context\<close>: whether the caller passes a libusb context. \<open>main\<close> passes NULL.\<close>

definition usbdali_open :: "'u usb_env \<Rightarrow> (int \<Rightarrow> uint16 \<Rightarrow> 'f DispatchPtr \<Rightarrow> 'f DispatchPtr option) \<Rightarrow> 'f \<Rightarrow> usb_answers \<Rightarrow>
    bool \<Rightarrow> 'f DispatchPtr \<Rightarrow> int \<Rightarrow> int \<Rightarrow> 'u \<Rightarrow> ('f, 'u) opened" where
  "usbdali_open env add tfree q given dispatch busnum devnum u =
     (if dispatch = None then Some (None, dispatch, [])
      else if \<not> given \<and> q_init q \<noteq> 0 then Some (None, dispatch, [])
      else do {
        let (handle, tr0) = usbdali_find_device busnum devnum q;
        (dali, t, tr) \<leftarrow> (if handle \<noteq> None then open_config env add tfree q dispatch u else Some (None, dispatch, []));
        Some (dali, t, (if given then [] else [Acquire Context]) @ tr0 @ tr @
          (if dali = None \<and> handle \<noteq> None then [Release Handle] else []) @
          (if dali = None \<and> \<not> given then [Release Context] else []))
      })"

section \<open>Closing\<close>

text \<open>
  \<open>usbdali_close\<close>: \<open>evs\<close> are the transfers that end while libusb handles the events a last time. The queue
  and the active transaction are freed before that, but their pointers stay: the freed list is replaced
  by one without nodes, so that any access to it is undefined.
\<close>

definition freed_list :: "'f ListPtr \<Rightarrow> 'f ListPtr" where
  "freed_list = map_option (\<lambda>l. l\<lparr>l_nodes := Map.empty\<rparr>)"

definition cancel_transfer :: "'u usb_env \<Rightarrow> ptr \<Rightarrow> ('f, 'u) UsbDali \<Rightarrow> ('f, 'u) UsbDali" where
  "cancel_transfer env tr d = (case tr of None \<Rightarrow> d | Some a \<Rightarrow> d\<lparr>d_lib := snd (ue_cancel env a (d_lib d))\<rparr>)"

definition close_trace :: "bool \<Rightarrow> bool \<Rightarrow> ('f, 'u) UsbDali \<Rightarrow> trace_item list" where
  "close_trace free_context taken d = [Release Interface] @ (if d_detached d then [attach_kernel_driver taken] else []) @ [Release Handle] @
     (if free_context then [Release Context] else []) @ [Release Driver]"

definition usbdali_close :: "'u usb_env \<Rightarrow> ('f, 'u, 'w) req_call \<Rightarrow> ('f, 'u, 'w) bcast_call \<Rightarrow> usb_event list \<Rightarrow> bool \<Rightarrow> bool \<Rightarrow>
    ('f, 'u) UsbDaliPtr \<Rightarrow> 'w \<Rightarrow> (('f, 'u) UsbDaliPtr \<times> 'w \<times> trace_item list) option" where
  "usbdali_close env call_req call_bcast evs free_context taken dali w = (case dali of
     None \<Rightarrow> Some (None, w, [])
   | Some d \<Rightarrow> do {
       let d0 = d\<lparr>d_shutdown := True\<rparr>;
       d1 \<leftarrow> list_free (\<lambda>f a. usbdali_transaction_free (Some a)) (d_queue d0) d0;
       let d2 = d1\<lparr>d_queue := freed_list (d_queue d1)\<rparr>;
       d3 \<leftarrow> usbdali_transaction_free (d_transaction d2) d2;
       let d4 = cancel_transfer env (d_recv_transfer d3) d3;
       let d5 = cancel_transfer env (d_send_transfer d4) d4;
       (d6, w') \<leftarrow> usb_run env call_req call_bcast evs (d5, w);
       Some (Some d6, w', close_trace free_context taken d6)
     })"

section \<open>Resources\<close>

fun balance :: "trace_item list \<Rightarrow> resource \<Rightarrow> int" where
  "balance [] r = 0"
| "balance (Acquire x # tr) r = (if x = r then 1 else 0) + balance tr r"
| "balance (Release x # tr) r = balance tr r - (if x = r then 1 else 0)"
| "balance (Refused x # tr) r = balance tr r"

lemma balance_append [simp]: "balance (xs @ ys) r = balance xs r + balance ys r"
  by (induction xs r rule: balance.induct) auto

definition held :: "resource set \<Rightarrow> resource \<Rightarrow> int" where
  "held R r = (if r \<in> R then 1 else 0)"

text \<open>What an opened driver holds, and what the stages of opening it leave behind when they fail.\<close>

definition open_holds :: "usb_answers \<Rightarrow> bool \<Rightarrow> resource set" where
  "open_holds q given = {Handle, Interface, Driver, Pollfd_array} \<union> (if q_active q = 1 \<and> q_detach q = 0 then {Kernel_driver} else {}) \<union>
     (if given then {} else {Context})"

lemma open_structure_balance:
  assumes "open_structure env add tfree q ein eout detached dispatch u = Some (dali, t, tr)"
  shows "balance tr = (if dali = None then held {} else (\<lambda>r. held {Driver, Pollfd_array} r - held {Config_descriptor} r)) \<and>
    (dali = None \<longrightarrow> t = dispatch)"
  using assms
  by (auto simp: open_structure_def Let_def held_def fun_eq_iff bind_Some_iff split: option.splits if_splits)

lemma open_interface_balance:
  assumes "open_interface env add tfree q ein eout detached dispatch u = Some (dali, t, tr)"
  shows "balance tr = (if dali = None then held {} else (\<lambda>r. held {Interface, Driver, Pollfd_array} r - held {Config_descriptor} r)) \<and>
    (dali = None \<longrightarrow> t = dispatch)"
  using assms
  by (auto simp: open_interface_def held_def fun_eq_iff bind_Some_iff split: option.splits if_splits dest!: open_structure_balance)

lemma open_endpoints_balance:
  assumes "open_endpoints env add tfree q dispatch u = Some (dali, t, tr)"
  shows "balance tr = (if dali = None then held {} else (\<lambda>r. held (open_holds q True - {Handle}) r - held {Config_descriptor} r)) \<and>
    (dali = None \<longrightarrow> t = dispatch)"
  using assms
  by (auto simp: open_endpoints_def attach_kernel_driver_def held_def open_holds_def fun_eq_iff bind_Some_iff Let_def split: option.splits if_splits prod.splits
      dest!: open_interface_balance)

lemma open_config_balance:
  assumes "open_config env add tfree q dispatch u = Some (dali, t, tr)"
  shows "balance tr = (if dali = None then held {} else held (open_holds q True - {Handle})) \<and> (dali = None \<longrightarrow> t = dispatch)"
  using assms
  by (auto simp: open_config_def held_def open_holds_def fun_eq_iff bind_Some_iff split: option.splits if_splits
      dest!: open_endpoints_balance)

lemma find_device_balance:
  "balance (snd (usbdali_find_device busnum devnum q)) =
     held (if fst (usbdali_find_device busnum devnum q) = None then {} else {Handle})"
  by (auto simp: usbdali_find_device_def held_def fun_eq_iff split: option.splits)

lemma usbdali_open_balance:
  assumes "usbdali_open env add tfree q given dispatch busnum devnum u = Some (dali, t, tr)"
  shows "balance tr = held (if dali = None then {} else open_holds q given) \<and> (dali = None \<longrightarrow> t = dispatch)"
proof -
  obtain handle tr0 where f: "usbdali_find_device busnum devnum q = (handle, tr0)" by fastforce
  have b0: "balance tr0 = held (if handle = None then {} else {Handle})"
    using find_device_balance [of busnum devnum q] f by simp
  show ?thesis
  proof (cases "dispatch = None \<or> \<not> given \<and> q_init q \<noteq> 0")
    case True
    then have "usbdali_open env add tfree q given dispatch busnum devnum u = Some (None, dispatch, [])"
      unfolding usbdali_open_def by (simp only: if_True if_cancel split: if_split) blast
    with assms show ?thesis by (simp add: held_def fun_eq_iff)
  next
    case False
    then obtain tr1 where r: "(if handle \<noteq> None then open_config env add tfree q dispatch u else Some (None, dispatch, [])) =
        Some (dali, t, tr1)" and tr: "tr = (if given then [] else [Acquire Context]) @ tr0 @ tr1 @
          (if dali = None \<and> handle \<noteq> None then [Release Handle] else []) @
          (if dali = None \<and> \<not> given then [Release Context] else [])"
      using assms f by (auto simp: usbdali_open_def bind_Some_iff simp del: if_split_asm)
    have b1: "balance tr1 = held (if dali = None then {} else open_holds q True - {Handle})" "dali = None \<longrightarrow> t = dispatch"
      and h: "dali \<noteq> None \<longrightarrow> handle \<noteq> None"
      using r open_config_balance [of env add tfree q dispatch u dali t tr1]
      by (auto simp: held_def fun_eq_iff split: if_splits)
    have "balance tr r = held (if dali = None then {} else open_holds q given) r" for r
      using h unfolding tr balance_append b0 b1(1) by (auto simp: held_def open_holds_def)
    with b1(2) show ?thesis by (simp add: fun_eq_iff)
  qed
qed

section \<open>When a driver is opened\<close>

definition device_ok :: "usb_answers \<Rightarrow> int \<Rightarrow> int \<Rightarrow> bool" where
  "device_ok q busnum devnum \<longleftrightarrow> fst (usbdali_find_device busnum devnum q) \<noteq> None \<and> q_config q = 0 \<and> q_interfaces q = 1 \<and>
     q_altsettings q = 1 \<and> q_endpoints q = 2 \<and> q_active q \<ge> 0 \<and> q_configure q = 0 \<and> q_claim q = 0 \<and> q_altsetting q = 0 \<and>
     q_array q \<and> q_pollfds q \<noteq> None \<and> q_malloc q"

lemma open_structure_success:
  "open_structure env add tfree q ein eout detached dispatch u = Some (dali, t, tr) \<Longrightarrow>
     dali \<noteq> None \<longleftrightarrow> q_array q \<and> q_pollfds q \<noteq> None \<and> q_malloc q"
  by (auto simp: open_structure_def Let_def bind_Some_iff split: option.splits if_splits)

lemma open_interface_success:
  "open_interface env add tfree q ein eout detached dispatch u = Some (dali, t, tr) \<Longrightarrow>
     dali \<noteq> None \<longleftrightarrow> q_configure q = 0 \<and> q_claim q = 0 \<and> q_altsetting q = 0 \<and> q_array q \<and> q_pollfds q \<noteq> None \<and> q_malloc q"
  by (auto simp: open_interface_def bind_Some_iff split: if_splits dest!: open_structure_success)

lemma open_endpoints_success:
  "open_endpoints env add tfree q dispatch u = Some (dali, t, tr) \<Longrightarrow>
     dali \<noteq> None \<longleftrightarrow> q_active q \<ge> 0 \<and> q_configure q = 0 \<and> q_claim q = 0 \<and> q_altsetting q = 0 \<and> q_array q \<and>
       q_pollfds q \<noteq> None \<and> q_malloc q"
  by (auto simp: open_endpoints_def bind_Some_iff Let_def split: if_splits prod.splits dest!: open_interface_success)

lemma open_config_success:
  "open_config env add tfree q dispatch u = Some (dali, t, tr) \<Longrightarrow> fst (usbdali_find_device busnum devnum q) \<noteq> None \<Longrightarrow>
     dali \<noteq> None \<longleftrightarrow> device_ok q busnum devnum"
  by (auto simp: open_config_def device_ok_def bind_Some_iff split: if_splits dest!: open_endpoints_success)

lemma usbdali_open_success:
  assumes "usbdali_open env add tfree q False (Some t0) busnum devnum u = Some (dali, t, tr)"
  shows "dali \<noteq> None \<longleftrightarrow> q_init q = 0 \<and> device_ok q busnum devnum"
proof -
  obtain handle tr0 where f: "usbdali_find_device busnum devnum q = (handle, tr0)" by fastforce
  show ?thesis
  proof (cases "q_init q = 0 \<and> handle \<noteq> None")
    case False
    with assms f show ?thesis by (auto simp: usbdali_open_def device_ok_def split: if_splits)
  next
    case True
    with assms f obtain tr1 where "open_config env add tfree q (Some t0) u = Some (dali, t, tr1)"
      by (auto simp: usbdali_open_def bind_Some_iff)
    from open_config_success [OF this, of busnum devnum] True f show ?thesis by simp
  qed
qed

section \<open>Finding the device, again\<close>

lemma find_loop_found [simp]: "find_loop b n devs k (Some x) = Some x"
  by (cases k) auto

lemma find_loop_eq: "k \<le> length devs \<Longrightarrow> find_loop b n devs k None = List.find (is_dali b n) (drop (length devs - k) devs)"
proof (induction k)
  case 0
  then show ?case by simp
next
  case (Suc k)
  let ?i = "length devs - Suc k"
  have "drop ?i devs = devs ! ?i # drop (length devs - k) devs"
    using Suc.prems by (metis Cons_nth_drop_Suc Suc_diff_Suc Suc_le_lessD diff_less less_le_trans zero_less_Suc)
  with Suc show ?case by simp
qed

section \<open>The driver that is opened\<close>

definition opened_ok :: "('f Dispatch \<Rightarrow> bool) \<Rightarrow> 'f \<Rightarrow> bool \<Rightarrow> ('f, 'u) opened \<Rightarrow> bool" where
  "opened_ok P tfree det r \<longleftrightarrow> (\<exists>dali t tr. r = Some (dali, Some t, tr) \<and> P t \<and>
     (\<forall>d. dali = Some d \<longrightarrow> usb_sim d sp_start {} \<and> busy d \<and>
        config d = (None, None, None, False, DEFAULT_QUEUESIZE, Some (Some tfree), det)))"

lemma opened_ok_none: "P t \<Longrightarrow> opened_ok P tfree det (Some (None, Some t, tr))"
  by (simp add: opened_ok_def)

lemma opened_ok_bind:
  "opened_ok P tfree det r \<Longrightarrow> opened_ok P tfree det (do { (dali, t, tr) \<leftarrow> r; Some (dali, t, f dali tr) })"
  by (auto simp: opened_ok_def)

text \<open>
  The driver registers libusb's descriptors through \<open>add\<close>. The contract: for an invariant of the table,
  registering succeeds and keeps it.
\<close>

locale pollfd_table =
  fixes add :: "int \<Rightarrow> uint16 \<Rightarrow> 'f DispatchPtr \<Rightarrow> 'f DispatchPtr option"
    and P :: "'f Dispatch \<Rightarrow> bool"
  assumes add_ok: "P t \<Longrightarrow> \<exists>t'. add fd events (Some t) = Some (Some t') \<and> P t'"
begin

lemma add_all_ok: "P t \<Longrightarrow> \<exists>t'. add_all add fds (Some t) = Some (Some t') \<and> P t'"
proof (induction fds arbitrary: t)
  case (Cons x fds)
  obtain fd events where x: "x = (fd, events)" by fastforce
  from add_ok [OF Cons.prems, of fd events] obtain t1 where "add fd events (Some t) = Some (Some t1)" "P t1" by blast
  with Cons.IH x show ?case by simp
qed simp

lemma structure_ok:
  assumes "usb_env_ok env" "q_list q" "P t"
  shows "opened_ok P tfree det (open_structure env add tfree q ein eout det (Some t) u)"
proof -
  from usbdali_next_sim [OF assms(1) usb_init_sim, of ein eout det tfree u] obtain d where
    d: "usbdali_next env (usbdali_init ein eout True det tfree u) = Some d" "usb_sim d sp_start {}" "busy d"
      "config d = config (usbdali_init ein eout True det tfree u)"
    by (auto simp: busy_def usbdali_init_def sp_next_def sp_start_def split: if_splits)
  have "config d = (None, None, None, False, DEFAULT_QUEUESIZE, Some (Some tfree), det)"
    using d(4) by (simp add: config_def usbdali_init_def list_new_def)
  moreover obtain t' where "add_all add (the (q_pollfds q)) (Some t) = Some (Some t')" "P t'"
    using add_all_ok [OF assms(3)] by blast
  ultimately show ?thesis
    using d(1-3) assms(2,3) by (auto simp: open_structure_def opened_ok_def Let_def split: option.splits)
qed

lemma open_ok:
  assumes "usb_env_ok env" "q_list q" "P t"
  shows "opened_ok P tfree (q_active q = 1) (usbdali_open env add tfree q given (Some t) busnum devnum u)"
proof -
  note none = opened_ok_none [of P, OF assms(3)]
  have "opened_ok P tfree det (open_interface env add tfree q ein eout det (Some t) u)" for ein eout det
    using opened_ok_bind [OF structure_ok [OF assms]] by (simp add: open_interface_def none)
  note 1 = opened_ok_bind [OF this]
  have "opened_ok P tfree (q_active q = 1) (open_endpoints env add tfree q (Some t) u)"
    using 1 by (simp add: open_endpoints_def Let_def none split: prod.split)
  then have "opened_ok P tfree (q_active q = 1) (if q_interfaces q = 1 \<and> q_altsettings q = 1 \<and> q_endpoints q = 2
      then open_endpoints env add tfree q (Some t) u else Some (None, Some t, []))" by (simp add: none)
  note 2 = opened_ok_bind [OF this]
  have "opened_ok P tfree (q_active q = 1) (open_config env add tfree q (Some t) u)"
    using 2 by (simp add: open_config_def none)
  then have "opened_ok P tfree (q_active q = 1)
      (if handle \<noteq> None then open_config env add tfree q (Some t) u else Some (None, Some t, []))"
    for handle :: "libusb_device option" by (simp add: none)
  note 3 = opened_ok_bind [OF this]
  show ?thesis
    using 3 by (simp add: usbdali_open_def Let_def none split: prod.split)
qed

end

section \<open>Closing the driver\<close>

lemma trans_rep_perm:
  assumes "trans_rep ts fs as E" "mset as = mset bs"
  shows "trans_rep ts fs bs E"
proof -
  let ?f = "\<lambda>a. t_request (the (ts a))"
  from assms(1) obtain rs where rs: "map ?f as = map Some rs" "distinct rs" "dom fs = set rs \<union> E" "set rs \<inter> E = {}"
    by (auto simp: trans_rep_def)
  have e: "set as = set bs" "distinct as = distinct bs"
    using assms(2) by (auto dest: mset_eq_setD mset_eq_imp_distinct_iff)
  let ?rs = "map (the \<circ> ?f) bs"
  have "rs = map (the \<circ> ?f) as" using arg_cong [OF rs(1), of "map the"] by (simp add: comp_def)
  then have m: "mset ?rs = mset rs" using assms(2) by (metis mset_map)
  have r: "set ?rs = set rs" "distinct ?rs"
    using mset_eq_setD [OF m] mset_eq_imp_distinct_iff [OF m] rs(2) by blast+
  have "?f a \<noteq> None" if "a \<in> set bs" for a
    using arg_cong [OF rs(1), of set] that e(1) by force
  then have "map ?f bs = map Some ?rs" by (auto simp: comp_def)
  with assms(1) rs r e show ?thesis unfolding trans_rep_def by (intro conjI exI [of _ ?rs]) auto
qed

lemma transaction_free_ok:
  assumes "trans_rep (d_transactions d) (d_frames d) (a # as) E"
  shows "\<exists>ts fs. usbdali_transaction_free (Some a) d = Some (d\<lparr>d_frames := fs, d_transactions := ts\<rparr>) \<and> trans_rep ts fs as E"
proof -
  from assms obtain t r f where t: "d_transactions d a = Some t" "t_request t = Some r" "d_frames d r = Some f"
    by (elim trans_rep_lookup [where a = a]) simp_all
  with trans_rep_free(1) [OF assms t(1,2)] show ?thesis
    by (auto simp: usbdali_transaction_free_def daliframe_free_def)
qed

lemma free_transactions_ok:
  assumes "trans_rep (d_transactions d) (d_frames d) (qs @ as) E"
  shows "\<exists>ts fs. free_all (\<lambda>a. usbdali_transaction_free (Some a)) (map Some qs) d =
      Some (d\<lparr>d_frames := fs, d_transactions := ts\<rparr>) \<and> trans_rep ts fs as E"
  using assms
proof (induction qs arbitrary: d)
  case Nil
  then show ?case by (intro exI [of _ "d_transactions d"] exI [of _ "d_frames d"]) simp
next
  case (Cons q qs)
  from transaction_free_ok [of d q "qs @ as" E] Cons.prems obtain ts fs where
    t: "usbdali_transaction_free (Some q) d = Some (d\<lparr>d_frames := fs, d_transactions := ts\<rparr>)" "trans_rep ts fs (qs @ as) E"
    by auto
  from Cons.IH [of "d\<lparr>d_frames := fs, d_transactions := ts\<rparr>"] t show ?case by auto
qed

text \<open>A transfer that ends as cancelled while the driver shuts down touches no transaction.\<close>

fun cancelled :: "usb_event \<Rightarrow> bool" where
  "cancelled (Send_done st) \<longleftrightarrow> st = LIBUSB_TRANSFER_CANCELLED"
| "cancelled (Receive_done st n bs) \<longleftrightarrow> st = LIBUSB_TRANSFER_CANCELLED \<and> length bs = USBDALI_LENGTH"
| "cancelled ev \<longleftrightarrow> False"

definition stores :: "('f, 'u) UsbDali \<Rightarrow> _" where
  "stores d = (d_transactions d, d_frames d, d_shutdown d, d_detached d)"

lemma cancelled_step:
  assumes "xfer_rep d" "d_shutdown d" "cancelled ev"
  shows "\<exists>d'. usb_event_step env call_req call_bcast ev (d, w) = Some (d', w) \<and> xfer_rep d' \<and> stores d' = stores d \<and>
    (\<forall>a. d_recv_transfer d' = Some a \<longrightarrow> d_recv_transfer d = Some a \<and> (\<exists>st. ev = Send_done st)) \<and>
    (\<forall>a. d_send_transfer d' = Some a \<longrightarrow> d_send_transfer d = Some a \<and> (\<exists>st n bs. ev = Receive_done st n bs))"
proof (cases ev)
  case (Send_done st)
  show ?thesis
  proof (cases "d_send_transfer d")
    case None
    with Send_done assms(1) show ?thesis by auto
  next
    case (Some tr)
    with assms(1) have d: "d_recv_transfer d = None" "dom (d_transfers d) = {tr}" by (auto simp: xfer_rep_def)
    then obtain x where x: "d_transfers d tr = Some x" "x_buffer x \<noteq> None" using assms(1) unfolding xfer_rep_def by blast
    have "(d_transfers d)(tr := None) = Map.empty" using d(2) by (auto simp: fun_eq_iff dom_def)
    with Some Send_done x d assms show ?thesis
      by (auto simp: usbdali_send_callback_def send_status_def complete_def free_buffer_def libusb_free_transfer_def
          release_def xfer_rep_def stores_def)
  qed
next
  case (Receive_done st n bs)
  show ?thesis
  proof (cases "d_recv_transfer d")
    case None
    with Receive_done assms(1) show ?thesis by auto
  next
    case (Some tr)
    with assms(1) have d: "d_send_transfer d = None" "dom (d_transfers d) = {tr}" by (auto simp: xfer_rep_def)
    then obtain x where x: "d_transfers d tr = Some x" "x_buffer x \<noteq> None" using assms(1) unfolding xfer_rep_def by blast
    have "(d_transfers d)(tr := None) = Map.empty" using d(2) by (auto simp: fun_eq_iff dom_def)
    with Some Receive_done x d assms show ?thesis
      by (auto simp: usbdali_receive_callback_def receive_status_def complete_def free_buffer_def libusb_free_transfer_def
          release_def xfer_rep_def stores_def)
  qed
qed (use assms(3) in auto)

lemma cancelled_run:
  assumes "xfer_rep d" "d_shutdown d" "\<forall>ev\<in>set evs. cancelled ev"
  shows "\<exists>d'. usb_run env call_req call_bcast evs (d, w) = Some (d', w) \<and> xfer_rep d' \<and> stores d' = stores d \<and>
    (\<forall>a. d_recv_transfer d' = Some a \<longrightarrow> (\<forall>ev\<in>set evs. \<exists>st. ev = Send_done st)) \<and>
    (\<forall>a. d_send_transfer d' = Some a \<longrightarrow> (\<forall>ev\<in>set evs. \<exists>st n bs. ev = Receive_done st n bs))"
  using assms
proof (induction evs rule: rev_induct)
  case Nil
  then show ?case by simp
next
  case (snoc ev evs)
  have app: "usb_run env call_req call_bcast (xs @ [ev]) s =
      Option.bind (usb_run env call_req call_bcast xs s) (usb_event_step env call_req call_bcast ev)" for xs s
    by (induction xs arbitrary: s) (auto split: option.splits)
  from snoc obtain d1 where d1: "usb_run env call_req call_bcast evs (d, w) = Some (d1, w)" "xfer_rep d1" "stores d1 = stores d"
      "\<forall>a. d_recv_transfer d1 = Some a \<longrightarrow> (\<forall>ev\<in>set evs. \<exists>st. ev = Send_done st)"
      "\<forall>a. d_send_transfer d1 = Some a \<longrightarrow> (\<forall>ev\<in>set evs. \<exists>st n bs. ev = Receive_done st n bs)" by auto
  have "d_shutdown d1" "cancelled ev" using d1(3) snoc.prems by (simp_all add: stores_def)
  from cancelled_step [OF d1(2) this, of env call_req call_bcast w] obtain d' where
    d': "usb_event_step env call_req call_bcast ev (d1, w) = Some (d', w)" "xfer_rep d'" "stores d' = stores d1"
      "\<forall>a. d_recv_transfer d' = Some a \<longrightarrow> d_recv_transfer d1 = Some a \<and> (\<exists>st. ev = Send_done st)"
      "\<forall>a. d_send_transfer d' = Some a \<longrightarrow> d_send_transfer d1 = Some a \<and> (\<exists>st n bs. ev = Receive_done st n bs)" by blast
  show ?case
    by (rule exI [of _ d']) (use d1 d' in \<open>auto simp: app\<close>)
qed

text \<open>The first half of \<open>usbdali_close\<close>: everything is freed, and the pointers stay.\<close>

lemma close_frees:
  assumes rep: "usb_rep d qs E" and f: "map_option l_free (d_queue d) = Some (Some f)"
  shows "\<exists>ts fs. list_free (\<lambda>f a. usbdali_transaction_free (Some a)) (d_queue (d\<lparr>d_shutdown := True\<rparr>)) (d\<lparr>d_shutdown := True\<rparr>) =
      Some (d\<lparr>d_shutdown := True, d_frames := fs, d_transactions := ts\<rparr>) \<and>
    (\<exists>fs'. usbdali_transaction_free (d_transaction d)
        (d\<lparr>d_shutdown := True, d_frames := fs, d_transactions := ts, d_queue := freed_list (d_queue d)\<rparr>) =
      Some (d\<lparr>d_shutdown := True, d_frames := fs', d_transactions := Map.empty, d_queue := freed_list (d_queue d)\<rparr>) \<and> dom fs' = E)"
proof -
  let ?d = "d\<lparr>d_shutdown := True\<rparr>"
  have "trans_rep (d_transactions ?d) (d_frames ?d) (qs @ active d) E"
    using rep trans_rep_perm [of "d_transactions d" "d_frames d" "active d @ qs" E "qs @ active d"] by (simp add: usb_rep_def)
  from free_transactions_ok [OF this] obtain ts fs where
    t: "free_all (\<lambda>a. usbdali_transaction_free (Some a)) (map Some qs) ?d = Some (?d\<lparr>d_frames := fs, d_transactions := ts\<rparr>)"
      "trans_rep ts fs (active d) E" by blast
  from rep f obtain l where l: "d_queue d = Some l" "list_holds (Some l) (map Some qs)" "l_free l = Some f"
    by (auto simp: usb_rep_def)
  from list_holds_free [OF l(2,3), of "\<lambda>f a. usbdali_transaction_free (Some a)", OF t(1)] l(1)
  have "list_free (\<lambda>f a. usbdali_transaction_free (Some a)) (d_queue ?d) ?d = Some (?d\<lparr>d_frames := fs, d_transactions := ts\<rparr>)"
    by simp
  moreover have "\<exists>fs'. usbdali_transaction_free (d_transaction d)
      (d\<lparr>d_shutdown := True, d_frames := fs, d_transactions := ts, d_queue := freed_list (d_queue d)\<rparr>) =
    Some (d\<lparr>d_shutdown := True, d_frames := fs', d_transactions := Map.empty, d_queue := freed_list (d_queue d)\<rparr>) \<and> dom fs' = E"
  proof (cases "d_transaction d")
    case None
    with t(2) have "ts = Map.empty" "dom fs = E" by (auto simp: active_def trans_rep_def)
    with None show ?thesis by (auto simp: usbdali_transaction_free_def)
  next
    case (Some a)
    let ?e = "d\<lparr>d_shutdown := True, d_frames := fs, d_transactions := ts, d_queue := freed_list (d_queue d)\<rparr>"
    have "trans_rep (d_transactions ?e) (d_frames ?e) [a] E" using t(2) Some by (simp add: active_def)
    from transaction_free_ok [OF this] obtain ts' fs' where
      "usbdali_transaction_free (Some a) ?e = Some (?e\<lparr>d_frames := fs', d_transactions := ts'\<rparr>)" "trans_rep ts' fs' [] E" by blast
    moreover from this(2) have "ts' = Map.empty" "dom fs' = E" by (auto simp: trans_rep_def)
    ultimately show ?thesis using Some by (intro exI [of _ fs']) simp
  qed
  ultimately show ?thesis by auto
qed

lemma close_runs:
  assumes rep: "usb_rep d qs E" and f: "map_option l_free (d_queue d) = Some (Some f)"
  obtains d5 where "\<forall>evs w. usbdali_close env call_req call_bcast evs fc taken (Some d) w =
      do { (d6, w') \<leftarrow> usb_run env call_req call_bcast evs (d5, w);
        Some (Some d6, w', close_trace fc taken d6) }"
    "xfer_rep d5" "d_shutdown d5" "d_transactions d5 = Map.empty" "dom (d_frames d5) = E" "d_detached d5 = d_detached d"
    "d_transaction d5 = d_transaction d" "d_recv_transfer d5 = d_recv_transfer d" "d_transfers d5 = d_transfers d"
    "d_send_transfer d5 = d_send_transfer d"
proof -
  from close_frees [OF assms] obtain ts fs fs' where
    c: "list_free (\<lambda>f a. usbdali_transaction_free (Some a)) (d_queue (d\<lparr>d_shutdown := True\<rparr>)) (d\<lparr>d_shutdown := True\<rparr>) =
        Some (d\<lparr>d_shutdown := True, d_frames := fs, d_transactions := ts\<rparr>)"
      "usbdali_transaction_free (d_transaction d)
        (d\<lparr>d_shutdown := True, d_frames := fs, d_transactions := ts, d_queue := freed_list (d_queue d)\<rparr>) =
       Some (d\<lparr>d_shutdown := True, d_frames := fs', d_transactions := Map.empty, d_queue := freed_list (d_queue d)\<rparr>)" "dom fs' = E"
    by blast
  define d3 where "d3 = d\<lparr>d_shutdown := True, d_frames := fs', d_transactions := Map.empty, d_queue := freed_list (d_queue d)\<rparr>"
  define d4 where "d4 = cancel_transfer env (d_recv_transfer d3) d3"
  define d5 where "d5 = cancel_transfer env (d_send_transfer d4) d4"
  have x: "xfer_rep d" using rep by (simp add: usb_rep_def)
  have k: "\<exists>u. cancel_transfer env tr e = e\<lparr>d_lib := u\<rparr>" for tr and e :: "('a, 'b) UsbDali"
    by (cases tr) (auto simp: cancel_transfer_def intro: exI [of _ "d_lib e"])
  from k obtain u where u: "d4 = d3\<lparr>d_lib := u\<rparr>" unfolding d4_def by blast
  from k obtain v where v: "d5 = d4\<lparr>d_lib := v\<rparr>" unfolding d5_def by blast
  have d5: "d5 = d\<lparr>d_shutdown := True, d_frames := fs', d_transactions := Map.empty, d_queue := freed_list (d_queue d), d_lib := v\<rparr>"
    by (simp add: v u d3_def)
  have "\<forall>evs w. usbdali_close env call_req call_bcast evs fc taken (Some d) w =
      do { (d6, w') \<leftarrow> usb_run env call_req call_bcast evs (d5, w);
        Some (Some d6, w', close_trace fc taken d6) }"
    using c by (simp add: usbdali_close_def Let_def d5_def d4_def d3_def)
  moreover have "xfer_rep d5" "d_shutdown d5" "d_transactions d5 = Map.empty" "dom (d_frames d5) = E" "d_detached d5 = d_detached d"
    "d_transaction d5 = d_transaction d" "d_recv_transfer d5 = d_recv_transfer d" "d_transfers d5 = d_transfers d"
    "d_send_transfer d5 = d_send_transfer d"
    using x c(3) by (simp_all add: d5 xfer_rep_def)
  ultimately show ?thesis by (rule that)
qed

section \<open>Properties\<close>

text \<open>
  Property C23: \<open>usbdali_find_device\<close> opens the first device of the list that has a readable descriptor with the
  vendor and product number of the DALI interface and, when both numbers are given, the requested bus
  and address; there is no handle when there is no such device or it cannot be opened. The device list is
  acquired if the enumeration succeeds, and then released exactly once, as the last thing; the handle is held exactly if it is returned.
\<close>

theorem usbdali_find_device_first:
  "fst (usbdali_find_device busnum devnum q) =
     Option.bind (q_devices q) (\<lambda>devs. Option.bind (List.find (\<lambda>dev. dv_error dev = 0 \<and> dv_vendor dev = 0x17b5 \<and>
         dv_product dev = 0x20 \<and> (0 \<le> busnum \<and> 0 \<le> devnum \<longrightarrow> uint (dv_bus dev) = busnum \<and> uint (dv_address dev) = devnum)) devs)
       (\<lambda>dev. if q_open q dev < 0 then None else Some dev)) \<and>
   count_list (snd (usbdali_find_device busnum devnum q)) (Acquire Device_list) = (if q_devices q = None then 0 else 1) \<and>
   (q_devices q \<noteq> None \<longrightarrow> last (snd (usbdali_find_device busnum devnum q)) = Release Device_list) \<and>
   (\<forall>r. balance (snd (usbdali_find_device busnum devnum q)) r =
     (if r = Handle \<and> fst (usbdali_find_device busnum devnum q) \<noteq> None then 1 else 0))"
proof -
  have "is_dali busnum devnum = (\<lambda>dev. dv_error dev = 0 \<and> dv_vendor dev = 0x17b5 \<and> dv_product dev = 0x20 \<and>
      (0 \<le> busnum \<and> 0 \<le> devnum \<longrightarrow> uint (dv_bus dev) = busnum \<and> uint (dv_address dev) = devnum))"
    by (auto simp: is_dali_def VENDOR_ID_def PRODUCT_ID_def fun_eq_iff)
  moreover have "\<forall>r. balance (snd (usbdali_find_device busnum devnum q)) r =
      (if r = Handle \<and> fst (usbdali_find_device busnum devnum q) \<noteq> None then 1 else 0)"
    by (simp add: find_device_balance held_def)
  moreover have "count_list (snd (usbdali_find_device busnum devnum q)) (Acquire Device_list) = (if q_devices q = None then 0 else 1)"
      "q_devices q \<noteq> None \<longrightarrow> last (snd (usbdali_find_device busnum devnum q)) = Release Device_list"
    by (auto simp: usbdali_find_device_def split: option.splits)
  ultimately show ?thesis
    by (auto simp: usbdali_find_device_def find_loop_eq split: option.splits)
qed

definition demo_device :: libusb_device where
  "demo_device = \<lparr>dv_error = 0, dv_vendor = 0x17b5, dv_product = 0x20, dv_bus = 1, dv_address = 5\<rparr>"

definition demo_answers :: usb_answers where
  "demo_answers = \<lparr>q_init = 0, q_devices = Some [demo_device\<lparr>dv_product := 1\<rparr>, demo_device], q_open = \<lambda>d. 0, q_config = 0,
     q_interfaces = 1, q_altsettings = 1, q_endpoints = 2, q_endpoint0 = 0x81, q_endpoint1 = 2, q_active = 1, q_detach = 0,
     q_configure = 0, q_claim = 0, q_altsetting = 0, q_array = True, q_pollfds = Some [(7, 1)], q_malloc = True, q_list = True\<rparr>"

theorem usbdali_find_device_first_witness:
  "fst (usbdali_find_device (-1) (-1) demo_answers) = Some demo_device \<and>
   fst (usbdali_find_device 1 5 demo_answers) = Some demo_device \<and> fst (usbdali_find_device 1 6 demo_answers) = None \<and>
   last (snd (usbdali_find_device 1 5 demo_answers)) = Release Device_list"
  using usbdali_find_device_first [of "-1" "-1" demo_answers] usbdali_find_device_first [of 1 5 demo_answers]
    usbdali_find_device_first [of 1 6 demo_answers]
  by (simp add: demo_answers_def demo_device_def)

text \<open>
  Property C14: an attempt to open the device that fails, at whatever point, gives back everything it has
  acquired (context, device list, handle, descriptor, kernel driver, interface, arrays) and leaves the
  dispatch table as it was.
\<close>

theorem usbdali_open_failure_releases:
  assumes "usbdali_open env add tfree q given dispatch busnum devnum u = Some (None, t, tr)"
  shows "(\<forall>r. balance tr r = 0) \<and> t = dispatch"
  using usbdali_open_balance [OF assms] by (simp add: held_def)

lemmas open_defs = usbdali_open_def dispatch_new_def usbdali_find_device_def demo_answers_def demo_device_def is_dali_def
  VENDOR_ID_def PRODUCT_ID_def open_config_def open_endpoints_def open_interface_def open_structure_def endpoint_dir_def attach_kernel_driver_def
  LIBUSB_ENDPOINT_DIR_MASK_def LIBUSB_ENDPOINT_IN_def Let_def

theorem usbdali_open_failure_releases_witness:
  "\<exists>tr. usbdali_open demo_env (\<lambda>fd ev. Some) () (demo_answers\<lparr>q_claim := -6\<rparr>) False (dispatch_new True) (-1) (-1) () =
      Some (None, dispatch_new True, tr) \<and> length tr = 10 \<and> (\<forall>r. balance tr r = 0)"
proof -
  let ?tr = "[Acquire Context, Acquire Device_list, Acquire Handle, Release Device_list, Acquire Config_descriptor,
    Acquire Kernel_driver, Release Kernel_driver, Release Config_descriptor, Release Handle, Release Context]"
  have e: "usbdali_open demo_env (\<lambda>fd ev. Some) () (demo_answers\<lparr>q_claim := -6\<rparr>) False (dispatch_new True) (-1) (-1) () =
      Some (None, dispatch_new True, ?tr)"
    by (simp add: open_defs)
  from e usbdali_open_failure_releases [OF e] show ?thesis by (intro exI [of _ ?tr]) simp
qed

text \<open>The flag \<open>detached\<close> of an opened driver.\<close>

lemma receive_detached: "usbdali_receive env d = Some (r, d') \<Longrightarrow> d_detached d' = d_detached d"
  by (auto simp: usbdali_receive_def bind_Some_iff Let_def case_prod_beta split: if_splits)

lemma send_detached: "usbdali_send env t d = Some (r, d') \<Longrightarrow> d_detached d' = d_detached d"
  by (auto simp: usbdali_send_def bind_Some_iff Let_def case_prod_beta split: if_splits option.splits)

lemma usbdali_next_detached: "usbdali_next env d = Some d' \<Longrightarrow> d_detached d' = d_detached d"
  by (auto simp: usbdali_next_def bind_Some_iff Let_def split: if_splits option.splits dest!: receive_detached send_detached)

lemma open_structure_detached:
  "open_structure env add tfree q ein eout det dispatch u = Some (Some d, t, tr) \<Longrightarrow> d_detached d = det"
  by (auto simp: open_structure_def Let_def bind_Some_iff usbdali_init_def split: option.splits if_splits dest!: usbdali_next_detached)

lemma open_endpoints_detached:
  "open_endpoints env add tfree q dispatch u = Some (Some d, t, tr) \<Longrightarrow> d_detached d = (q_active q = 1)"
  by (auto simp: open_endpoints_def open_interface_def Let_def bind_Some_iff split: if_splits prod.splits dest!: open_structure_detached)

lemma usbdali_open_detached:
  "usbdali_open env add tfree q given dispatch busnum devnum u = Some (Some d, t, tr) \<Longrightarrow> d_detached d = (q_active q = 1)"
  by (auto simp: usbdali_open_def open_config_def Let_def bind_Some_iff split: if_splits prod.splits dest!: open_endpoints_detached)

lemma open_close_balance:
  assumes "usbdali_open env add tfree q given dispatch busnum devnum u = Some (Some d0, t, tr)" and "d_detached d = d_detached d0"
  shows "balance (tr @ close_trace (\<not> given) (q_detach q = 0) d) r = (if r = Pollfd_array then 1 else 0)"
proof -
  have "balance tr = held (open_holds q given)" using usbdali_open_balance [OF assms(1)] by simp
  with assms(2) usbdali_open_detached [OF assms(1)] show ?thesis
    by (auto simp: held_def open_holds_def close_trace_def attach_kernel_driver_def)
qed

lemma usbdali_open_demo:
  "\<exists>d t tr. usbdali_open demo_env (\<lambda>fd ev. Some) () demo_answers False (dispatch_new True) (-1) (-1) () = Some (Some d, t, tr) \<and>
     (\<exists>E. usb_rep d [] E) \<and> map_option l_free (d_queue d) = Some (Some ()) \<and> d_detached d"
proof -
  from usbdali_next_sim [OF demo_env_ok usb_init_sim, of "0x81" 2 True "()" "()"] obtain d where
    d: "usbdali_next demo_env (usbdali_init 0x81 2 True True () ()) = Some d" "usb_sim d sp_start {}"
      "config d = config (usbdali_init 0x81 2 True True () ())"
    by (auto simp: busy_def usbdali_init_def sp_next_def sp_start_def split: if_splits)
  have "\<exists>E. usb_rep d [] E"
  proof -
    from d(2) obtain qs where q: "usb_rep d qs {}" "usb_abs d qs sp_start" by (auto simp: usb_sim_def)
    then have "qs = []" by (simp add: usb_abs_def sp_start_def)
    with q(1) show ?thesis by blast
  qed
  moreover have "map_option l_free (d_queue d) = Some (Some ())" "d_detached d"
    using d(3) by (simp_all add: config_def usbdali_init_def list_new_def)
  moreover have "\<exists>t tr. usbdali_open demo_env (\<lambda>fd ev. Some) () demo_answers False (dispatch_new True) (-1) (-1) () = Some (Some d, t, tr)"
    using d(1) by (simp add: open_defs)
  ultimately show ?thesis by blast
qed

text \<open>
  Property C15: closing a driver, however long after it was opened, if all transfers that end while it is closed are reported as cancelled.
  There is no undefined behaviour; every transaction, queued or active, and every frame that belongs to one is freed, and when the ends
  of a receive and of a send are reported no transfer is left; of all that opening acquired, only the array \<open>pollfds\<close>, which
  \<open>usbdali_open\<close> neither stores nor frees, is not given back, and nothing is given back that was not acquired.
\<close>

theorem usbdali_close_frees:
  assumes "usbdali_open env0 add tfree q given dispatch busnum devnum u = Some (Some d0, t, tr0)" and "d_detached d = d_detached d0"
    and "usb_rep d qs E" and "map_option l_free (d_queue d) = Some (Some f)" and "\<forall>ev\<in>set evs. cancelled ev"
  shows "\<exists>d' tr. usbdali_close env call_req call_bcast evs (\<not> given) (q_detach q = 0) (Some d) w = Some (Some d', w, tr) \<and>
    d_transactions d' = Map.empty \<and> dom (d_frames d') = E \<and>
    ((\<exists>st. Send_done st \<in> set evs) \<and> (\<exists>st n bs. Receive_done st n bs \<in> set evs) \<longrightarrow> d_transfers d' = Map.empty) \<and>
    (\<forall>r. balance (tr0 @ tr) r = (if r = Pollfd_array then 1 else 0))"
proof -
  obtain d5 where d5: "\<forall>evs w. usbdali_close env call_req call_bcast evs (\<not> given) (q_detach q = 0) (Some d) w =
      do { (d6, w') \<leftarrow> usb_run env call_req call_bcast evs (d5, w);
        Some (Some d6, w', close_trace (\<not> given) (q_detach q = 0) d6) }"
    "xfer_rep d5" "d_shutdown d5" "d_transactions d5 = Map.empty" "dom (d_frames d5) = E" "d_detached d5 = d_detached d"
    "d_transaction d5 = d_transaction d" "d_recv_transfer d5 = d_recv_transfer d" "d_transfers d5 = d_transfers d"
    by (rule close_runs [OF assms(3,4), where env = env and call_req = call_req and call_bcast = call_bcast and fc = "\<not> given" and taken = "q_detach q = 0"])
  from cancelled_run [OF d5(2,3) assms(5), of env call_req call_bcast w] obtain d' where
    r: "usb_run env call_req call_bcast evs (d5, w) = Some (d', w)" "xfer_rep d'" "stores d' = stores d5"
      "\<forall>a. d_recv_transfer d' = Some a \<longrightarrow> (\<forall>ev\<in>set evs. \<exists>st. ev = Send_done st)"
      "\<forall>a. d_send_transfer d' = Some a \<longrightarrow> (\<forall>ev\<in>set evs. \<exists>st n bs. ev = Receive_done st n bs)" by blast
  have "d_transfers d' = Map.empty" if "Send_done st \<in> set evs" "Receive_done st' n bs \<in> set evs" for st st' n bs
  proof -
    have "d_recv_transfer d' = None" using r(4) that(2) by (cases "d_recv_transfer d'") auto
    moreover have "d_send_transfer d' = None" using r(5) that(1) by (cases "d_send_transfer d'") auto
    ultimately show ?thesis using r(2) by (simp add: xfer_rep_def)
  qed
  moreover have "d_detached d' = d_detached d0" using r(3) d5(6) assms(2) by (simp add: stores_def)
  from open_close_balance [OF assms(1) this] have "\<forall>r. balance (tr0 @ close_trace (\<not> given) (q_detach q = 0) d') r = (if r = Pollfd_array then 1 else 0)"
    by blast
  moreover have "d_transactions d' = Map.empty" "dom (d_frames d') = E" using r(3) d5(4,5) by (simp_all add: stores_def)
  ultimately show ?thesis using d5(1) r(1)
    by (intro exI [of _ d'] exI [of _ "close_trace (\<not> given) (q_detach q = 0) d'"]) auto
qed

text \<open>A driver that waits for the answer to a request.\<close>

definition demo_awaiting :: "(unit, unit) UsbDali" where
  "demo_awaiting = (usbdali_init 0x81 2 True True () ())\<lparr>d_transaction := Some 1, d_seq_num := 2,
     d_transactions := [1 \<mapsto> \<lparr>t_seq_num = 1, t_request = Some 3, t_arg = Some 7\<rparr>],
     d_frames := [3 \<mapsto> \<lparr>f_ecommand = 0, f_address = 0xff, f_command = 8\<rparr>], d_recv_transfer := Some 1,
     d_transfers := [1 \<mapsto> interrupt_transfer 0x81 (replicate USBDALI_LENGTH 0) Receive_callback 1000]\<rparr>"

lemma demo_awaiting_rep: "usb_rep demo_awaiting [] {}" "map_option l_free (d_queue demo_awaiting) = Some (Some ())"
proof -
  have "trans_rep [1 \<mapsto> \<lparr>t_seq_num = 1, t_request = Some 3, t_arg = Some 7\<rparr>] [3 \<mapsto> f] [1] {}" for f
    unfolding trans_rep_def by (intro conjI exI [of _ "[3]"]) auto
  then show "usb_rep demo_awaiting [] {}"
    using list_holds_new [of "Some ()"]
    by (simp add: usb_rep_def demo_awaiting_def usbdali_init_def active_def xfer_rep_def interrupt_transfer_def)
  show "map_option l_free (d_queue demo_awaiting) = Some (Some ())"
    by (simp add: demo_awaiting_def usbdali_init_def list_new_def)
qed

text \<open>The demonstration device is opened, a request is in flight, and the driver is closed.\<close>

theorem usbdali_close_frees_witness:
  "\<exists>d0 t tr0 d' tr. usbdali_open demo_env (\<lambda>fd ev. Some) () demo_answers False (dispatch_new True) (-1) (-1) () = Some (Some d0, t, tr0) \<and>
    usbdali_close demo_env log_req log_bcast
      [Receive_done LIBUSB_TRANSFER_CANCELLED 0 (replicate USBDALI_LENGTH 0), Send_done LIBUSB_TRANSFER_CANCELLED]
      True True (Some demo_awaiting) [] = Some (Some d', [], tr) \<and>
    d_transactions d' = Map.empty \<and> d_frames d' = Map.empty \<and> d_transfers d' = Map.empty \<and>
    (\<forall>r. balance (tr0 @ tr) r = (if r = Pollfd_array then 1 else 0))"
proof -
  let ?evs = "[Receive_done LIBUSB_TRANSFER_CANCELLED 0 (replicate USBDALI_LENGTH 0), Send_done LIBUSB_TRANSFER_CANCELLED]"
  from usbdali_open_demo obtain d0 t tr0 where
    o: "usbdali_open demo_env (\<lambda>fd ev. Some) () demo_answers False (dispatch_new True) (-1) (-1) () = Some (Some d0, t, tr0)"
      "d_detached d0" by blast
  have "d_detached demo_awaiting = d_detached d0" "\<forall>ev\<in>set ?evs. cancelled ev"
    using o(2) by (simp_all add: demo_awaiting_def usbdali_init_def)
  from usbdali_close_frees [OF o(1) this(1) demo_awaiting_rep this(2), of demo_env log_req log_bcast "[]"] obtain d' tr where
    c: "usbdali_close demo_env log_req log_bcast ?evs True (q_detach demo_answers = 0) (Some demo_awaiting) [] = Some (Some d', [], tr)"
      "d_transactions d' = Map.empty" "dom (d_frames d') = {}" "d_transfers d' = Map.empty"
      "\<forall>r. balance (tr0 @ tr) r = (if r = Pollfd_array then 1 else 0)" by auto
  have "q_detach demo_answers = 0" by (simp add: demo_answers_def)
  with o(1) c show ?thesis by auto
qed

text \<open>The ends of transfers whose callbacks look at the active transaction, and which transfer an event ends.\<close>

fun uses_transaction :: "usb_event \<Rightarrow> bool" where
  "uses_transaction (Receive_done st n bs) \<longleftrightarrow>
     (case st of LIBUSB_TRANSFER_CANCELLED \<Rightarrow> False
      | LIBUSB_TRANSFER_COMPLETED \<Rightarrow> length bs = USBDALI_LENGTH \<and> 9 \<le> n \<and> n \<le> USBDALI_LENGTH \<and> bs ! 0 = 0x12
      | _ \<Rightarrow> True)"
| "uses_transaction (Send_done st) \<longleftrightarrow> st \<noteq> LIBUSB_TRANSFER_COMPLETED \<and> st \<noteq> LIBUSB_TRANSFER_CANCELLED"
| "uses_transaction ev \<longleftrightarrow> False"

fun under_way :: "usb_event \<Rightarrow> ('f, 'u) UsbDali \<Rightarrow> bool" where
  "under_way (Receive_done st n bs) d \<longleftrightarrow> d_recv_transfer d \<noteq> None"
| "under_way (Send_done st) d \<longleftrightarrow> d_send_transfer d \<noteq> None"
| "under_way ev d \<longleftrightarrow> False"

lemma freed_transaction_used:
  assumes "d_transaction d = Some a" "d_transactions d a = None" "under_way ev d" "uses_transaction ev"
  shows "usb_event_step env call_req call_bcast ev (d, w) = None"
proof (cases ev)
  case (Send_done st)
  with assms show ?thesis
    by (cases "d_transfers d (the (d_send_transfer d))"; cases st)
      (auto simp: usbdali_send_callback_def send_status_def fail_transaction_def complete_def)
next
  case (Receive_done st n bs)
  show ?thesis
  proof (cases "st = LIBUSB_TRANSFER_COMPLETED")
    case True
    with Receive_done assms(4) have b: "length bs = USBDALI_LENGTH" "9 \<le> n" "n \<le> USBDALI_LENGTH" "in_direction (parse_in bs) = 0x12"
      by (simp_all add: parse_in_def)
    with unpack_in_eq [OF b(1,3)] Receive_done True assms show ?thesis
      by (cases "d_transfers d (the (d_recv_transfer d))")
        (auto simp: usbdali_receive_callback_def receive_status_def receive_packet_def complete_def
          USBDALI_DIRECTION_DALI_def USBDALI_DIRECTION_USB_def)
  next
    case False
    with Receive_done assms show ?thesis
      by (cases "d_transfers d (the (d_recv_transfer d))"; cases st)
        (auto simp: usbdali_receive_callback_def receive_status_def fail_transaction_def complete_def)
  qed
qed (use assms(3) in simp_all)

text \<open>
  Property C36: the proviso of the previous property is needed. \<open>usbdali_close\<close> frees the active transaction before it lets libusb handle
  its events a last time, but leaves the pointer to it. The callback then uses the freed transaction if the transfer under way was
  not cancelled in time: a receive that times out, fails, or completes with a packet that answers a command, whatever its sequence number, or a
  send that times out or fails. (A completed or cancelled send and a cancelled receive do not touch the transaction.)
\<close>

theorem usbdali_close_use_after_free:
  assumes "usb_rep d qs E" and "map_option l_free (d_queue d) = Some (Some f)" and "d_transaction d = Some a"
    and "under_way ev d" and "uses_transaction ev"
  shows "usbdali_close env call_req call_bcast (ev # evs) free_context taken (Some d) w = None"
proof -
  obtain d5 where d5: "\<forall>evs w. usbdali_close env call_req call_bcast evs free_context taken (Some d) w =
      do { (d6, w') \<leftarrow> usb_run env call_req call_bcast evs (d5, w);
        Some (Some d6, w', close_trace free_context taken d6) }"
    "xfer_rep d5" "d_shutdown d5" "d_transactions d5 = Map.empty" "dom (d_frames d5) = E" "d_detached d5 = d_detached d"
    "d_transaction d5 = d_transaction d" "d_recv_transfer d5 = d_recv_transfer d" "d_transfers d5 = d_transfers d"
    "d_send_transfer d5 = d_send_transfer d"
    by (rule close_runs [OF assms(1,2), where env = env and call_req = call_req and call_bcast = call_bcast and fc = free_context
        and taken = taken])
  have "usb_event_step env call_req call_bcast ev (d5, w) = None"
  proof (rule freed_transaction_used)
    show "d_transaction d5 = Some a" "d_transactions d5 a = None" "under_way ev d5"
      using d5(4,7,8,10) assms(3,4) by (cases ev; simp)+
  qed (rule assms(5))
  with d5(1) show ?thesis by simp
qed

theorem usbdali_close_use_after_free_witness:
  "usbdali_close demo_env log_req log_bcast [Receive_done LIBUSB_TRANSFER_TIMED_OUT 0 []] True True (Some demo_awaiting) [] = None \<and>
   usbdali_close demo_env log_req log_bcast [Receive_done LIBUSB_TRANSFER_COMPLETED 9 demo_packet] True True (Some demo_awaiting) [] = None"
  using usbdali_close_use_after_free [OF demo_awaiting_rep, of 1 "Receive_done LIBUSB_TRANSFER_TIMED_OUT 0 []" demo_env log_req log_bcast "[]" True True "[]"]
    usbdali_close_use_after_free [OF demo_awaiting_rep, of 1 "Receive_done LIBUSB_TRANSFER_COMPLETED 9 demo_packet" demo_env log_req log_bcast "[]" True True "[]"]
  by (simp add: demo_awaiting_def demo_packet_def USBDALI_LENGTH_def)

end
