(* ===== verification/Log.thy ===== *)
theory Log
  imports Prelude
begin

text \<open>
  The logger of \<open>lib/log.c\<close>: a message goes to the console, to the log file and to syslog, each with a level of
  its own. The static variables of the file are a record. The formatted message and the time stamp are
  arguments; what is written where is the result. \<open>lmax\<close> is \<open>LOG_LEVEL_MAX\<close>, which the build sets to
  \<open>LOG_LEVEL_DEBUG\<close> or \<open>LOG_LEVEL_INFO\<close>, and \<open>vsyslog\<close> says whether syslog was compiled in.
\<close>

section \<open>Data\<close>

definition LOG_LEVEL_FATAL :: nat where "LOG_LEVEL_FATAL = 0"
definition LOG_LEVEL_ERROR :: nat where "LOG_LEVEL_ERROR = 1"
definition LOG_LEVEL_WARN :: nat where "LOG_LEVEL_WARN = 2"
definition LOG_LEVEL_INFO :: nat where "LOG_LEVEL_INFO = 3"
definition LOG_LEVEL_DEBUG :: nat where "LOG_LEVEL_DEBUG = 4"

lemmas log_levels = LOG_LEVEL_FATAL_def LOG_LEVEL_ERROR_def LOG_LEVEL_WARN_def LOG_LEVEL_INFO_def LOG_LEVEL_DEBUG_def

record log_state =
  lg_level :: nat
  lg_file_level :: nat
  lg_syslog_level :: nat
  lg_logfile :: "string option"
  lg_fp :: "string option"
  lg_syslog :: bool

definition log_init :: "nat \<Rightarrow> log_state" where
  "log_init lmax = \<lparr>lg_level = lmax, lg_file_level = lmax, lg_syslog_level = LOG_LEVEL_ERROR, lg_logfile = None,
     lg_fp = None, lg_syslog = False\<rparr>"

datatype sink = Console_err | Console_out | Log_file string | Syslog string

type_synonym log_output = "(sink \<times> string) list"

section \<open>Operations\<close>

definition log_prefix :: "nat \<Rightarrow> string" where
  "log_prefix level =
     (if level = LOG_LEVEL_FATAL then ''!!FATAL!! ''
      else if level = LOG_LEVEL_ERROR then ''**ERROR** ''
      else if level = LOG_LEVEL_WARN then ''--WARNING-- ''
      else if level = LOG_LEVEL_INFO then ''INFO '' else [])"

definition syslog_out :: "nat \<Rightarrow> string \<Rightarrow> log_output" where
  "syslog_out level msg =
     (if level = LOG_LEVEL_FATAL then [(Syslog ''LOG_ALERT'', msg)]
      else if level = LOG_LEVEL_ERROR then [(Syslog ''LOG_ERR'', msg)]
      else if level = LOG_LEVEL_WARN then [(Syslog ''LOG_WARNING'', msg)]
      else if level = LOG_LEVEL_INFO then [(Syslog ''LOG_INFO'', msg)]
      else if level = LOG_LEVEL_DEBUG then [(Syslog ''LOG_DEBUG'', msg)] else [])"

definition log_vprintf :: "nat \<Rightarrow> bool \<Rightarrow> nat \<Rightarrow> string \<Rightarrow> string \<Rightarrow> log_state \<Rightarrow> log_output" where
  "log_vprintf lmax vsyslog level date msg st =
     (if level \<le> lmax then
        (if level \<le> lg_level st \<or> (lg_fp st \<noteq> None \<and> level \<le> lg_file_level st) then
           (let out = (if level \<le> LOG_LEVEL_ERROR then Console_err else Console_out);
                line = date @ log_prefix level @ msg @ [CHR 0x0A]
            in (if level \<le> lg_level st then [(out, line)] else []) @
               (if lg_fp st \<noteq> None \<and> level \<le> lg_file_level st then [(Log_file (the (lg_fp st)), line)] else []))
         else []) @
        (if vsyslog \<and> level \<le> lg_syslog_level st then syslog_out level msg else [])
      else [])"

definition log_set_level :: "nat \<Rightarrow> nat \<Rightarrow> log_state \<Rightarrow> log_state" where
  "log_set_level lmax level st = st\<lparr>lg_level := (if level > lmax then lmax else level)\<rparr>"

definition log_get_level :: "log_state \<Rightarrow> nat" where
  "log_get_level st = lg_level st"

definition log_debug_enabled :: "nat \<Rightarrow> log_state \<Rightarrow> bool" where
  "log_debug_enabled lmax st \<longleftrightarrow> \<not> lmax < LOG_LEVEL_DEBUG \<and> log_get_level st \<ge> LOG_LEVEL_DEBUG"

text \<open>
  \<open>log_printf\<close> and the macros of \<open>lib/log.h\<close>, which are empty when their level is above the compiled one.
\<close>

definition log_printf :: "nat \<Rightarrow> bool \<Rightarrow> nat \<Rightarrow> string \<Rightarrow> string \<Rightarrow> log_state \<Rightarrow> log_output" where
  "log_printf lmax vsyslog level date msg st = log_vprintf lmax vsyslog level date msg st"

definition log_fatal :: "nat \<Rightarrow> bool \<Rightarrow> string \<Rightarrow> string \<Rightarrow> log_state \<Rightarrow> log_output" where
  "log_fatal lmax vsyslog date msg st = (if lmax < LOG_LEVEL_FATAL then [] else log_printf lmax vsyslog LOG_LEVEL_FATAL date msg st)"

definition log_error :: "nat \<Rightarrow> bool \<Rightarrow> string \<Rightarrow> string \<Rightarrow> log_state \<Rightarrow> log_output" where
  "log_error lmax vsyslog date msg st = (if lmax < LOG_LEVEL_ERROR then [] else log_printf lmax vsyslog LOG_LEVEL_ERROR date msg st)"

definition log_warn :: "nat \<Rightarrow> bool \<Rightarrow> string \<Rightarrow> string \<Rightarrow> log_state \<Rightarrow> log_output" where
  "log_warn lmax vsyslog date msg st = (if lmax < LOG_LEVEL_WARN then [] else log_printf lmax vsyslog LOG_LEVEL_WARN date msg st)"

definition log_info :: "nat \<Rightarrow> bool \<Rightarrow> string \<Rightarrow> string \<Rightarrow> log_state \<Rightarrow> log_output" where
  "log_info lmax vsyslog date msg st = (if lmax < LOG_LEVEL_INFO then [] else log_printf lmax vsyslog LOG_LEVEL_INFO date msg st)"

definition log_debug :: "nat \<Rightarrow> bool \<Rightarrow> string \<Rightarrow> string \<Rightarrow> log_state \<Rightarrow> log_output" where
  "log_debug lmax vsyslog date msg st = (if lmax < LOG_LEVEL_DEBUG then [] else log_printf lmax vsyslog LOG_LEVEL_DEBUG date msg st)"

text \<open>\<open>fopen\<close> says whether a path can be opened; \<open>err\<close> is the text of the message about a failure.\<close>

definition log_reopen_file :: "nat \<Rightarrow> bool \<Rightarrow> (string \<Rightarrow> bool) \<Rightarrow> string \<Rightarrow> string \<Rightarrow> log_state \<Rightarrow> int \<times> log_state \<times> log_output" where
  "log_reopen_file lmax vsyslog fopen date err st =
     (let st0 = st\<lparr>lg_fp := None\<rparr>
      in case lg_logfile st0 of
           None \<Rightarrow> (0, st0, [])
         | Some path \<Rightarrow>
           if fopen path then (0, st0\<lparr>lg_fp := Some path\<rparr>, [])
           else (-1, st0, log_error lmax vsyslog date err st0))"

definition log_set_logfile :: "nat \<Rightarrow> bool \<Rightarrow> (string \<Rightarrow> bool) \<Rightarrow> bool \<Rightarrow> string \<Rightarrow> string \<Rightarrow> string option \<Rightarrow> log_state \<Rightarrow>
    int \<times> log_state \<times> log_output" where
  "log_set_logfile lmax vsyslog fopen strdup date err logfile_path st =
     (let st0 = st\<lparr>lg_logfile := None\<rparr>
      in case logfile_path of
           None \<Rightarrow> log_reopen_file lmax vsyslog fopen date err st0
         | Some path \<Rightarrow>
           if strdup then log_reopen_file lmax vsyslog fopen date err (st0\<lparr>lg_logfile := Some path\<rparr>)
           else (-1, st0, log_error lmax vsyslog date err st0))"

definition log_set_logfile_level :: "nat \<Rightarrow> nat \<Rightarrow> log_state \<Rightarrow> log_state" where
  "log_set_logfile_level lmax level st = st\<lparr>lg_file_level := (if level > lmax then lmax else level)\<rparr>"

definition log_set_syslog :: "string option \<Rightarrow> log_state \<Rightarrow> log_state" where
  "log_set_syslog name st =
     (let st0 = (if lg_syslog st then st\<lparr>lg_syslog := False\<rparr> else st)
      in if name \<noteq> None then st0\<lparr>lg_syslog := True\<rparr> else st0)"

definition log_set_syslog_level :: "nat \<Rightarrow> nat \<Rightarrow> log_state \<Rightarrow> log_state" where
  "log_set_syslog_level lmax level st = st\<lparr>lg_syslog_level := (if level > lmax then lmax else level)\<rparr>"

section \<open>Sequences of calls\<close>

text \<open>
  The calls of the interface. \<open>Set_logfile\<close> and \<open>Reopen\<close> carry the answers of the system to this call: whether \<open>strdup\<close> found memory and
  whether \<open>fopen\<close> could open the file. A message has a level, a time stamp and a text.
\<close>

datatype log_op = Set_level nat | Set_logfile bool bool "string option" | Set_logfile_level nat | Set_syslog "string option"
  | Set_syslog_level nat | Reopen bool | Message nat string string

fun log_step :: "nat \<Rightarrow> bool \<Rightarrow> log_op \<Rightarrow> log_state \<Rightarrow> log_state \<times> log_output" where
  "log_step lmax vs (Set_level l) st = (log_set_level lmax l st, [])"
| "log_step lmax vs (Set_logfile strdup fopen p) st = snd (log_set_logfile lmax vs (\<lambda>p. fopen) strdup [] [] p st)"
| "log_step lmax vs (Set_logfile_level l) st = (log_set_logfile_level lmax l st, [])"
| "log_step lmax vs (Set_syslog n) st = (log_set_syslog n st, [])"
| "log_step lmax vs (Set_syslog_level l) st = (log_set_syslog_level lmax l st, [])"
| "log_step lmax vs (Reopen fopen) st = snd (log_reopen_file lmax vs (\<lambda>p. fopen) [] [] st)"
| "log_step lmax vs (Message l date msg) st = (st, log_vprintf lmax vs l date msg st)"

fun log_run :: "nat \<Rightarrow> bool \<Rightarrow> log_op list \<Rightarrow> log_state \<Rightarrow> log_state \<times> log_output" where
  "log_run lmax vs [] st = (st, [])"
| "log_run lmax vs (ev # ops) st =
     (case log_step lmax vs ev st of (st1, o1) \<Rightarrow> apsnd ((@) o1) (log_run lmax vs ops st1))"

fun memory_ok :: "log_op \<Rightarrow> bool" where
  "memory_ok (Set_logfile strdup fopen p) \<longleftrightarrow> strdup \<or> p = None"
| "memory_ok ev \<longleftrightarrow> True"

text \<open>The states that calls can lead to; with \<open>mem\<close>, by calls that all found memory.\<close>

inductive log_reachable :: "bool \<Rightarrow> nat \<Rightarrow> bool \<Rightarrow> log_state \<Rightarrow> bool" for mem lmax vs where
  initial: "log_reachable mem lmax vs (log_init lmax)"
| call: "log_reachable mem lmax vs st \<Longrightarrow> mem \<longrightarrow> memory_ok ev \<Longrightarrow> log_step lmax vs ev st = (st', out) \<Longrightarrow>
    log_reachable mem lmax vs st'"

definition levels_ok :: "nat \<Rightarrow> log_state \<Rightarrow> bool" where
  "levels_ok lmax st \<longleftrightarrow> lg_level st \<le> lmax \<and> lg_file_level st \<le> lmax \<and> lg_syslog_level st \<le> lmax"

definition file_ok :: "bool \<Rightarrow> log_state \<Rightarrow> bool" where
  "file_ok mem st \<longleftrightarrow> lg_fp st = None \<or> lg_fp st = lg_logfile st \<or> \<not> mem \<and> lg_logfile st = None"

lemmas log_op_defs = log_set_level_def log_set_logfile_level_def log_set_syslog_def log_set_syslog_level_def log_set_logfile_def
  log_reopen_file_def Let_def

lemma log_step_levels: "levels_ok lmax st \<Longrightarrow> log_step lmax vs ev st = (st', out) \<Longrightarrow> levels_ok lmax st'"
  by (cases ev) (auto simp: levels_ok_def log_op_defs split: option.splits if_splits)

lemma log_step_file:
  "file_ok mem st \<Longrightarrow> mem \<longrightarrow> memory_ok ev \<Longrightarrow> log_step lmax vs ev st = (st', out) \<Longrightarrow> file_ok mem st'"
  by (cases ev) (auto simp: file_ok_def log_op_defs split: option.splits if_splits)

section \<open>The history of calls\<close>

text \<open>
  The settings as the calls so far determine them: the last level set, or the initial one, and the file: if the last call that opened one
  succeeded, it is that of the last \<open>log_set_logfile\<close>.
\<close>

fun console_set :: "log_op \<Rightarrow> nat option" where
  "console_set (Set_level l) = Some l"
| "console_set ev = None"

fun file_set :: "log_op \<Rightarrow> nat option" where
  "file_set (Set_logfile_level l) = Some l"
| "file_set ev = None"

fun syslog_set :: "log_op \<Rightarrow> nat option" where
  "syslog_set (Set_syslog_level l) = Some l"
| "syslog_set ev = None"

fun path_set :: "log_op \<Rightarrow> string option option" where
  "path_set (Set_logfile strdup fopen p) = Some p"
| "path_set ev = None"

fun open_tried :: "log_op \<Rightarrow> bool option" where
  "open_tried (Set_logfile strdup fopen p) = Some fopen"
| "open_tried (Reopen fopen) = Some fopen"
| "open_tried ev = None"

definition last_set :: "(log_op \<Rightarrow> 'a option) \<Rightarrow> 'a \<Rightarrow> log_op list \<Rightarrow> 'a" where
  "last_set f x ops = last (x # List.map_filter f ops)"

lemma last_set_Nil [simp]: "last_set f x [] = x"
  by (simp add: last_set_def List.map_filter_def)

lemma last_set_snoc [simp]: "last_set f x (ops @ [ev]) = (case f ev of None \<Rightarrow> last_set f x ops | Some y \<Rightarrow> y)"
  by (simp add: last_set_def List.map_filter_def split: option.split)

definition open_file :: "log_op list \<Rightarrow> string option" where
  "open_file ops = (if last_set open_tried False ops then last_set path_set None ops else None)"

lemma log_run_append:
  "log_run lmax vs (xs @ ys) st = (case log_run lmax vs xs st of (st1, o1) \<Rightarrow> apsnd ((@) o1) (log_run lmax vs ys st1))"
  by (induction xs arbitrary: st) (auto simp: apsnd_def map_prod_def split: prod.splits)

lemma log_run_snoc: "fst (log_run lmax vs (ops @ [ev]) st) = fst (log_step lmax vs ev (fst (log_run lmax vs ops st)))"
  by (simp add: log_run_append split_beta)

lemma log_run_levels:
  assumes "LOG_LEVEL_ERROR \<le> lmax"
  shows "lg_level (fst (log_run lmax vs ops (log_init lmax))) = min lmax (last_set console_set lmax ops) \<and>
    lg_file_level (fst (log_run lmax vs ops (log_init lmax))) = min lmax (last_set file_set lmax ops) \<and>
    lg_syslog_level (fst (log_run lmax vs ops (log_init lmax))) = min lmax (last_set syslog_set LOG_LEVEL_ERROR ops)"
proof (induction ops rule: rev_induct)
  case Nil
  then show ?case using assms by (simp add: log_init_def min_absorb2)
next
  case (snoc ev ops)
  then show ?case unfolding log_run_snoc by (cases ev) (auto simp: log_op_defs split: option.splits)
qed

lemma log_run_file:
  assumes "\<forall>ev\<in>set ops. memory_ok ev"
  shows "lg_logfile (fst (log_run lmax vs ops (log_init lmax))) = last_set path_set None ops \<and>
    lg_fp (fst (log_run lmax vs ops (log_init lmax))) = open_file ops"
  using assms
proof (induction ops rule: rev_induct)
  case Nil
  then show ?case by (simp add: log_init_def open_file_def)
next
  case (snoc ev ops)
  then show ?case unfolding log_run_snoc by (cases ev) (auto simp: log_op_defs open_file_def split: option.splits)
qed

lemma level_cases: "(level :: nat) \<le> 4 \<Longrightarrow> level \<in> {0, 1, 2, 3, 4}"
  by auto

section \<open>Properties\<close>

text \<open>
  Property C38: in every state the logger can reach by calls of its interface, in a build whose highest level is at least that of errors, no
  level is above the one that was compiled in. As long as \<open>strdup\<close> finds memory, no file but the configured one is open, and none if none is
  configured. When it once did not, a file may be open that is not configured any more, but still none besides a configured one.
\<close>

theorem log_levels_bounded:
  assumes "log_reachable mem lmax vs st" and "LOG_LEVEL_ERROR \<le> lmax"
  shows "lg_level st \<le> lmax \<and> lg_file_level st \<le> lmax \<and> lg_syslog_level st \<le> lmax \<and>
    (lg_fp st = None \<or> lg_fp st = lg_logfile st \<or> \<not> mem \<and> lg_logfile st = None)"
proof -
  from assms have "levels_ok lmax st \<and> file_ok mem st"
  proof (induction rule: log_reachable.induct)
    case initial
    then show ?case by (simp add: levels_ok_def file_ok_def log_init_def)
  next
    case (call st ev st' out)
    then show ?case using log_step_levels log_step_file by blast
  qed
  then show ?thesis by (simp add: levels_ok_def file_ok_def)
qed

text \<open>A level that is too high is clipped; and a failed \<open>strdup\<close> leaves a file open that is not configured.\<close>

theorem log_levels_bounded_witness:
  "\<exists>st. log_reachable True 3 True st \<and> lg_level st = 3 \<and> lg_logfile st = Some ''a'' \<and> lg_fp st = lg_logfile st \<and>
     (\<exists>st'. log_reachable False 3 True st' \<and> lg_logfile st' = None \<and> lg_fp st' = Some ''a'')"
proof -
  let ?st = "(log_init 3)\<lparr>lg_logfile := Some ''a'', lg_fp := Some ''a''\<rparr>"
  have r: "log_reachable mem 3 True ?st" for mem
  proof -
    have "log_reachable mem 3 True (log_set_level 3 4 (log_init 3))"
      by (rule log_reachable.call [OF log_reachable.initial, where ev = "Set_level 4"]) simp_all
    from log_reachable.call [OF this, where ev = "Set_logfile True True (Some ''a'')"] show ?thesis
      by (simp add: log_op_defs log_init_def)
  qed
  from log_reachable.call [OF r [of False], where ev = "Set_logfile False True (Some ''b'')"]
  have "log_reachable False 3 True (?st\<lparr>lg_logfile := None\<rparr>)" by (simp add: log_op_defs)
  moreover from log_levels_bounded [OF r [of True]] have "lg_level ?st \<le> 3" "lg_fp ?st = lg_logfile ?st"
    by (simp_all add: LOG_LEVEL_ERROR_def)
  ultimately show ?thesis using r [of True]
    by (intro exI [of _ ?st] conjI exI [of _ "?st\<lparr>lg_logfile := None\<rparr>"]) (simp_all add: log_init_def)
qed

text \<open>
  Property C39: where a message goes, by the history of the calls, none of which ran out of memory, in a build whose highest level is between
  that of errors and that of debug messages. The console gets it exactly once, errors on the error stream, if its level is at most the one set
  last for the console; the file that the last successful call opened gets it exactly once if its level is at most the one set last for files; both
  get the time stamp and the prefix of the level. Syslog gets it with the priority of the level if it is at most the one set last for syslog,
  whether \<open>log_set_syslog\<close> was called with a name, with NULL or not at all. Levels that were never set are those of the build, that of
  errors for syslog, and no level counts as higher than that of the build.
\<close>

theorem log_message_sinks:
  assumes "\<forall>ev\<in>set ops. memory_ok ev" and "LOG_LEVEL_ERROR \<le> lmax" and "lmax \<le> LOG_LEVEL_DEBUG"
  shows "snd (log_run lmax vs (ops @ [Message level date msg]) (log_init lmax)) = snd (log_run lmax vs ops (log_init lmax)) @
     (if level \<le> min lmax (last_set console_set lmax ops)
      then [(if level \<le> 1 then Console_err else Console_out,
             date @ [''!!FATAL!! '', ''**ERROR** '', ''--WARNING-- '', ''INFO '', []] ! level @ msg @ [CHR 0x0A])] else []) @
     (if level \<le> min lmax (last_set file_set lmax ops)
      then (case open_file ops of None \<Rightarrow> [] | Some path \<Rightarrow> [(Log_file path,
             date @ [''!!FATAL!! '', ''**ERROR** '', ''--WARNING-- '', ''INFO '', []] ! level @ msg @ [CHR 0x0A])]) else []) @
     (if vs \<and> level \<le> min lmax (last_set syslog_set 1 ops)
      then [(Syslog ([''LOG_ALERT'', ''LOG_ERR'', ''LOG_WARNING'', ''LOG_INFO'', ''LOG_DEBUG''] ! level), msg)] else [])"
proof -
  let ?st = "fst (log_run lmax vs ops (log_init lmax))"
  have st: "lg_level ?st = min lmax (last_set console_set lmax ops)" "lg_file_level ?st = min lmax (last_set file_set lmax ops)"
      "lg_syslog_level ?st = min lmax (last_set syslog_set 1 ops)" "lg_fp ?st = open_file ops"
    using log_run_levels [OF assms(2), of vs ops] log_run_file [OF assms(1), of lmax vs] by (simp_all add: LOG_LEVEL_ERROR_def)
  have p: "log_prefix level = [''!!FATAL!! '', ''**ERROR** '', ''--WARNING-- '', ''INFO '', []] ! level"
      "syslog_out level msg = [(Syslog ([''LOG_ALERT'', ''LOG_ERR'', ''LOG_WARNING'', ''LOG_INFO'', ''LOG_DEBUG''] ! level), msg)]"
    if "level \<le> lmax"
    using level_cases [of level] that assms(3) by (auto simp: log_prefix_def syslog_out_def log_levels)
  have "snd (log_run lmax vs (ops @ [Message level date msg]) (log_init lmax)) =
      snd (log_run lmax vs ops (log_init lmax)) @ log_vprintf lmax vs level date msg ?st"
    by (simp add: log_run_append split_beta)
  then show ?thesis
    unfolding log_vprintf_def st Let_def
    by (cases "open_file ops"; cases "level \<le> lmax") (simp_all add: p LOG_LEVEL_ERROR_def)
qed

text \<open>Syslog is switched off and the file of the first call cannot be opened; then it is reopened.\<close>

theorem log_message_sinks_witness:
  "snd (log_run 4 True [Set_syslog None, Set_level 0, Set_logfile True False (Some ''a''), Reopen True, Message 1 ''[t] '' ''bad''] (log_init 4)) =
     snd (log_run 4 True [Set_syslog None, Set_level 0, Set_logfile True False (Some ''a''), Reopen True] (log_init 4)) @
       [(Log_file ''a'', ''[t] **ERROR** bad'' @ [CHR 0x0A]), (Syslog ''LOG_ERR'', ''bad'')]"
proof -
  let ?ops = "[Set_syslog None, Set_level 0, Set_logfile True False (Some ''a''), Reopen True]"
  have h: "last_set console_set 4 ?ops = 0" "last_set file_set 4 ?ops = 4" "last_set syslog_set 1 ?ops = 1" "open_file ?ops = Some ''a''"
    by (simp_all add: last_set_def open_file_def List.map_filter_simps)
  have "\<forall>ev\<in>set ?ops. memory_ok ev" "LOG_LEVEL_ERROR \<le> 4" "4 \<le> LOG_LEVEL_DEBUG" by (simp_all add: log_levels)
  from log_message_sinks [OF this, of True 1 "''[t] ''" "''bad''"] show ?thesis unfolding h by (simp del: log_run.simps)
qed

text \<open>
  Also: leaving the logging macros out of the program changes nothing: a macro whose level is above the compiled one is empty, and
  the function it would have called writes nothing in that case, to no sink and in no state.
\<close>

theorem log_macros_optimised:
  "log_fatal lmax vs date msg st = log_vprintf lmax vs LOG_LEVEL_FATAL date msg st \<and>
   log_error lmax vs date msg st = log_vprintf lmax vs LOG_LEVEL_ERROR date msg st \<and>
   log_warn lmax vs date msg st = log_vprintf lmax vs LOG_LEVEL_WARN date msg st \<and>
   log_info lmax vs date msg st = log_vprintf lmax vs LOG_LEVEL_INFO date msg st \<and>
   log_debug lmax vs date msg st = log_vprintf lmax vs LOG_LEVEL_DEBUG date msg st"
  by (simp add: log_fatal_def log_error_def log_warn_def log_info_def log_debug_def log_printf_def log_vprintf_def)

end
