(* ===== verification/C_Text.thy ===== *)
theory C_Text
  imports Prelude
begin

text \<open>
  The text functions of the C library that the program uses: \<open>strtol\<close> with base 0 for a 64 bit \<open>long\<close>, and
  the conversions \<open>%d\<close> and \<open>%0nx\<close> of \<open>printf\<close>, with the lemmas that relate reading and printing.
\<close>

section \<open>strtol\<close>

abbreviation code :: "char \<Rightarrow> nat" where
  "code c \<equiv> of_char c"

definition digit_value :: "char \<Rightarrow> nat" where
  "digit_value c =
     (if 48 \<le> code c \<and> code c \<le> 57 then code c - 48
      else if 97 \<le> code c \<and> code c \<le> 122 then code c - 87
      else if 65 \<le> code c \<and> code c \<le> 90 then code c - 55 else 36)"

fun digits :: "nat \<Rightarrow> string \<Rightarrow> nat \<Rightarrow> nat" where
  "digits base [] acc = acc"
| "digits base (c # cs) acc = (if digit_value c < base then digits base cs (acc * base + digit_value c) else acc)"

definition is_space :: "char \<Rightarrow> bool" where
  "is_space c \<longleftrightarrow> code c = 32 \<or> 9 \<le> code c \<and> code c \<le> 13"

definition magnitude :: "string \<Rightarrow> nat" where
  "magnitude s = (case s of
     c # x # h # cs \<Rightarrow>
       if c = CHR ''0'' \<and> (x = CHR ''x'' \<or> x = CHR ''X'') \<and> digit_value h < 16 then digits 16 (h # cs) 0
       else if c = CHR ''0'' then digits 8 s 0 else digits 10 s 0
   | c # cs \<Rightarrow> if c = CHR ''0'' then digits 8 s 0 else digits 10 s 0
   | [] \<Rightarrow> 0)"

definition LONG_MAX :: int where "LONG_MAX = 2 ^ 63 - 1"
definition LONG_MIN :: int where "LONG_MIN = - (2 ^ 63)"
definition INT_MAX :: int where "INT_MAX = 2 ^ 31 - 1"

definition strtol :: "string \<Rightarrow> int" where
  "strtol s = (case dropWhile is_space s of
     [] \<Rightarrow> 0
   | c # cs \<Rightarrow>
     if c = CHR ''-'' then max LONG_MIN (- int (magnitude cs))
     else if c = CHR ''+'' then min LONG_MAX (int (magnitude cs))
     else min LONG_MAX (int (magnitude (c # cs))))"

section \<open>Decimal numbers\<close>

fun dec :: "nat \<Rightarrow> string" where
  "dec n = (if n < 10 then [char_of (48 + n)] else dec (n div 10) @ [char_of (48 + n mod 10)])"

declare dec.simps [simp del]

lemma code_digit [simp]: "k < 10 \<Longrightarrow> code (char_of (48 + k)) = 48 + k"
  by simp

lemma digit_value_digit [simp]: "k < 10 \<Longrightarrow> digit_value (char_of (48 + k)) = k"
  by (simp add: digit_value_def)

lemma digits_append:
  "(\<forall>c\<in>set s. digit_value c < b) \<Longrightarrow> digits b (s @ t) acc = digits b t (digits b s acc)"
  by (induction s arbitrary: acc) auto

lemma dec_digits: "\<forall>c\<in>set (dec n). digit_value c < 10"
  by (induction n rule: dec.induct) (subst dec.simps, simp)

lemma digits_dec: "digits 10 (dec n) 0 = n"
proof (induction n rule: dec.induct)
  case (1 n)
  show ?case
  proof (cases "n < 10")
    case False
    with 1 have "digits 10 (dec (n div 10)) 0 = n div 10" by simp
    with False show ?thesis
      by (subst dec.simps) (simp add: digits_append [OF dec_digits])
  qed (simp add: dec.simps [of n])
qed

lemma dec_Cons:
  obtains c cs where "dec n = c # cs" "48 \<le> code c" "code c \<le> 57" "n \<noteq> 0 \<Longrightarrow> 48 < code c"
proof (induction n arbitrary: thesis rule: dec.induct)
  case (1 n)
  show ?case
  proof (cases "n < 10")
    case True
    then show ?thesis using 1(2) [of "char_of (48 + n)" "[]"] by (simp add: dec.simps [of n])
  next
    case False
    with 1(1) obtain c cs where "dec (n div 10) = c # cs" "48 \<le> code c" "code c \<le> 57" "n div 10 \<noteq> 0 \<Longrightarrow> 48 < code c"
      by blast
    then show ?thesis
      using False 1(2) [of c "cs @ [char_of (48 + n mod 10)]"] by (simp add: dec.simps [of n] div_greater_zero_iff)
  qed
qed

definition ends_number :: "string \<Rightarrow> bool" where
  "ends_number t \<longleftrightarrow> t = [] \<or> hd t = CHR '':''"

lemma magnitude_dec: "ends_number t \<Longrightarrow> magnitude (dec n @ t) = n"
proof -
  assume t: "ends_number t"
  have stop: "digits b t acc = acc" if "b \<le> 10" for b acc
    using t that by (cases t) (auto simp: ends_number_def digit_value_def)
  show ?thesis
  proof (cases "n = 0")
    case True
    have "char_of (of_char (CHR ''0'') :: nat) = CHR ''0''" by (rule char_of_char)
    then have "dec 0 = ''0''" by (simp add: dec.simps [of 0])
    moreover have "magnitude (CHR ''0'' # t) = digits 8 (CHR ''0'' # t) 0"
      using t by (cases t rule: list.exhaust; cases "tl t") (auto simp: magnitude_def ends_number_def)
    moreover have "digits 8 (CHR ''0'' # t) 0 = 0" using stop by (simp add: digit_value_def)
    ultimately show ?thesis using True by simp
  next
    case False
    obtain c cs where c: "dec n = c # cs" "48 < code c" using dec_Cons [of n] False by metis
    then have "c \<noteq> CHR ''0''" by auto
    then have "magnitude (dec n @ t) = digits 10 (dec n @ t) 0"
      using c(1) by (auto simp: magnitude_def split: list.splits)
    then show ?thesis using stop by (simp add: digits_append [OF dec_digits] digits_dec)
  qed
qed

lemma strtol_dec: "ends_number t \<Longrightarrow> strtol (dec n @ t) = min LONG_MAX (int n)"
proof -
  assume t: "ends_number t"
  obtain c cs where c: "dec n = c # cs" "48 \<le> code c" "code c \<le> 57" by (rule dec_Cons)
  then have "\<not> is_space c" "c \<noteq> CHR ''-''" "c \<noteq> CHR ''+''" by (auto simp: is_space_def)
  with c(1) magnitude_dec [OF t, of n] show ?thesis by (simp add: strtol_def)
qed

lemma dec_no_colon: "CHR '':'' \<notin> set (dec n)"
  using dec_digits [of n] by (auto simp: digit_value_def)

section \<open>Hexadecimal numbers\<close>

definition hex_digit :: "nat \<Rightarrow> char" where
  "hex_digit k = (if k < 10 then char_of (48 + k) else char_of (87 + k))"

fun hex :: "nat \<Rightarrow> string" where
  "hex n = (if n < 16 then [hex_digit n] else hex (n div 16) @ [hex_digit (n mod 16)])"

declare hex.simps [simp del]

text \<open>\<open>%0wx\<close>: padded with zeros to at least \<open>w\<close> characters.\<close>

definition hex_pad :: "nat \<Rightarrow> nat \<Rightarrow> string" where
  "hex_pad w n = replicate (w - length (hex n)) (CHR ''0'') @ hex n"

lemma digit_value_hex [simp]: "k < 16 \<Longrightarrow> digit_value (hex_digit k) = k"
  by (cases "k < 10") (simp_all add: hex_digit_def digit_value_def)

lemma hex_length: "n < 16 ^ w \<Longrightarrow> 0 < w \<Longrightarrow> length (hex n) \<le> w"
proof (induction n arbitrary: w rule: hex.induct)
  case (1 n)
  show ?case
  proof (cases "n < 16")
    case True
    with 1(3) show ?thesis by (simp add: hex.simps [of n])
  next
    case False
    with 1(2,3) obtain v where w: "w = Suc v" "0 < v" by (cases w; cases "w - 1") auto
    with 1(2) have "n div 16 < 16 ^ v" by (simp add: div_less_iff_less_mult mult.commute)
    with 1(1) [of v] False w show ?thesis by (simp add: hex.simps [of n])
  qed
qed

lemma hex_pad_length: "n < 16 ^ w \<Longrightarrow> 0 < w \<Longrightarrow> length (hex_pad w n) = w"
  using hex_length [of n w] by (simp add: hex_pad_def)

lemma hex_pad_byte: "n < 256 \<Longrightarrow> hex_pad 2 n = [hex_digit (n div 16), hex_digit (n mod 16)]"
proof -
  assume n: "n < 256"
  have "char_of (of_char (CHR ''0'') :: nat) = CHR ''0''" by (rule char_of_char)
  then have z: "hex_digit 0 = CHR ''0''" by (simp add: hex_digit_def)
  show ?thesis
  proof (cases "n < 16")
    case True
    then show ?thesis by (simp add: hex_pad_def hex.simps [of n] z)
  next
    case False
    with n have "n div 16 < 16" by (simp add: div_less_iff_less_mult)
    with False show ?thesis by (simp add: hex_pad_def hex.simps [of n] hex.simps [of "n div 16"])
  qed
qed

end
