(* ===== verification/Event_Loop.thy ===== *)
theory Event_Loop
  imports Handlers Ipc Usb_Device Log C_Text
begin

text \<open>
  The whole program at run time: the dispatch table calls the handlers of the server, of the driver and of
  the notifier, and these change the table. The state is the table, the server and the driver. The
  invariant \<open>sys_inv\<close> meets the contract \<open>event_handlers\<close> of the dispatcher, so the event loop of
  \<open>main\<close> runs without undefined behaviour.
\<close>

section \<open>The handlers of the driver\<close>

definition usbdali_add_pollfd :: "bool \<Rightarrow> int \<Rightarrow> uint16 \<Rightarrow> ptr \<Rightarrow> fn DispatchPtr \<Rightarrow> fn DispatchPtr option" where
  "usbdali_add_pollfd grow fd events user_data t =
     (if user_data \<noteq> None
      then table_add grow fd events (Some F_usbdali_dispatch_ready) (Some F_usbdali_dispatch_error) user_data t
      else Some t)"

definition usbdali_remove_pollfd :: "int \<Rightarrow> ptr \<Rightarrow> fn DispatchPtr \<Rightarrow> fn DispatchPtr option" where
  "usbdali_remove_pollfd fd user_data t = (if user_data \<noteq> None then table_remove_fd fd t else Some t)"

text \<open>
  What libusb can do while it handles events: end a transfer, which calls the transfer's callback, or call
  one of the two notifiers because its set of descriptors has changed.
\<close>

datatype usb_activity = Transfer_done usb_event | Pollfd_added int uint16 | Pollfd_removed int

fun activity_ok :: "usb_activity \<Rightarrow> bool" where
  "activity_ok (Transfer_done (Send_done st)) \<longleftrightarrow> True"
| "activity_ok (Transfer_done (Receive_done st n bs)) \<longleftrightarrow> event_ok (Receive_done st n bs)"
| "activity_ok (Transfer_done ev) \<longleftrightarrow> False"
| "activity_ok act \<longleftrightarrow> True"

fun usb_activity_step :: "(fn, 'o) net_env \<Rightarrow> 'u usb_env \<Rightarrow> ptr \<Rightarrow> usb_activity \<Rightarrow> (fn, 'u) UsbDali \<times> (fn, 'o) Server \<Rightarrow>
    ((fn, 'u) UsbDali \<times> (fn, 'o) Server) option" where
  "usb_activity_step env uenv uarg (Transfer_done ev) ds = usb_event_step uenv (call_req env) (call_bcast env) ev ds"
| "usb_activity_step env uenv uarg (Pollfd_added fd events) ds =
     map_option (\<lambda>t. (fst ds, (snd ds)\<lparr>s_dispatch := t\<rparr>)) (usbdali_add_pollfd (ne_grow env) fd events uarg (s_dispatch (snd ds)))"
| "usb_activity_step env uenv uarg (Pollfd_removed fd) ds =
     map_option (\<lambda>t. (fst ds, (snd ds)\<lparr>s_dispatch := t\<rparr>)) (usbdali_remove_pollfd fd uarg (s_dispatch (snd ds)))"

fun handle_events :: "(fn, 'o) net_env \<Rightarrow> 'u usb_env \<Rightarrow> ptr \<Rightarrow> usb_activity list \<Rightarrow> (fn, 'u) UsbDali \<times> (fn, 'o) Server \<Rightarrow>
    ((fn, 'u) UsbDali \<times> (fn, 'o) Server) option" where
  "handle_events env uenv uarg [] ds = Some ds"
| "handle_events env uenv uarg (act # acts) ds = do {
     ds' \<leftarrow> usb_activity_step env uenv uarg act ds;
     handle_events env uenv uarg acts ds'
   }"

text \<open>
  \<open>pending_events\<close> is libusb: what \<open>libusb_handle_events_timeout\<close> finds to do in its state, and the state afterwards, so
  any sequence of calls can see any sequence of events. \<open>uarg\<close> is the driver's address, which the notifiers are called with.
\<close>

type_synonym 'u libusb_events = "'u \<Rightarrow> usb_activity list \<times> 'u"

definition usbdali_dispatch_ready :: "(fn, 'o) net_env \<Rightarrow> 'u usb_env \<Rightarrow> 'u libusb_events \<Rightarrow> ptr \<Rightarrow> ptr \<Rightarrow>
    (fn, 'o) Server \<times> (fn, 'u) UsbDaliPtr \<Rightarrow> ((fn, 'o) Server \<times> (fn, 'u) UsbDaliPtr) option" where
  "usbdali_dispatch_ready env uenv pending_events uarg arg su =
     (if arg \<noteq> None then do {
        d \<leftarrow> snd su;
        let (acts, u) = pending_events (d_lib d);
        (d', s') \<leftarrow> handle_events env uenv uarg acts (d\<lparr>d_lib := u\<rparr>, fst su);
        Some (s', Some d')
      } else Some su)"

section \<open>Calling a handler\<close>

text \<open>The dispatcher has the table; the server's handlers reach it through \<open>server->dispatch\<close>.\<close>

definition call_ready :: "(fn, 'o) net_env \<Rightarrow> 'u usb_env \<Rightarrow> 'u libusb_events \<Rightarrow> ptr \<Rightarrow> IpcPtr \<Rightarrow>
    (fn, (fn, 'o) Server \<times> (fn, 'u) UsbDaliPtr) handler" where
  "call_ready env uenv pending_events uarg ipc f arg ts =
     (let s0 = (fst (snd ts))\<lparr>s_dispatch := Some (fst ts)\<rparr>; usb = snd (snd ts) in do {
        (s, usb') \<leftarrow> (case f of
            F_server_listener_ready \<Rightarrow>
              if arg \<noteq> None then map_option (\<lambda>s. (s, usb)) (server_listener_ready env s0) else Some (s0, usb)
          | F_connection_ready \<Rightarrow> connection_ready env (call_recv env uenv) call_destroy arg (s0, usb)
          | F_usbdali_dispatch_ready \<Rightarrow> usbdali_dispatch_ready env uenv pending_events uarg arg (s0, usb)
          | F_ipc_read_zero \<Rightarrow>
              if arg \<noteq> None then Some (s0\<lparr>s_os := ipc_read_zero (ne_read env) ipc (s_os s0)\<rparr>, usb) else Some (s0, usb)
          | _ \<Rightarrow> None);
        t \<leftarrow> s_dispatch s;
        Some (t, s, usb')
      })"

text \<open>
  \<open>server_listener_error\<close> and \<open>usbdali_dispatch_error\<close> only write to the log, which is their result here. \<open>pointer_text\<close> is the
  format \<open>%p\<close> of the C library, and \<open>error_code\<close> the number of an error in \<open>lib/dispatch.h\<close>.
\<close>

fun error_code :: "DispatchError \<Rightarrow> int" where
  "error_code DISPATCH_FD_CLOSED = -1"
| "error_code DISPATCH_POLL_ERROR = -2"
| "error_code DISPATCH_FD_INVALID = -3"

definition signed_dec :: "int \<Rightarrow> string" where
  "signed_dec i = (if i < 0 then ''-'' @ dec (nat (- i)) else dec (nat i))"

definition server_listener_error :: "nat \<Rightarrow> bool \<Rightarrow> string \<Rightarrow> (ptr \<Rightarrow> string) \<Rightarrow> ptr \<Rightarrow> DispatchError \<Rightarrow> log_state \<Rightarrow> log_output" where
  "server_listener_error lmax vsyslog date pointer_text arg err lg = (case err of
     DISPATCH_FD_CLOSED \<Rightarrow> log_info lmax vsyslog date (''Server '' @ pointer_text arg @ '' was disconnected'') lg
   | _ \<Rightarrow> log_error lmax vsyslog date
       (''Server '' @ pointer_text arg @ '' got a connection error: '' @ signed_dec (error_code err)) lg)"

definition usbdali_dispatch_error :: "nat \<Rightarrow> bool \<Rightarrow> string \<Rightarrow> ptr \<Rightarrow> DispatchError \<Rightarrow> log_state \<Rightarrow> log_output" where
  "usbdali_dispatch_error lmax vsyslog date arg err lg =
     (if arg \<noteq> None then log_error lmax vsyslog date (''Dispatch queue reported error '' @ signed_dec (error_code err)) lg else [])"

text \<open>For the state of the program these two handlers do nothing.\<close>

definition call_error :: "(fn, 'o) net_env \<Rightarrow> DispatchError \<Rightarrow> (fn, (fn, 'o) Server \<times> (fn, 'u) UsbDaliPtr) handler" where
  "call_error env err f arg ts =
     (let s0 = (fst (snd ts))\<lparr>s_dispatch := Some (fst ts)\<rparr>; usb = snd (snd ts) in do {
        (s, usb') \<leftarrow> (case f of
            F_server_listener_error \<Rightarrow> Some (s0, usb)
          | F_connection_error \<Rightarrow> connection_error env call_destroy err arg (s0, usb)
          | F_usbdali_dispatch_error \<Rightarrow> Some (s0, usb)
          | _ \<Rightarrow> None);
        t \<leftarrow> s_dispatch s;
        Some (t, s, usb')
      })"

section \<open>The invariant of the program\<close>

text \<open>The entries of the table that are not a connection's.\<close>

fun foreign :: "ptr \<Rightarrow> fn option \<Rightarrow> fn option \<Rightarrow> bool" where
  "foreign uarg (Some F_server_listener_ready) (Some F_server_listener_error) \<longleftrightarrow> True"
| "foreign uarg (Some F_usbdali_dispatch_ready) (Some F_usbdali_dispatch_error) \<longleftrightarrow> uarg \<noteq> None"
| "foreign uarg (Some F_ipc_read_zero) None \<longleftrightarrow> True"
| "foreign uarg r e \<longleftrightarrow> False"

text \<open>What is asked of the operating system, of libusb and of the memory.\<close>

definition sys_env_ok :: "(fn, 'o) net_env \<Rightarrow> 'u usb_env \<Rightarrow> 'u libusb_events \<Rightarrow> ptr \<Rightarrow> bool" where
  "sys_env_ok env uenv pending_events uarg \<longleftrightarrow> net_fns env \<and> total_allocator (ne_malloc env) \<and> ne_grow env \<and> read_ok env \<and>
     (\<forall>fd os. -1 \<le> fst (fst (ne_accept env fd os))) \<and> usb_env_ok uenv \<and> (uarg \<noteq> None \<longrightarrow> bcast_ok env) \<and>
     (\<forall>u. \<forall>act\<in>set (fst (pending_events u)). activity_ok act)"

definition sys_inv :: "(fn, 'o) net_env \<Rightarrow> 'u usb_env \<Rightarrow> 'u libusb_events \<Rightarrow> addr \<Rightarrow> ptr \<Rightarrow>
    fn Dispatch \<times> (fn, 'o) Server \<times> (fn, 'u) UsbDaliPtr \<Rightarrow> bool" where
  "sys_inv env uenv pending_events self uarg ts \<longleftrightarrow> sys_env_ok env uenv pending_events uarg \<and>
     wiring uarg (fst (snd ts)) \<and>
     (\<exists>cs xs. net_rep env (foreign uarg) ((fst (snd ts))\<lparr>s_dispatch := Some (fst ts)\<rparr>) cs xs \<and>
        serves uenv self uarg (set cs) (snd (snd ts)))"

section \<open>The driver's events\<close>

definition driving :: "(fn, 'o) net_env \<Rightarrow> addr \<Rightarrow> ptr \<Rightarrow> fn entry list \<Rightarrow> (fn, 'u) UsbDali \<times> (fn, 'o) Server \<Rightarrow> bool" where
  "driving env self uarg xs0 ds \<longleftrightarrow> hosts env (foreign uarg) uarg xs0 (args (fst ds)) (snd ds) \<and>
     (\<exists>\<sigma> E. usb_sim (fst ds) \<sigma> E) \<and> busy (fst ds) \<and>
     hooked self (fst ds)"

text \<open>The state of libusb is of no concern to the driver's invariants.\<close>

lemma usb_sim_lib [simp]: "usb_sim (d\<lparr>d_lib := u\<rparr>) \<sigma> E \<longleftrightarrow> usb_sim d \<sigma> E"
  by (simp add: usb_sim_def phase_of_def usb_rep_def usb_abs_def active_def xfer_rep_def)

lemma driving_lib: "driving env self uarg xs0 (d, s) \<Longrightarrow> driving env self uarg xs0 (d\<lparr>d_lib := u\<rparr>, s)"
  by (simp add: driving_def busy_def hooked_def wired_def args_def)

lemma hosts_table:
  assumes "hosts env other uarg xs0 A s"
    and "\<And>t xs cs. s_dispatch s = Some t \<Longrightarrow> disp_rep t xs \<Longrightarrow> entries_ok env other (s_conns s) xs \<Longrightarrow>
      \<exists>t' ys. r = Some (Some t') \<and> disp_rep t' ys \<and> entries_ok env other (s_conns s) ys \<and> quiet xs ys"
  shows "\<exists>t. r = Some t \<and> hosts env other uarg xs0 A (s\<lparr>s_dispatch := t\<rparr>)"
proof -
  from assms(1) obtain cs xs where h: "bcast_ok env" "uarg \<noteq> None" "wiring uarg s" "net_rep env other s cs xs"
      "quiet xs0 xs" "A \<subseteq> insert None (Some ` set cs)" by (auto simp: hosts_def)
  from h(4) obtain t where t: "s_dispatch s = Some t" "disp_rep t xs" "entries_ok env other (s_conns s) xs"
    by (auto simp: net_rep_def)
  from assms(2) [OF this] obtain t' ys where
    t': "r = Some (Some t')" "disp_rep t' ys" "entries_ok env other (s_conns s) ys" "quiet xs ys" by blast
  have "net_rep env other (s\<lparr>s_dispatch := Some t'\<rparr>) cs ys" using h(4) t'(2,3) by (simp add: net_rep_def)
  with h t' quiet_trans [OF h(5) t'(4)] show ?thesis by (auto simp: hosts_def wiring_def)
qed

lemma add_pollfd_table:
  assumes "disp_rep t xs" "entries_ok env (foreign uarg) conns xs" "net_fns env"
  shows "\<exists>t' ys. usbdali_add_pollfd True fd events uarg (Some t) = Some (Some t') \<and> disp_rep t' ys \<and>
    entries_ok env (foreign uarg) conns ys \<and> quiet xs ys"
proof (cases "uarg = None \<or> fd < 0")
  case True
  with assms show ?thesis by (intro exI [of _ t] exI [of _ xs]) (auto simp: usbdali_add_pollfd_def table_add_negative)
next
  case False
  let ?e = "new_entry fd events (Some F_usbdali_dispatch_ready) (Some F_usbdali_dispatch_error) None uarg"
  have "entries_ok env (foreign uarg) conns [?e]"
    using False assms(3) by (simp add: entries_ok_def new_entry_def net_fns_def)
  with assms(2) have "entries_ok env (foreign uarg) conns (xs @ [?e])" by (simp add: entries_ok_append)
  moreover have "quiet xs (xs @ [?e])" by (simp add: quiet_def pending_append_idle new_entry_def)
  moreover from table_add_rep [OF assms(1), of fd events "Some F_usbdali_dispatch_ready" "Some F_usbdali_dispatch_error" uarg] False
  obtain t' where "usbdali_add_pollfd True fd events uarg (Some t) = Some (Some t')" "disp_rep t' (xs @ [?e])"
    by (auto simp: usbdali_add_pollfd_def)
  ultimately show ?thesis by blast
qed

lemma remove_pollfd_table:
  assumes "disp_rep t xs" "entries_ok env other conns xs"
  shows "\<exists>t' ys. usbdali_remove_pollfd fd uarg (Some t) = Some (Some t') \<and> disp_rep t' ys \<and>
    entries_ok env other conns ys \<and> quiet xs ys"
proof (cases "uarg = None")
  case True
  with assms show ?thesis by (auto simp: usbdali_remove_pollfd_def)
next
  case False
  from table_remove_fd_rep [OF assms(1), of fd] obtain t' ys where
    t': "table_remove_fd fd (Some t) = Some (Some t')" "disp_rep t' ys"
      "mset ys = filter_mset (\<lambda>x. p_fd (fst x) \<noteq> fd) (mset xs)" "quiet xs ys" by blast
  have "entries_ok env other conns ys"
    by (rule entries_ok_mono [OF assms(2)]) (use set_filter_mset [OF t'(3)] in auto)
  with t' False show ?thesis by (auto simp: usbdali_remove_pollfd_def)
qed

lemma activity_driving:
  assumes "driving env self uarg xs0 ds" "usb_env_ok uenv" "net_fns env" "ne_grow env" "activity_ok act"
  shows "\<exists>ds'. usb_activity_step env uenv uarg act ds = Some ds' \<and> driving env self uarg xs0 ds'"
proof -
  obtain d s where ds: "ds = (d, s)" by fastforce
  from assms(1) ds obtain \<sigma> E where d: "hosts env (foreign uarg) uarg xs0 (args d) s" "usb_sim d \<sigma> E" "busy d"
      "hooked self d" by (auto simp: driving_def)
  have w: "wired F_dali_inband_handler F_dali_outband_handler (Some self) d" using d(4) by (simp add: hooked_def)
  show ?thesis
  proof (cases act)
    case (Transfer_done ev)
    with assms(5) have ev: "event_ok ev" "event_args ev = {}" by (cases ev; simp)+
    from dc.event_follows [OF assms(2) d(2) w _ d(3) ev(1), of env "foreign uarg" uarg xs0 s] d(1) ev(2)
    obtain d' s' \<sigma>' E' where "usb_event_step uenv (call_req env) (call_bcast env) ev (d, s) = Some (d', s')"
        "usb_sim d' \<sigma>' E'" "hosts env (foreign uarg) uarg xs0 (args d') s'" "busy d'" "config d' = config d"
      by (auto simp: follows_def)
    with Transfer_done ds d(4) config_hooked [of d' d] show ?thesis by (auto simp: driving_def)
  next
    case (Pollfd_added fd events)
    have "\<exists>t. usbdali_add_pollfd True fd events uarg (s_dispatch s) = Some t \<and>
        hosts env (foreign uarg) uarg xs0 (args d) (s\<lparr>s_dispatch := t\<rparr>)"
      by (rule hosts_table [OF d(1)]) (use add_pollfd_table assms(3) in fastforce)
    with Pollfd_added ds d assms(4) show ?thesis by (auto simp: driving_def)
  next
    case (Pollfd_removed fd)
    have "\<exists>t. usbdali_remove_pollfd fd uarg (s_dispatch s) = Some t \<and>
        hosts env (foreign uarg) uarg xs0 (args d) (s\<lparr>s_dispatch := t\<rparr>)"
      by (rule hosts_table [OF d(1)]) (use remove_pollfd_table in fastforce)
    with Pollfd_removed ds d show ?thesis by (auto simp: driving_def)
  qed
qed

lemma handle_events_driving:
  assumes "driving env self uarg xs0 ds" "usb_env_ok uenv" "net_fns env" "ne_grow env" "\<forall>act\<in>set acts. activity_ok act"
  shows "\<exists>ds'. handle_events env uenv uarg acts ds = Some ds' \<and> driving env self uarg xs0 ds'"
  using assms(1,5)
proof (induction acts arbitrary: ds)
  case (Cons act acts)
  from activity_driving [OF Cons.prems(1) assms(2-4), of act] Cons.prems(2) obtain ds1 where
    "usb_activity_step env uenv uarg act ds = Some ds1" "driving env self uarg xs0 ds1" by auto
  with Cons.IH [of ds1] Cons.prems(2) show ?case by simp
qed simp

section \<open>The contract of the handlers\<close>

lemma sys_handled:
  assumes "sys_env_ok env uenv pe uarg" "r = Some (s, usb)" "net_rep env (foreign uarg) s cs ys" "quiet xs ys"
    "wiring uarg s" "serves uenv self uarg (set cs) usb"
  shows "handled (sys_inv env uenv pe self uarg) xs (do { (s, usb') \<leftarrow> r; t \<leftarrow> s_dispatch s; Some (t, s, usb') })"
proof -
  from assms(3) obtain t where t: "s_dispatch s = Some t" "disp_rep t ys" by (auto simp: net_rep_def)
  moreover from t(1) have "s\<lparr>s_dispatch := Some t\<rparr> = s" by simp
  with assms(3) have "net_rep env (foreign uarg) (s\<lparr>s_dispatch := Some t\<rparr>) cs ys" by (simp only:)
  ultimately have "sys_inv env uenv pe self uarg (t, s, usb)" using assms unfolding sys_inv_def by auto
  with t assms(2,4) show ?thesis unfolding handled_def quiet_def by fastforce
qed

lemma dispatch_ready_ok:
  assumes env: "sys_env_ok env uenv pe uarg" "uarg \<noteq> None" and w: "wiring uarg s" and rep: "net_rep env (foreign uarg) s cs xs"
    and usb: "serves uenv self uarg (set cs) usb"
  shows "\<exists>s' usb' cs' ys. usbdali_dispatch_ready env uenv pe uarg arg (s, usb) = Some (s', usb') \<and>
    net_rep env (foreign uarg) s' cs' ys \<and> quiet xs ys \<and> wiring uarg s' \<and> serves uenv self uarg (set cs') usb'"
proof (cases arg)
  case None
  with w rep usb quiet_refl show ?thesis by (fastforce simp: usbdali_dispatch_ready_def)
next
  case (Some a)
  obtain d where d: "usb = Some d" using env(2) usb by (auto simp: serves_def split: option.splits)
  have ok: "net_fns env" "ne_grow env" "usb_env_ok uenv" using env(1) by (simp_all add: sys_env_ok_def)
  have "hosts env (foreign uarg) uarg xs (args d) s"
    unfolding hosts_def using env usb w rep d
    by (intro conjI exI [of _ cs] exI [of _ xs]) (auto simp: serves_def sys_env_ok_def)
  with usb d have "driving env self uarg xs (d, s)" by (auto simp: driving_def serves_def)
  then have "driving env self uarg xs (d\<lparr>d_lib := snd (pe (d_lib d))\<rparr>, s)" by (rule driving_lib)
  from handle_events_driving [OF this ok(3,1,2), of "fst (pe (d_lib d))"] env(1) obtain d' s' where
    r: "handle_events env uenv uarg (fst (pe (d_lib d))) (d\<lparr>d_lib := snd (pe (d_lib d))\<rparr>, s) = Some (d', s')"
      "driving env self uarg xs (d', s')"
    by (auto simp: sys_env_ok_def)
  from r(2) obtain cs' ys where "net_rep env (foreign uarg) s' cs' ys" "quiet xs ys" "wiring uarg s'"
      "serves uenv self uarg (set cs') (Some d')"
    using ok(3) by (auto simp: driving_def hosts_def serves_def)
  moreover have "usbdali_dispatch_ready env uenv pe uarg arg (s, usb) = Some (s', Some d')"
    using r(1) d Some by (simp add: usbdali_dispatch_ready_def case_prod_beta Let_def)
  ultimately show ?thesis by blast
qed

lemma sys_ready:
  assumes inv: "sys_inv env uenv pe self uarg ts" and t: "disp_rep (fst ts) xs" and x: "x \<in> set xs"
    and f: "e_readyfn (snd x) = Some f"
  shows "handled (sys_inv env uenv pe self uarg) xs (call_ready env uenv pe uarg ipc f (e_arg (snd x)) ts)"
proof -
  obtain t0 s usb where ts: "ts = (t0, s, usb)" by (metis prod.exhaust)
  let ?s = "s\<lparr>s_dispatch := Some t0\<rparr>"
  from inv ts obtain cs xs' where i: "sys_env_ok env uenv pe uarg" "wiring uarg s"
      "net_rep env (foreign uarg) ?s cs xs'" "serves uenv self uarg (set cs) usb" by (auto simp: sys_inv_def)
  have "xs' = xs" using i(3) t ts disp_rep_unique by (auto simp: net_rep_def)
  note rep = i(3) [unfolded this]
  have w: "wiring uarg ?s" using i(2) by (simp add: wiring_def)
  have ok: "net_fns env" "total_allocator (ne_malloc env)" "ne_grow env" "read_ok env" "usb_env_ok uenv"
    using i(1) by (simp_all add: sys_env_ok_def)
  have eok: "entries_ok env (foreign uarg) (s_conns s) xs" using rep by (simp add: net_rep_def)
  note fin = sys_handled [OF i(1)]
  have same: "handled (sys_inv env uenv pe self uarg) xs (do { (s, usb') \<leftarrow> Some (?s\<lparr>s_os := os\<rparr>, usb); t \<leftarrow> s_dispatch s; Some (t, s, usb') })" for os
    by (rule fin [OF refl, where cs = cs and ys = xs]) (use rep w i(4) in \<open>simp_all add: wiring_def\<close>)
  note same' = same [of "s_os s", simplified]
  show ?thesis
  proof (cases "e_readyfn (snd x) = Some (ne_ready env) \<or> e_errorfn (snd x) = Some (ne_error env)")
    case True
    with eok x obtain a c where a: "e_arg (snd x) = Some a" "s_conns s a = Some c" "e_readyfn (snd x) = Some (ne_ready env)"
      by (rule entries_okE)
    have f': "f = F_connection_ready" using a(3) f ok(1) by (simp add: net_fns_def)
    have "a \<in> set cs" using rep a(2) by (auto simp: net_rep_def)
    from ns.ready_ok [OF rep this i(4) ok(4)] w obtain s' usb' cs' ys where
      r: "connection_ready env (call_recv env uenv) call_destroy (Some a) (?s, usb) = Some (s', usb')"
        "net_rep env (foreign uarg) s' cs' ys" "quiet xs ys" "sconf s' = sconf ?s" "serves uenv self uarg (set cs') usb'"
      by (auto simp: wiring_def DEFAULT_NET_FRAMESIZE_def)
    from fin [OF r(1-3) _ r(5)] wiring_sconf [OF r(4)] w show ?thesis
      by (simp add: call_ready_def ts f' a(1) case_prod_beta' Let_def)
  next
    case False
    have "foreign uarg (Some f) (e_errorfn (snd x))" using entries_ok_other [OF eok x False] f by simp
    then consider "f = F_server_listener_ready" | "f = F_usbdali_dispatch_ready" "uarg \<noteq> None" | "f = F_ipc_read_zero"
      by (cases "(uarg, Some f, e_errorfn (snd x))" rule: foreign.cases) auto
    then show ?thesis
    proof cases
      case 1
      have "fst (fst (ne_accept env (s_listener ?s) (s_os ?s))) \<ge> -1" using i(1) by (simp add: sys_env_ok_def)
      from sc.listener_ok [OF rep ok(2,3) i(4) this] obtain s' cs' ys where
        r: "server_listener_ready env ?s = Some s'" "net_rep env (foreign uarg) s' cs' ys" "quiet xs ys" "sconf s' = sconf ?s"
          "serves uenv self uarg (set cs') usb" by blast
      have "map_option (\<lambda>s. (s, usb)) (server_listener_ready env ?s) = Some (s', usb)" using r(1) by simp
      from fin [OF this r(2,3) _ r(5)] wiring_sconf [OF r(4)] w same' show ?thesis
        by (simp add: call_ready_def ts 1 Let_def)
    next
      case 2
      from dispatch_ready_ok [OF i(1) 2(2) w rep i(4), of "e_arg (snd x)"] obtain s' usb' cs' ys where
        r: "usbdali_dispatch_ready env uenv pe uarg (e_arg (snd x)) (?s, usb) = Some (s', usb')"
          "net_rep env (foreign uarg) s' cs' ys" "quiet xs ys" "wiring uarg s'" "serves uenv self uarg (set cs') usb'" by blast
      from fin [OF r] show ?thesis by (simp add: call_ready_def ts 2 Let_def)
    next
      case 3
      from same [of "ipc_read_zero (ne_read env) ipc (s_os s)"] same' show ?thesis
        by (simp add: call_ready_def ts 3 Let_def)
    qed
  qed
qed

lemma sys_error:
  assumes inv: "sys_inv env uenv pe self uarg ts" and t: "disp_rep (fst ts) xs" and x: "x \<in> set xs"
    and f: "e_errorfn (snd x) = Some f"
  shows "handled (sys_inv env uenv pe self uarg) xs (call_error env err f (e_arg (snd x)) ts)"
proof -
  obtain t0 s usb where ts: "ts = (t0, s, usb)" by (metis prod.exhaust)
  let ?s = "s\<lparr>s_dispatch := Some t0\<rparr>"
  from inv ts obtain cs xs' where i: "sys_env_ok env uenv pe uarg" "wiring uarg s"
      "net_rep env (foreign uarg) ?s cs xs'" "serves uenv self uarg (set cs) usb" by (auto simp: sys_inv_def)
  have "xs' = xs" using i(3) t ts disp_rep_unique by (auto simp: net_rep_def)
  note rep = i(3) [unfolded this]
  have w: "wiring uarg ?s" using i(2) by (simp add: wiring_def)
  have ok: "net_fns env" using i(1) by (simp add: sys_env_ok_def)
  have eok: "entries_ok env (foreign uarg) (s_conns s) xs" using rep by (simp add: net_rep_def)
  show ?thesis
  proof (cases "e_readyfn (snd x) = Some (ne_ready env) \<or> e_errorfn (snd x) = Some (ne_error env)")
    case True
    with eok x obtain a c where a: "e_arg (snd x) = Some a" "s_conns s a = Some c" "e_errorfn (snd x) = Some (ne_error env)"
      by (rule entries_okE)
    have f': "f = F_connection_error" using a(3) f ok by (simp add: net_fns_def)
    have "a \<in> set cs" using rep a(2) by (auto simp: net_rep_def)
    from sc.error_ok [OF rep this wiringE [OF w] i(4), of err] obtain s' ys where
      r: "connection_error env call_destroy err (Some a) (?s, usb) = Some (s', forget a usb)"
        "net_rep env (foreign uarg) s' (remove1 a cs) ys" "quiet xs ys" "sconf s' = sconf ?s"
        "serves uenv self uarg (set (remove1 a cs)) (forget a usb)" by blast
    from sys_handled [OF i(1) r(1-3) _ r(5)] wiring_sconf [OF r(4)] w show ?thesis
      by (simp add: call_error_def ts f' a(1) Let_def)
  next
    case False
    have "foreign uarg (e_readyfn (snd x)) (Some f)" using entries_ok_other [OF eok x False] f by simp
    then have "f = F_server_listener_error \<or> f = F_usbdali_dispatch_error"
      by (cases "(uarg, e_readyfn (snd x), Some f)" rule: foreign.cases) auto
    with sys_handled [OF i(1) refl rep quiet_refl w i(4)] show ?thesis
      by (auto simp: call_error_def ts Let_def)
  qed
qed

lemma entries_ok_revents:
  "length rs = length xs \<Longrightarrow> entries_ok env other conns xs \<Longrightarrow>
    entries_ok env other conns (map2 (\<lambda>r x. (fst x\<lparr>p_revents := r\<rparr>, snd x)) rs xs)"
  unfolding entries_ok_def by (auto simp: set_zip) (metis nth_mem snd_conv fst_conv)+

interpretation sys: event_handlers "call_ready env uenv pe uarg ipc" "call_error env" "sys_inv env uenv pe self uarg"
    for env uenv pe uarg ipc self
proof unfold_locales
  fix t :: "fn Dispatch" and w :: "(fn, 'a) Server \<times> (fn, 'b) UsbDaliPtr" and rs :: "uint16 list"
  assume inv: "sys_inv env uenv pe self uarg (t, w)" and l: "length rs = t_numentries t"
  from inv obtain cs xs where i: "sys_env_ok env uenv pe uarg" "wiring uarg (fst w)"
      "net_rep env (foreign uarg) ((fst w)\<lparr>s_dispatch := Some t\<rparr>) cs xs" "serves uenv self uarg (set cs) (snd w)"
    by (auto simp: sys_inv_def)
  have t: "disp_rep t xs" "entries_ok env (foreign uarg) (s_conns (fst w)) xs" using i(3) by (auto simp: net_rep_def)
  have l': "length rs = length xs" using l disp_rep_num [OF t(1)] by simp
  have "net_rep env (foreign uarg) ((fst w)\<lparr>s_dispatch := Some (set_revents rs t)\<rparr>) cs
      (map2 (\<lambda>r x. (fst x\<lparr>p_revents := r\<rparr>, snd x)) rs xs)"
    using i(3) disp_rep_set_revents [OF t(1) l'] entries_ok_revents [OF l' t(2)] by (simp add: net_rep_def)
  with i show "sys_inv env uenv pe self uarg (set_revents rs t, w)" by (auto simp: sys_inv_def)
qed (use sys_ready sys_error in blast)+

end
