(* ===== verification/Options.thy ===== *)
theory Options
  imports C_Text Log
begin

text \<open>
  The command line of \<open>src/daliserver.c\<close>: \<open>parse_opt\<close>, \<open>split_usbdev\<close> and the options structure, with
  \<open>getopt\<close> as POSIX specifies it, where the options end at the first argument that is not one, or with \<open>gnu\<close> as the GNU C library has it,
  which goes on behind such an argument. The allocations of \<open>parse_opt\<close> are taken to succeed.
\<close>

section \<open>getopt\<close>

datatype getopt_result = Opt char string | Bad

text \<open>Which letters are options and whether they take an argument: the string \<open>"d:l:p:nsf:br:u:"\<close>.\<close>

fun opt_arg :: "char \<Rightarrow> string \<Rightarrow> bool option" where
  "opt_arg c [] = None"
| "opt_arg c (x # xs) =
     (if c = CHR '':'' then None
      else if x = c then Some (case xs of [] \<Rightarrow> False | y # ys \<Rightarrow> y = CHR '':'')
      else opt_arg c xs)"

text \<open>A dash among the letters of an argument is no option; only an argument of two dashes ends the options.\<close>

function getopt :: "bool \<Rightarrow> string \<Rightarrow> string list \<Rightarrow> getopt_result list" where
  "getopt gnu spec [] = []"
| "getopt gnu spec (arg # args) = (case arg of
     d # c # cs \<Rightarrow>
       if d \<noteq> CHR ''-'' then (if gnu then getopt gnu spec args else [])
       else if c = CHR ''-'' \<and> cs = [] then []
       else (case opt_arg c spec of
               None \<Rightarrow> [Bad]
             | Some False \<Rightarrow>
                 Opt c [] # (if cs = ''-'' then [Bad] else getopt gnu spec (if cs = [] then args else (d # cs) # args))
             | Some True \<Rightarrow>
                 if cs \<noteq> [] then Opt c cs # getopt gnu spec args
                 else (case args of [] \<Rightarrow> [Bad] | a # as \<Rightarrow> Opt c a # getopt gnu spec as))
   | _ \<Rightarrow> (if gnu then getopt gnu spec args else []))"
  by pat_completeness auto
termination
  by (relation "measure (\<lambda>(gnu, spec, args). length args + sum_list (map length args))") auto

section \<open>The options\<close>

definition DEFAULT_NET_PORT :: uint16 where "DEFAULT_NET_PORT = 55825"
definition DEFAULT_NET_ADDRESS :: string where "DEFAULT_NET_ADDRESS = ''127.0.0.1''"
definition DEFAULT_PID_FILE :: string where "DEFAULT_PID_FILE = ''/var/run/daliserver.pid''"

definition DEFAULT_LOG_LEVEL :: nat where "DEFAULT_LOG_LEVEL = LOG_LEVEL_INFO"

record Options =
  opt_port :: uint16
  opt_address :: string
  opt_loglevel :: nat
  opt_dryrun :: bool
  opt_syslog :: bool
  opt_logfile :: "string option"
  opt_background :: bool
  opt_pidfile :: "string option"
  opt_usbbus :: int
  opt_usbdev :: int

definition default_options :: Options where
  "default_options = \<lparr>opt_port = DEFAULT_NET_PORT, opt_address = DEFAULT_NET_ADDRESS, opt_loglevel = DEFAULT_LOG_LEVEL,
     opt_dryrun = False, opt_syslog = False, opt_logfile = None, opt_background = False, opt_pidfile = None,
     opt_usbbus = -1, opt_usbdev = -1\<rparr>"

text \<open>The two numbers are stored through pointers only when both are in range.\<close>

definition split_usbdev :: "string \<Rightarrow> (int \<times> int) option" where
  "split_usbdev arg = (case dropWhile (\<lambda>c. c \<noteq> CHR '':'') arg of
     [] \<Rightarrow> None
   | colon # rest \<Rightarrow>
     (let bus = strtol arg; dev = strtol rest
      in if bus \<ge> 0 \<and> bus \<le> INT_MAX \<and> dev \<ge> 0 \<and> dev \<le> INT_MAX then Some (bus, dev) else None))"

definition parse_level :: "string \<Rightarrow> nat option" where
  "parse_level s =
     (if s = ''fatal'' then Some LOG_LEVEL_FATAL
      else if s = ''error'' then Some LOG_LEVEL_ERROR
      else if s = ''warn'' then Some LOG_LEVEL_WARN
      else if s = ''info'' then Some LOG_LEVEL_INFO
      else if s = ''debug'' then Some LOG_LEVEL_DEBUG
      else None)"

text \<open>
  The \<open>switch\<close> of \<open>parse_opt\<close>; \<open>None\<close> stands for freeing the options and returning NULL. \<open>vsyslog\<close>: whether
  the program was built with it.
\<close>

definition parse_option :: "bool \<Rightarrow> char \<Rightarrow> string \<Rightarrow> Options \<Rightarrow> Options option" where
  "parse_option vsyslog c optarg opts =
     (if c = CHR ''d'' then map_option (\<lambda>l. opts\<lparr>opt_loglevel := l\<rparr>) (parse_level optarg)
      else if c = CHR ''l'' then Some (opts\<lparr>opt_address := optarg\<rparr>)
      else if c = CHR ''p'' then Some (opts\<lparr>opt_port := word_of_int (strtol optarg)\<rparr>)
      else if c = CHR ''n'' then Some (opts\<lparr>opt_dryrun := True\<rparr>)
      else if c = CHR ''s'' \<and> vsyslog then Some (opts\<lparr>opt_syslog := True\<rparr>)
      else if c = CHR ''f'' then Some (opts\<lparr>opt_logfile := Some optarg\<rparr>)
      else if c = CHR ''b'' then
        Some (opts\<lparr>opt_background := True,
          opt_pidfile := (if opt_pidfile opts = None then Some DEFAULT_PID_FILE else opt_pidfile opts)\<rparr>)
      else if c = CHR ''r'' then Some (opts\<lparr>opt_pidfile := Some optarg\<rparr>)
      else if c = CHR ''u'' then
        map_option (\<lambda>(bus, dev). opts\<lparr>opt_usbbus := bus, opt_usbdev := dev\<rparr>) (split_usbdev optarg)
      else None)"

fun parse_loop :: "bool \<Rightarrow> getopt_result list \<Rightarrow> Options \<Rightarrow> Options option" where
  "parse_loop vsyslog [] opts = Some opts"
| "parse_loop vsyslog (Opt c optarg # rs) opts = Option.bind (parse_option vsyslog c optarg opts) (parse_loop vsyslog rs)"
| "parse_loop vsyslog (Bad # rs) opts = None"

definition parse_opt :: "bool \<Rightarrow> bool \<Rightarrow> string list \<Rightarrow> Options option" where
  "parse_opt gnu vsyslog argv = parse_loop vsyslog (getopt gnu ''d:l:p:nsf:br:u:'' (tl argv)) default_options"

text \<open>The blocks that \<open>free_opt\<close> gives back: the address, the two paths if there are any, and the structure.\<close>

definition free_opt :: "Options option \<Rightarrow> nat" where
  "free_opt opts = (case opts of
     None \<Rightarrow> 0
   | Some opt \<Rightarrow> 1 + (if opt_logfile opt \<noteq> None then 1 else 0) + (if opt_pidfile opt \<noteq> None then 1 else 0) + 1)"

text \<open>The texts on the standard error stream, line by line; \<open>debug\<close> is \<open>log_debug_enabled()\<close>.\<close>

definition show_help :: "bool \<Rightarrow> bool \<Rightarrow> string list" where
  "show_help vsyslog debug =
     [''Usage: daliserver [-d <loglevel>] [-l <address>] [-p <port>] [-n]'', []] @
     (if debug then [''-d <loglevel> Set the logging level (fatal, error, warn, info, debug, default=info)'']
      else [''-d <loglevel> Set the logging level (fatal, error, warn, info, default=info)'']) @
     [''-l <address>  Set the IP address to listen on (default=127.0.0.1)'',
      ''-p <port>     Set the port to listen on (default=55825)'',
      ''-n            Enable dry-run mode for debugging (USB port won'' @ [CHR 0x27] @ ''t be opened)''] @
     (if vsyslog then [''-s            Enable syslog (errors only)''] else []) @
     (if debug then [''-f <logfile>  Write debug messages to logfile''] else [''-f <logfile>  Write info messages to logfile'']) @
     [''-b            Fork into background (implies -r)'',
      ''-r <file>     Save PID to file (default=/var/run/daliserver.pid)'',
      ''-u <bus:dev>  Only drive the USB device at bus:dev'', []]"

definition show_banner :: "string list" where
  "show_banner = [''DALI USB multiplexer (daliserver)'', ''Copyright (c) 2011 onitake All rights reserved.'', []]"

section \<open>Properties\<close>

text \<open>
  Property C26: a bus and a device number printed in decimal and joined by a colon are read back by
  \<open>split_usbdev\<close> when both fit into an \<open>int\<close>, and refused otherwise.
\<close>

theorem split_usbdev_decimal:
  "split_usbdev (dec bus @ '':'' @ dec dev) =
     (if int bus \<le> INT_MAX \<and> int dev \<le> INT_MAX then Some (int bus, int dev) else None)"
proof -
  have "dropWhile (\<lambda>c. c \<noteq> CHR '':'') (dec bus @ '':'' @ dec dev) = '':'' @ dec dev"
    using dec_no_colon [of bus] by (induction "dec bus") (auto simp: dropWhile_append)
  moreover have "strtol (dec bus @ '':'' @ dec dev) = min LONG_MAX (int bus)"
    by (rule strtol_dec) (simp add: ends_number_def)
  moreover have "strtol (dec dev) = min LONG_MAX (int dev)"
    using strtol_dec [of "[]" dev] by (simp add: ends_number_def)
  ultimately show ?thesis by (auto simp: split_usbdev_def INT_MAX_def LONG_MAX_def Let_def min_def)
qed

definition options_ok :: "Options \<Rightarrow> bool" where
  "options_ok opts \<longleftrightarrow> opt_loglevel opts \<le> LOG_LEVEL_DEBUG \<and>
     (opt_usbbus opts = -1 \<and> opt_usbdev opts = -1 \<or>
      0 \<le> opt_usbbus opts \<and> opt_usbbus opts \<le> INT_MAX \<and> 0 \<le> opt_usbdev opts \<and> opt_usbdev opts \<le> INT_MAX) \<and>
     (opt_background opts \<longrightarrow> opt_pidfile opts \<noteq> None)"

lemma parse_level_ok: "parse_level s = Some l \<Longrightarrow> l \<le> LOG_LEVEL_DEBUG"
  by (simp add: parse_level_def log_levels split: if_splits)

lemma split_usbdev_ok:
  "split_usbdev s = Some (bus, dev) \<Longrightarrow> 0 \<le> bus \<and> bus \<le> INT_MAX \<and> 0 \<le> dev \<and> dev \<le> INT_MAX"
  by (simp add: split_usbdev_def Let_def split: if_splits list.splits)

lemma parse_option_ok:
  assumes "options_ok opts" "parse_option vsyslog c optarg opts = Some opts'"
  shows "options_ok opts'"
  using assms parse_level_ok [of optarg] split_usbdev_ok [of optarg] unfolding parse_option_def
  by (auto simp: options_ok_def split: if_splits)

lemma parse_loop_ok: "parse_loop vsyslog rs opts = Some opts' \<Longrightarrow> options_ok opts \<Longrightarrow> options_ok opts'"
proof (induction vsyslog rs opts rule: parse_loop.induct)
  case (2 vsyslog c optarg rs opts)
  then obtain o1 where "parse_option vsyslog c optarg opts = Some o1" "parse_loop vsyslog rs o1 = Some opts'"
    by (auto simp: bind_Some_iff)
  with 2 parse_option_ok show ?case by blast
qed auto

text \<open>
  Property C25: whatever the command line, options that are accepted are well-formed: the log level is one of
  the five levels, the device is either unspecified or given by two numbers of type \<open>int\<close>, and a server that goes
  into the background has a PID file.
\<close>

theorem parse_opt_well_formed:
  assumes "parse_opt gnu vsyslog argv = Some opts"
  shows "options_ok opts"
  using parse_loop_ok [OF assms [unfolded parse_opt_def]]
  by (simp add: options_ok_def default_options_def DEFAULT_LOG_LEVEL_def log_levels)

lemma parse_opt_demo:
  "parse_opt True True [''daliserver'', ''-nb'', ''-d'', ''debug'', ''-p0x1F90'', ''-u'', ''1:5''] =
     Some (default_options\<lparr>opt_dryrun := True, opt_background := True, opt_pidfile := Some DEFAULT_PID_FILE,
       opt_loglevel := 4, opt_port := 8080, opt_usbbus := 1, opt_usbdev := 5\<rparr>)"
  by (simp add: parse_opt_def parse_option_def parse_level_def split_usbdev_def strtol_def magnitude_def is_space_def
      digit_value_def log_levels default_options_def LONG_MAX_def INT_MAX_def)

theorem parse_opt_well_formed_witness:
  "options_ok (the (parse_opt True True [''daliserver'', ''-nb'', ''-d'', ''debug'', ''-p0x1F90'', ''-u'', ''1:5'']))"
  using parse_opt_well_formed [OF parse_opt_demo] parse_opt_demo by simp

lemma getopt_flag:
  assumes "opt_arg c spec = Some False"
  shows "cs \<noteq> [] \<Longrightarrow> cs \<noteq> ''-'' \<Longrightarrow> getopt gnu spec ((CHR ''-'' # c # cs) # args) = Opt c [] # getopt gnu spec ((CHR ''-'' # cs) # args)"
    and "c \<noteq> CHR ''-'' \<Longrightarrow> getopt gnu spec ([CHR ''-'', c] # args) = Opt c [] # getopt gnu spec args"
  using assms by (simp_all only: getopt.simps(2) list.case option.case bool.case if_True if_False refl simp_thms list.distinct)

text \<open>
  Also: flags may be written together. An argument that combines a flag with further letters means
  the same as the flag alone followed by an argument with the rest, unless that rest is itself a dash.
\<close>

theorem parse_opt_clusters:
  assumes "c \<in> set ''nsb''" and "cs \<noteq> []" and "cs \<noteq> ''-''"
  shows "parse_opt gnu vsyslog (prog # (CHR ''-'' # c # cs) # args) = parse_opt gnu vsyslog (prog # [CHR ''-'', c] # (CHR ''-'' # cs) # args)"
proof -
  have c: "opt_arg c ''d:l:p:nsf:br:u:'' = Some False" "c \<noteq> CHR ''-''" using assms(1) by auto
  show ?thesis unfolding parse_opt_def list.sel getopt_flag(1) [OF c(1) assms(2,3)] getopt_flag(2) [OF c] ..
qed

theorem parse_opt_clusters_witness:
  "parse_opt True True [''daliserver'', ''-nbd'', ''warn''] = parse_opt True True [''daliserver'', ''-n'', ''-bd'', ''warn'']"
  using parse_opt_clusters [of "CHR ''n''" "''bd''" True True "''daliserver''" "[''warn'']"] by simp

end
