(* ===== verification/Util.thy ===== *)
theory Util
  imports C_Text
begin

text \<open>
  The helpers of \<open>lib/util.c\<close>: the memory dump, and the double fork that puts the server into the background.
\<close>

section \<open>hexdump\<close>

text \<open>
  The output of \<open>hexdump\<close>. \<open>data\<close> is the object that the pointer leads to; reading behind it is undefined. Objects
  are smaller than the address space, so \<open>length + 15\<close> does not wrap around.
\<close>

definition dump_char :: "byte \<Rightarrow> string" where
  "dump_char character = (if character \<ge> 0x20 \<and> character \<le> 0x7e then [char_of (unat character)] else ''.'')"

definition columns :: "nat \<Rightarrow> nat \<Rightarrow> nat list" where
  "columns len line = filter (\<lambda>column. line * 16 + column < len) [0..<16]"

definition byte_at :: "byte list \<Rightarrow> nat \<Rightarrow> byte option" where
  "byte_at data i = (if i < length data then Some (data ! i) else None)"

text \<open>One line: the offset, then one loop that reads the bytes for the digits and one that reads them for the characters.\<close>

definition hexdump_line :: "byte list \<Rightarrow> nat \<Rightarrow> nat \<Rightarrow> string option" where
  "hexdump_line data len line = do {
     digits \<leftarrow> those (map (\<lambda>column. byte_at data (line * 16 + column)) (columns len line));
     chars \<leftarrow> those (map (\<lambda>column. byte_at data (line * 16 + column)) (columns len line));
     Some (''0x'' @ hex_pad 8 (line * 16) @ '' '' @ concat (map (\<lambda>b. hex_pad 2 (unat b) @ '' '') digits) @
       concat (map dump_char chars) @ [CHR 0x0A])
   }"

definition hexdump :: "byte list \<Rightarrow> nat \<Rightarrow> string option" where
  "hexdump data len = map_option concat (those (map (hexdump_line data len) [0..<(len + 15) div 16]))"

section \<open>daemonize\<close>

text \<open>
  \<open>daemonize\<close> runs in up to three processes. \<open>Parent\<close> is the process that was started, \<open>Child\<close> the first fork and
  \<open>Daemon\<close> the second; a process that is never created has no fate. A process leaves \<open>daemonize\<close> by returning from it or by
  \<open>exit\<close>, or it waits forever in \<open>read\<close>.
\<close>

datatype process = Parent | Child | Daemon

datatype fate = Returns | Exits int | Waits

text \<open>
  The state of a process that \<open>daemonize\<close> changes: the file mode mask, whether it leads or has joined a new session,
  the working directory and the three standard streams.
\<close>

record proc_state =
  p_umask0 :: bool
  p_session :: bool
  p_leader :: bool
  p_root :: bool
  p_null_io :: bool

definition proc_init :: proc_state where
  "proc_init = \<lparr>p_umask0 = False, p_session = False, p_leader = False, p_root = False, p_null_io = False\<rparr>"

text \<open>The calls of \<open>write\<close> that tell the parent which step failed, or that all is done.\<close>

datatype daemon_note = Setsid_failed | Chdir_failed | Freopen_failed | Fork_failed | Open_failed | Lockf_failed | Fdopen_failed | Daemonized

text \<open>
  The answers of the system: the result of each call, whether the parent's \<open>read\<close> works, whether each of the bytes can be written to the
  pipe, the three calls of \<open>freopen\<close>, the daemon's process id and the old contents of the PID file.
\<close>

record daemon_answers =
  w_getppid :: int
  w_pipe :: int
  w_fork :: int
  w_read :: bool
  w_write :: "daemon_note \<Rightarrow> bool"
  w_setsid :: int
  w_chdir :: int
  w_stdin :: bool
  w_stdout :: bool
  w_stderr :: bool
  w_fork2 :: int
  w_open :: int
  w_lockf :: int
  w_fdopen :: bool
  w_pid :: nat
  w_contents :: string

text \<open>
  What is left behind: the fates, the state of the process that returns, the bytes in the pipe, and the PID file, if it
  was opened.
\<close>

record daemon_outcome =
  o_parent :: "fate option"
  o_child :: "fate option"
  o_daemon :: "fate option"
  o_state :: proc_state
  o_notes :: "byte list"
  o_pidfile :: "string option"

text \<open>
  \<open>fprintf\<close> through a descriptor that was opened without \<open>O_TRUNC\<close>: the file is overwritten from its start, and what
  is behind the new text stays.
\<close>

definition overwrite :: "string \<Rightarrow> string \<Rightarrow> string" where
  "overwrite new old = new @ drop (length new) old"

text \<open>The byte that a process writes to \<open>notefd[1]\<close> before it exits or returns.\<close>

definition sent :: "daemon_answers \<Rightarrow> daemon_note \<Rightarrow> byte \<Rightarrow> byte list" where
  "sent w c b = (if w_write w c then [b] else [])"

text \<open>The second fork, the daemon: its fate, the bytes it wrote and the PID file.\<close>

definition daemonize_daemon :: "daemon_answers \<Rightarrow> string option \<Rightarrow> fate \<times> byte list \<times> string option" where
  "daemonize_daemon w pidfile =
     (if pidfile \<noteq> None \<and> w_open w < 0 then (Exits 1, sent w Open_failed 2, None)
      else if pidfile \<noteq> None \<and> w_lockf w < 0 then (Exits 1, sent w Lockf_failed 2, Some (w_contents w))
      else if pidfile \<noteq> None \<and> \<not> w_fdopen w then (Exits 1, sent w Fdopen_failed 2, Some (w_contents w))
      else
        let file = (if pidfile \<noteq> None then Some (overwrite (dec (w_pid w) @ [CHR 0x0A]) (w_contents w)) else None)
        in if w_write w Daemonized then (Returns, sent w Daemonized 0, file) else (Exits 1, [], file))"

text \<open>The first fork: its fate, the daemon's, the state the daemon inherits, the bytes and the PID file.\<close>

definition daemonize_child :: "daemon_answers \<Rightarrow> string option \<Rightarrow>
    fate \<times> fate option \<times> proc_state \<times> byte list \<times> string option" where
  "daemonize_child w pidfile =
     (let st0 = proc_init\<lparr>p_umask0 := True\<rparr>
      in if w_setsid w < 0 then (Exits 1, None, st0, sent w Setsid_failed 2, None)
      else
        let st1 = st0\<lparr>p_session := True, p_leader := True\<rparr>
        in if w_chdir w < 0 then (Exits 1, None, st1, sent w Chdir_failed 2, None)
        else
          let st2 = st1\<lparr>p_root := True\<rparr>
          in if \<not> w_stdin w \<or> \<not> w_stdout w \<or> \<not> w_stderr w then (Exits 1, None, st2, sent w Freopen_failed 2, None)
          else
            let st3 = st2\<lparr>p_null_io := True\<rparr>
            in if w_fork2 w < 0 then (Exits 1, None, st3, sent w Fork_failed 2, None)
            else
              let (f, notes, file) = daemonize_daemon w pidfile
              in (Exits 0, Some f, st3\<lparr>p_leader := False\<rparr>, notes, file))"

text \<open>
  \<open>read(notefd[0], &retval, 1)\<close> in the parent: the first byte that any process wrote; without one, the end of the file once all
  write ends are closed, and otherwise it waits. \<open>writers\<close> are the processes that still hold the write end when every other process has
  run to its end.
\<close>

definition await :: "bool \<Rightarrow> process set \<Rightarrow> byte list \<Rightarrow> fate" where
  "await ok writers notes =
     (if \<not> ok then Exits 1
      else case notes of retval # _ \<Rightarrow> Exits (sint retval)
         | [] \<Rightarrow> if writers = {} then Exits 1 else Waits)"

text \<open>The parent does not close its own \<open>notefd[1]\<close>.\<close>

definition daemonize :: "daemon_answers \<Rightarrow> string option \<Rightarrow> daemon_outcome" where
  "daemonize w pidfile =
     (let alone = (\<lambda>f. \<lparr>o_parent = Some f, o_child = None, o_daemon = None, o_state = proc_init, o_notes = [], o_pidfile = None\<rparr>)
      in if w_getppid w = 1 then alone Returns
      else if w_pipe w < 0 then alone (Exits 1)
      else if w_fork w < 0 then alone (Exits 1)
      else
        let (child, daemon, st, notes, file) = daemonize_child w pidfile
        in \<lparr>o_parent = Some (await (w_read w) {Parent} notes), o_child = Some child, o_daemon = daemon, o_state = st,
            o_notes = notes, o_pidfile = file\<rparr>)"

text \<open>Whether a process returns from \<open>daemonize\<close>; it runs the rest of \<open>main\<close>.\<close>

definition continues :: "daemon_outcome \<Rightarrow> bool" where
  "continues r \<longleftrightarrow> o_parent r = Some Returns \<or> o_child r = Some Returns \<or> o_daemon r = Some Returns"

section \<open>Reading a dump\<close>

text \<open>The format of a dump, given by its reader: on every line, pairs of digits behind the offset.\<close>

fun split_lines :: "string \<Rightarrow> string \<Rightarrow> string list" where
  "split_lines acc [] = []"
| "split_lines acc (c # cs) = (if c = CHR 0x0A then rev acc # split_lines [] cs else split_lines (c # acc) cs)"

definition read_line :: "string \<Rightarrow> byte list" where
  "read_line l =
     (let rest = tl (dropWhile (\<lambda>c. c \<noteq> CHR '' '') l)
      in map (\<lambda>i. of_nat (16 * digit_value (rest ! (3 * i)) + digit_value (rest ! (3 * i + 1)))) [0..<length rest div 4])"

definition undump :: "string \<Rightarrow> byte list" where
  "undump s = concat (map read_line (split_lines [] s))"

definition chunk :: "nat \<Rightarrow> byte list \<Rightarrow> byte list" where
  "chunk line xs = take 16 (drop (16 * line) xs)"

lemma chunk_columns: "len \<le> length data \<Longrightarrow> map (\<lambda>c. data ! (line * 16 + c)) (columns len line) = chunk line (take len data)"
proof -
  assume len: "len \<le> length data"
  have "columns len line = [0..<min 16 (len - 16 * line)]"
  proof -
    have "filter (\<lambda>c. line * 16 + c < len) [0..<n] = [0..<min n (len - 16 * line)]" for n
    proof (induction n)
      case (Suc n)
      show ?case
      proof (cases "line * 16 + n < len")
        case True
        then have "min n (len - 16 * line) = n" "min (Suc n) (len - 16 * line) = Suc n" by linarith+
        with True Suc show ?thesis by simp
      next
        case False
        then have "min (Suc n) (len - 16 * line) = min n (len - 16 * line)" by linarith
        with False Suc show ?thesis by simp
      qed
    qed simp
    then show ?thesis by (simp add: columns_def)
  qed
  then show ?thesis using len by (intro nth_equalityI) (auto simp: chunk_def mult.commute)
qed

lemma concat_chunks: "concat (map (\<lambda>l. chunk l xs) [0..<n]) = take (16 * n) xs"
proof (induction n)
  case (Suc n)
  then show ?case by (simp add: chunk_def take_add [symmetric] add.commute)
qed simp

lemma split_lines_one: "CHR 0x0A \<notin> set l \<Longrightarrow> split_lines acc (l @ CHR 0x0A # rest) = (rev acc @ l) # split_lines [] rest"
  by (induction l arbitrary: acc) auto

lemma split_lines_concat:
  "\<forall>l\<in>set ls. CHR 0x0A \<notin> set l \<Longrightarrow> split_lines [] (concat (map (\<lambda>l. l @ [CHR 0x0A]) ls)) = ls"
  by (induction ls) (simp_all add: split_lines_one)

lemma byte_digits:
  "hex_pad 2 (unat (b :: byte)) = [hex_digit (unat b div 16), hex_digit (unat b mod 16)]"
  "unat b div 16 < 16" "unat b mod 16 < 16"
proof -
  have "unat b < 256" using unsigned_less [of b, where 'a = nat] by simp
  then show "hex_pad 2 (unat b) = [hex_digit (unat b div 16), hex_digit (unat b mod 16)]" "unat b div 16 < 16" "unat b mod 16 < 16"
    by (simp_all add: hex_pad_byte div_less_iff_less_mult)
qed

lemma dump_char_length [simp]: "length (dump_char b) = 1"
  by (simp add: dump_char_def)

lemma hex_part_length: "length (concat (map (\<lambda>b. hex_pad 2 (unat (b :: byte)) @ '' '') bs)) = 3 * length bs"
  by (induction bs) (simp_all add: byte_digits)

lemma char_part_length: "length (concat (map dump_char bs)) = length bs"
  by (induction bs) simp_all

lemma hex_part_nth:
  assumes "i < length bs"
  shows "(concat (map (\<lambda>b. hex_pad 2 (unat (b :: byte)) @ '' '') bs) @ r) ! (3 * i) = hex_digit (unat (bs ! i) div 16)"
    "(concat (map (\<lambda>b. hex_pad 2 (unat (b :: byte)) @ '' '') bs) @ r) ! (3 * i + 1) = hex_digit (unat (bs ! i) mod 16)"
  using assms
proof (induction bs arbitrary: i)
  case (Cons b bs)
  {
    case 1
    with Cons show ?case by (cases i) (simp_all add: byte_digits(1) nth_append)
  next
    case 2
    with Cons show ?case by (cases i) (simp_all add: byte_digits(1) nth_append)
  }
qed simp_all

lemma read_line_dump:
  assumes "CHR '' '' \<notin> set off"
  shows "read_line (off @ '' '' @ concat (map (\<lambda>b. hex_pad 2 (unat b) @ '' '') bs) @ concat (map dump_char bs)) = bs"
proof -
  let ?rest = "concat (map (\<lambda>b. hex_pad 2 (unat b) @ '' '') bs) @ concat (map dump_char bs)"
  have "dropWhile (\<lambda>c. c \<noteq> CHR '' '') (off @ '' '' @ ?rest) = '' '' @ ?rest"
    using assms by (induction off) auto
  moreover have "length ?rest div 4 = length bs" by (simp add: hex_part_length char_part_length)
  moreover have "of_nat (16 * digit_value (?rest ! (3 * i)) + digit_value (?rest ! (3 * i + 1))) = bs ! i" if "i < length bs" for i
  proof -
    have "16 * digit_value (?rest ! (3 * i)) + digit_value (?rest ! (3 * i + 1)) = unat (bs ! i)"
      unfolding hex_part_nth [OF that] digit_value_hex [OF byte_digits(2)] digit_value_hex [OF byte_digits(3)]
      by (rule mult_div_mod_eq)
    then show ?thesis by (simp only: of_nat_unat ucast_id)
  qed
  ultimately show ?thesis unfolding read_line_def Let_def by (intro nth_equalityI) simp_all
qed

lemma code_hex_digit: "k < 16 \<Longrightarrow> 48 \<le> code (hex_digit k)"
  by (simp add: hex_digit_def)

lemma code_hex: "c \<in> set (hex n) \<Longrightarrow> 48 \<le> code c"
proof (induction n rule: hex.induct)
  case (1 n)
  show ?case
  proof (cases "n < 16")
    case True
    with 1(2) code_hex_digit [of n] show ?thesis by (simp add: hex.simps [of n])
  next
    case False
    with 1 code_hex_digit [of "n mod 16"] show ?thesis by (auto simp: hex.simps [of n])
  qed
qed

lemma code_hex_pad: "c \<in> set (hex_pad w n) \<Longrightarrow> 48 \<le> code c"
  using code_hex [of c n] by (auto simp: hex_pad_def)

lemma code_dump_char: "c \<in> set (dump_char b) \<Longrightarrow> 32 \<le> code c"
proof (cases "b \<ge> 0x20 \<and> b \<le> 0x7e")
  case True
  moreover assume "c \<in> set (dump_char b)"
  ultimately have "c = char_of (unat b)" "32 \<le> unat b" "unat b \<le> 126"
    by (simp_all add: dump_char_def word_le_nat_alt)
  then show ?thesis by simp
qed (auto simp: dump_char_def)

lemma those_eq_None: "those xs = None \<longleftrightarrow> None \<in> set xs"
  by (induction xs) (auto split: option.splits)

lemma those_map: "(\<And>x. x \<in> set xs \<Longrightarrow> f x = Some (g x)) \<Longrightarrow> those (map f xs) = Some (map g xs)"
  by (induction xs) simp_all

lemma hexdump_line_eq:
  assumes "len \<le> length data"
  shows "\<exists>l. hexdump_line data len line = Some (l @ [CHR 0x0A]) \<and> CHR 0x0A \<notin> set l \<and> read_line l = chunk line (take len data)"
proof -
  let ?off = "''0x'' @ hex_pad 8 (line * 16)" and ?bs = "chunk line (take len data)"
  let ?l = "?off @ '' '' @ concat (map (\<lambda>b. hex_pad 2 (unat b) @ '' '') ?bs) @ concat (map dump_char ?bs)"
  have "those (map (\<lambda>column. byte_at data (line * 16 + column)) (columns len line)) =
      Some (map (\<lambda>column. data ! (line * 16 + column)) (columns len line))"
    using assms by (intro those_map) (auto simp: byte_at_def columns_def)
  then have "hexdump_line data len line = Some (?l @ [CHR 0x0A])"
    unfolding hexdump_line_def chunk_columns [OF assms, symmetric] by simp
  moreover have "32 \<le> code c" if "c \<in> set ?l" for c
    using that by (auto dest!: code_hex_pad code_dump_char split: if_splits)
  then have "CHR 0x0A \<notin> set ?l" by fastforce
  moreover have "CHR '' '' \<notin> set ?off" using code_hex_pad [of "CHR '' ''" 8 "line * 16"] by auto
  then have "read_line ?l = ?bs" by (rule read_line_dump)
  ultimately show ?thesis by blast
qed

text \<open>A dump of more bytes than there are reads behind the data in its last line.\<close>

lemma hexdump_beyond:
  assumes "length data < len"
  shows "hexdump data len = None"
proof -
  let ?line = "(len - 1) div 16" and ?column = "(len - 1) mod 16"
  have i: "?line * 16 + ?column = len - 1" by simp
  with assms have "?column \<in> set (columns len ?line)" by (simp add: columns_def)
  moreover have "byte_at data (?line * 16 + ?column) = None" using assms i by (simp add: byte_at_def)
  ultimately have "hexdump_line data len ?line = None"
    using those_eq_None [of "map (\<lambda>column. byte_at data (?line * 16 + column)) (columns len ?line)"]
    by (force simp: hexdump_line_def image_iff)
  moreover have "?line < (len + 15) div 16" using assms by linarith
  ultimately have "None \<in> set (map (hexdump_line data len) [0..<(len + 15) div 16])" by (force simp: image_iff)
  then show ?thesis by (simp only: hexdump_def those_eq_None [symmetric] option.map)
qed

lemma hexdump_undump:
  "map_option undump (hexdump data len) = (if len \<le> length data then Some (take len data) else None)"
proof (cases "len \<le> length data")
  case True
  obtain f where f: "\<And>line. hexdump_line data len line = Some (f line @ [CHR 0x0A])" "\<And>line. CHR 0x0A \<notin> set (f line)"
      "\<And>line. read_line (f line) = chunk line (take len data)"
    using hexdump_line_eq [OF True] by metis
  have "those (map (hexdump_line data len) [0..<n]) = Some (map (\<lambda>line. f line @ [CHR 0x0A]) [0..<n])" for n
    by (rule those_map) (simp add: f)
  moreover have "undump (concat (map (\<lambda>line. f line @ [CHR 0x0A]) [0..<n])) = take (16 * n) (take len data)" for n
    using split_lines_concat [of "map f [0..<n]"] f concat_chunks [of "take len data" n]
    by (simp add: undump_def comp_def)
  moreover have "len \<le> 16 * ((len + 15) div 16)" by linarith
  ultimately show ?thesis using True by (simp add: hexdump_def)
qed (simp add: hexdump_beyond)

section \<open>Properties\<close>

text \<open>
  Property C29: a dump shows the data. Reading the digits of the dump gives back exactly the dumped bytes, for every length,
  and the only undefined dumps are those of more bytes than there are.
\<close>

theorem hexdump_roundtrip:
  "map_option undump (hexdump data len) = (if len \<le> length data then Some (take len data) else None)"
  by (rule hexdump_undump)

text \<open>
  Property C27: only a process that is fully detached returns as the daemon: it is in a new session that it does not lead, with
  the root as its directory, no standard streams and the mask cleared. The process in between has
  exited with code 0, the parent with the code 0 unless it could not read, and the PID file starts with the daemon's
  process id; the rest of a longer file that was there before stays behind it.
\<close>

theorem daemonize_detaches:
  assumes "o_daemon (daemonize w pidfile) = Some Returns"
  shows "o_state (daemonize w pidfile) = \<lparr>p_umask0 = True, p_session = True, p_leader = False, p_root = True, p_null_io = True\<rparr> \<and>
    o_child (daemonize w pidfile) = Some (Exits 0) \<and>
    o_parent (daemonize w pidfile) = Some (Exits (if w_read w then 0 else 1)) \<and>
    o_pidfile (daemonize w pidfile) = map_option (\<lambda>path. (dec (w_pid w) @ [CHR 0x0A]) @
      drop (length (dec (w_pid w)) + 1) (w_contents w)) pidfile"
proof -
  have ok: "w_getppid w \<noteq> 1" "\<not> w_pipe w < 0" "\<not> w_fork w < 0" "\<not> w_setsid w < 0" "\<not> w_chdir w < 0" "w_stdin w" "w_stdout w" "w_stderr w"
      "\<not> w_fork2 w < 0" "fst (daemonize_daemon w pidfile) = Returns"
    using assms by (auto simp: daemonize_def daemonize_child_def Let_def split: if_splits prod.splits)
  from ok(10) have "w_write w Daemonized" "pidfile = None \<or> \<not> w_open w < 0 \<and> \<not> w_lockf w < 0 \<and> w_fdopen w"
    by (auto simp: daemonize_daemon_def Let_def split: if_splits)
  then have d: "daemonize_daemon w pidfile =
      (Returns, [0], map_option (\<lambda>path. overwrite (dec (w_pid w) @ [CHR 0x0A]) (w_contents w)) pidfile)"
    by (auto simp: daemonize_daemon_def sent_def)
  show ?thesis
    using ok(1-9) d by (simp add: daemonize_def daemonize_child_def proc_init_def await_def overwrite_def Let_def)
qed

definition demo_daemon :: daemon_answers where
  "demo_daemon = \<lparr>w_getppid = 700, w_pipe = 0, w_fork = 0, w_read = True, w_write = \<lambda>c. True, w_setsid = 0, w_chdir = 0,
     w_stdin = True, w_stdout = True, w_stderr = True, w_fork2 = 0, w_open = 3, w_lockf = 0, w_fdopen = True, w_pid = 42,
     w_contents = ''12345'' @ [CHR 0x0A]\<rparr>"

lemmas daemonize_defs = daemonize_def daemonize_child_def daemonize_daemon_def demo_daemon_def sent_def await_def

theorem daemonize_detaches_witness:
  "o_pidfile (daemonize demo_daemon (Some ''pid'')) = Some (''42'' @ [CHR 0x0A] @ ''45'' @ [CHR 0x0A])"
proof -
  have "o_daemon (daemonize demo_daemon (Some ''pid'')) = Some Returns" by (simp add: daemonize_defs Let_def)
  from daemonize_detaches [OF this] have "o_pidfile (daemonize demo_daemon (Some ''pid'')) =
      Some (dec 42 @ [CHR 0x0A] @ ''45'' @ [CHR 0x0A])" by (simp add: demo_daemon_def dec.simps)
  moreover have "char_of (of_char (CHR ''4'') :: nat) = CHR ''4''" "char_of (of_char (CHR ''2'') :: nat) = CHR ''2''"
    by (rule char_of_char)+
  then have "dec 42 = ''42''" by (simp add: dec.simps)
  ultimately show ?thesis by simp
qed

text \<open>
  Property C28: what the parent tells its caller, in every case. A process started by init returns at once. Otherwise the parent exits with 1 if
  it gets no pipe, cannot fork or cannot read, even when the daemon then runs; with 0 exactly if the daemon returned and with 2 if a later
  step failed; and if the byte that carries the code could not be written it waits forever, since it holds the write end of the pipe itself, and
  no process runs on. A daemon returns exactly if every step up to the last write succeeds.
\<close>

theorem daemonize_parent_status:
  "o_parent (daemonize w pidfile) = Some
     (if w_getppid w = 1 then Returns
      else if w_pipe w < 0 \<or> w_fork w < 0 \<or> \<not> w_read w then Exits 1
      else if o_notes (daemonize w pidfile) = [] then Waits
      else if o_daemon (daemonize w pidfile) = Some Returns then Exits 0 else Exits 2) \<and>
   (o_daemon (daemonize w pidfile) = Some Returns \<longleftrightarrow>
      w_getppid w \<noteq> 1 \<and> 0 \<le> w_pipe w \<and> 0 \<le> w_fork w \<and> 0 \<le> w_setsid w \<and> 0 \<le> w_chdir w \<and> w_stdin w \<and> w_stdout w \<and> w_stderr w \<and>
      0 \<le> w_fork2 w \<and> (pidfile = None \<or> 0 \<le> w_open w \<and> 0 \<le> w_lockf w \<and> w_fdopen w) \<and> w_write w Daemonized) \<and>
   (continues (daemonize w pidfile) \<longleftrightarrow> w_getppid w = 1 \<or> o_daemon (daemonize w pidfile) = Some Returns) \<and>
   \<not> (o_parent (daemonize w pidfile) = Some Waits \<and> continues (daemonize w pidfile))"
proof -
  obtain f bytes pf where d: "daemonize_daemon w pidfile = (f, bytes, pf)" by (metis prod.exhaust)
  have f: "f = Returns \<longleftrightarrow> (pidfile = None \<or> 0 \<le> w_open w \<and> 0 \<le> w_lockf w \<and> w_fdopen w) \<and> w_write w Daemonized"
    "f = Returns \<or> f = Exits 1" "bytes = [] \<or> bytes = [if f = Returns then 0 else 2]" "f = Returns \<Longrightarrow> bytes \<noteq> []"
    using d by (auto simp: daemonize_daemon_def sent_def Let_def split: if_splits)
  obtain child daemon st ns pf' where c: "daemonize_child w pidfile = (child, daemon, st, ns, pf')" by (metis prod.exhaust)
  let ?steps = "0 \<le> w_setsid w \<and> 0 \<le> w_chdir w \<and> w_stdin w \<and> w_stdout w \<and> w_stderr w \<and> 0 \<le> w_fork2 w"
  have "daemon = Some f \<and> child = Exits 0 \<and> ns = bytes" if ?steps
    using c d that by (simp add: daemonize_child_def)
  moreover have "daemon = None \<and> child = Exits 1 \<and> (ns = [] \<or> ns = [2])" if "\<not> ?steps"
    using c that by (simp add: daemonize_child_def sent_def Let_def not_le split: if_splits)
  ultimately have n: "daemon = Some Returns \<longleftrightarrow> ?steps \<and> f = Returns" "child = Exits 0 \<or> child = Exits 1"
      "ns = [] \<or> ns = [if daemon = Some Returns then 0 else 2]" "daemon = Some Returns \<Longrightarrow> ns \<noteq> []"
    using f(2-4) by (cases ?steps; auto)+
  show ?thesis
  proof (cases "w_getppid w = 1 \<or> w_pipe w < 0 \<or> w_fork w < 0")
    case True
    then show ?thesis by (auto simp: daemonize_def continues_def Let_def)
  next
    case False
    then have r: "o_parent (daemonize w pidfile) = Some (await (w_read w) {Parent} ns)" "o_child (daemonize w pidfile) = Some child"
        "o_daemon (daemonize w pidfile) = daemon" "o_notes (daemonize w pidfile) = ns"
      using c by (simp_all add: daemonize_def)
    have a: "await (w_read w) {Parent} ns = (if \<not> w_read w then Exits 1 else if ns = [] then Waits else if daemon = Some Returns then Exits 0 else Exits 2)"
      using n(3) by (auto simp: await_def)
    have "continues (daemonize w pidfile) \<longleftrightarrow> daemon = Some Returns"
      using n(2) a by (auto simp: continues_def r split: if_splits)
    with False n(1,4) f(1) show ?thesis unfolding r a by auto
  qed
qed

theorem daemonize_parent_status_witness:
  "o_parent (daemonize (demo_daemon\<lparr>w_write := \<lambda>c. False\<rparr>) None) = Some Waits \<and>
   o_parent (daemonize (demo_daemon\<lparr>w_read := False\<rparr>) None) = Some (Exits 1) \<and>
   o_daemon (daemonize (demo_daemon\<lparr>w_read := False\<rparr>) None) = Some Returns"
  using daemonize_parent_status [of "demo_daemon\<lparr>w_write := \<lambda>c. False\<rparr>" None] daemonize_parent_status [of "demo_daemon\<lparr>w_read := False\<rparr>" None]
  by (simp add: daemonize_defs Let_def)

end
