(* ===== verification/Signals.thy ===== *)
theory Signals
  imports Ipc Log
begin

text \<open>
  The signal handler of \<open>src/daliserver.c\<close>. It reopens the log file on \<open>SIGHUP\<close>; on \<open>SIGTERM\<close> or \<open>SIGINT\<close> it clears
  \<open>running\<close>, which the event loop looks at, and when \<open>running\<close> was already cleared it kills the process.

  The static variables \<open>running\<close> and those of the logger are a record, with a flag for a process that was killed and the log
  output so far. \<open>'o\<close> is the state of the operating system, which \<open>ipc_notify\<close> writes to.
\<close>

section \<open>Data and operations\<close>

definition SIGHUP :: int where "SIGHUP = 1"
definition SIGINT :: int where "SIGINT = 2"
definition SIGTERM :: int where "SIGTERM = 15"

record server_process =
  pr_running :: bool
  pr_killed :: bool
  pr_log :: log_state
  pr_out :: log_output

text \<open>
  A signal comes with what the system answers while it is handled: which files can be opened, the time stamp of the
  messages, and the text of the message about a log file that cannot be opened.
\<close>

record signal_arrival =
  sa_sig :: int
  sa_fopen :: "string \<Rightarrow> bool"
  sa_date :: string
  sa_err :: string

text \<open>
  \<open>lmax\<close> and \<open>vsyslog\<close> are the settings of the build, and \<open>write\<close> is the system call. \<open>kill\<close> sends the process a signal that
  cannot be caught before it returns, so the call of \<open>ipc_notify\<close> behind it is not reached.
\<close>

definition signal_handler :: "nat \<Rightarrow> bool \<Rightarrow> (int \<Rightarrow> byte list \<Rightarrow> 'o \<Rightarrow> int \<times> 'o) \<Rightarrow> IpcPtr \<Rightarrow> signal_arrival \<Rightarrow>
    server_process \<times> 'o \<Rightarrow> server_process \<times> 'o" where
  "signal_handler lmax vsyslog write killsocket a po =
     (let p = fst po; date = sa_date a
      in if sa_sig a = SIGHUP then
           (let out = log_info lmax vsyslog date ''Signal received, reopening log file'' (pr_log p);
                (r, lg, out') = log_reopen_file lmax vsyslog (sa_fopen a) date (sa_err a) (pr_log p)
            in (p\<lparr>pr_log := lg, pr_out := pr_out p @ out @ out'\<rparr>, snd po))
         else if pr_running p then
           (p\<lparr>pr_running := False,
              pr_out := pr_out p @ log_info lmax vsyslog date ''Signal received, shutting down'' (pr_log p)\<rparr>,
            ipc_notify write killsocket (snd po))
         else
           (p\<lparr>pr_killed := True,
              pr_out := pr_out p @ log_fatal lmax vsyslog date ''Another signal received, killing process'' (pr_log p)\<rparr>,
            snd po))"

text \<open>Signals are handled one after the other, as long as the process is alive.\<close>

fun deliver_signals :: "nat \<Rightarrow> bool \<Rightarrow> (int \<Rightarrow> byte list \<Rightarrow> 'o \<Rightarrow> int \<times> 'o) \<Rightarrow> IpcPtr \<Rightarrow> signal_arrival list \<Rightarrow>
    server_process \<times> 'o \<Rightarrow> server_process \<times> 'o" where
  "deliver_signals lmax vsyslog write killsocket [] po = po"
| "deliver_signals lmax vsyslog write killsocket (a # sigs) po =
     (if pr_killed (fst po) then po
      else deliver_signals lmax vsyslog write killsocket sigs (signal_handler lmax vsyslog write killsocket a po))"

section \<open>What signals do\<close>

abbreviation stop_signals :: "signal_arrival list \<Rightarrow> signal_arrival list" where
  "stop_signals sigs \<equiv> filter (\<lambda>a. sa_sig a \<noteq> SIGHUP) sigs"

text \<open>The log file after a list of hangups: the last one decides.\<close>

definition reopened :: "signal_arrival list \<Rightarrow> log_state \<Rightarrow> string option" where
  "reopened sigs lg = (case filter (\<lambda>a. sa_sig a = SIGHUP) sigs of
     [] \<Rightarrow> lg_fp lg
   | hups \<Rightarrow> (case lg_logfile lg of None \<Rightarrow> None | Some path \<Rightarrow> if sa_fopen (last hups) path then Some path else None))"

lemma reopened_nil [simp]: "reopened [] lg = lg_fp lg"
  by (simp add: reopened_def)

lemma reopened_stop: "sa_sig a \<noteq> SIGHUP \<Longrightarrow> reopened (a # sigs) lg = reopened sigs lg"
  by (simp add: reopened_def)

lemma reopened_hup:
  "sa_sig a = SIGHUP \<Longrightarrow> log_reopen_file lmax vs (sa_fopen a) date err lg = (r, lg', out) \<Longrightarrow>
     reopened sigs lg' = reopened (a # sigs) lg"
  by (auto simp: reopened_def log_reopen_file_def Let_def split: list.splits option.splits if_splits)

lemma log_reopen_frame:
  "log_reopen_file lmax vs fopen date err lg = (r, lg', out) \<Longrightarrow> lg'\<lparr>lg_fp := fp\<rparr> = lg\<lparr>lg_fp := fp\<rparr>"
  by (auto simp: log_reopen_file_def Let_def split: option.splits if_splits)

lemma deliver_dead: "pr_killed (fst po) \<Longrightarrow> deliver_signals lmax vs write ipc sigs po = po"
  by (cases sigs) simp_all

text \<open>
  The effect on \<open>running\<close>, on the life of the process and on the notifier: it takes one stop signal to end the loop and
  another one to kill the process.
\<close>

lemma signals_fate:
  assumes "deliver_signals lmax vs write ipc sigs (p, os) = (p', os')" and "\<not> pr_killed p"
  shows "pr_running p' = (pr_running p \<and> stop_signals sigs = []) \<and>
    pr_killed p' = ((if pr_running p then 1 else 0) < length (stop_signals sigs)) \<and>
    os' = (if pr_running p \<and> stop_signals sigs \<noteq> [] then ipc_notify write ipc os else os)"
  using assms
proof (induction sigs arbitrary: p os)
  case (Cons a sigs)
  obtain p1 os1 where s: "signal_handler lmax vs write ipc a (p, os) = (p1, os1)" by fastforce
  show ?case
  proof (cases "pr_killed p1")
    case True
    with s Cons.prems(2) have "\<not> pr_running p" "sa_sig a \<noteq> SIGHUP" "\<not> pr_running p1" "os1 = os"
      by (auto simp: signal_handler_def Let_def split: if_splits prod.splits)
    with True s Cons.prems show ?thesis by (auto simp: deliver_dead)
  next
    case False
    have "pr_running p1 = (pr_running p \<and> sa_sig a = SIGHUP)"
        "os1 = (if pr_running p \<and> sa_sig a \<noteq> SIGHUP then ipc_notify write ipc os else os)" "sa_sig a = SIGHUP \<or> pr_running p"
      using False s Cons.prems(2) by (auto simp: signal_handler_def Let_def split: if_splits prod.splits)
    with Cons.IH [OF _ False, of os1] s Cons.prems show ?thesis by (auto split: if_splits)
  qed
qed simp

lemma deliver_log:
  assumes "\<not> pr_killed (fst (deliver_signals lmax vs write ipc sigs (p, os)))"
  shows "pr_log (fst (deliver_signals lmax vs write ipc sigs (p, os))) = (pr_log p)\<lparr>lg_fp := reopened sigs (pr_log p)\<rparr>"
  using assms
proof (induction sigs arbitrary: p os)
  case (Cons a sigs)
  obtain p1 os1 where s: "signal_handler lmax vs write ipc a (p, os) = (p1, os1)" by fastforce
  have dead: "\<not> pr_killed p" "\<not> pr_killed p1" using Cons.prems s by (auto simp: deliver_dead split: if_splits)
  have "(pr_log p1)\<lparr>lg_fp := reopened sigs (pr_log p1)\<rparr> = (pr_log p)\<lparr>lg_fp := reopened (a # sigs) (pr_log p)\<rparr>"
  proof (cases "sa_sig a = SIGHUP")
    case True
    obtain r lg out where l: "log_reopen_file lmax vs (sa_fopen a) (sa_date a) (sa_err a) (pr_log p) = (r, lg, out)" by (metis prod.exhaust)
    with True s have "pr_log p1 = lg" by (auto simp: signal_handler_def Let_def)
    with reopened_hup [OF True l] log_reopen_frame [OF l] show ?thesis by simp
  next
    case False
    then show ?thesis using s by (auto simp: signal_handler_def Let_def reopened_stop split: if_splits)
  qed
  with Cons.IH [of p1 os1] Cons.prems dead s show ?case by simp
qed simp

section \<open>Properties\<close>

text \<open>
  Property C37: what the signals that a living process gets amount to, in any number and order. It runs on exactly if it ran and none
  of them was a stop signal; it is killed exactly if one stop signal came after \<open>running\<close> was cleared. The notifier is written to
  once, however many signals come. The log file is the configured one, reopened by the last \<open>SIGHUP\<close> if there was one and closed
  if that failed, and no other setting of the logger changes.
\<close>

theorem signals_handled:
  assumes "deliver_signals lmax vs write ipc sigs (p, os) = (p', os')" and "\<not> pr_killed p"
  shows "pr_running p' = (pr_running p \<and> stop_signals sigs = []) \<and>
    pr_killed p' = ((if pr_running p then 1 else 0) < length (stop_signals sigs)) \<and>
    os' = (if pr_running p \<and> stop_signals sigs \<noteq> [] then ipc_notify write ipc os else os) \<and>
    (\<not> pr_killed p' \<longrightarrow> pr_log p' = (pr_log p)\<lparr>lg_fp := reopened sigs (pr_log p)\<rparr>)"
proof -
  have "\<not> pr_killed p' \<longrightarrow> pr_log p' = (pr_log p)\<lparr>lg_fp := reopened sigs (pr_log p)\<rparr>"
    using deliver_log assms(1) by (metis fst_conv)
  with signals_fate [OF assms] show ?thesis by simp
qed

definition demo_signal :: "int \<Rightarrow> signal_arrival" where
  "demo_signal n = \<lparr>sa_sig = n, sa_fopen = \<lambda>path. True, sa_date = [], sa_err = []\<rparr>"

definition demo_process :: server_process where
  "demo_process = \<lparr>pr_running = True, pr_killed = False, pr_log = (log_init 3)\<lparr>lg_logfile := Some ''log''\<rparr>, pr_out = []\<rparr>"

theorem signals_handled_witness:
  "\<exists>p os. deliver_signals 3 True pipe_write (ipc_new True (0, 3, 4)) (map demo_signal [SIGHUP, SIGTERM]) (demo_process, \<lambda>fd. []) = (p, os) \<and>
     \<not> pr_running p \<and> \<not> pr_killed p \<and> lg_fp (pr_log p) = Some ''log''"
proof -
  obtain p os where d: "deliver_signals 3 True pipe_write (ipc_new True (0, 3, 4)) (map demo_signal [SIGHUP, SIGTERM])
      (demo_process, \<lambda>fd. []) = (p, os)" by fastforce
  from signals_handled [OF d] d show ?thesis
    by (simp add: demo_process_def demo_signal_def SIGHUP_def SIGTERM_def reopened_def log_init_def)
qed

end
