(* ===== verification/Main_Program.thy ===== *)
theory Main_Program
  imports Event_Loop Options Util Signals
begin

text \<open>
  \<open>main\<close> of \<open>src/daliserver.c\<close>: the components are opened, wired to each other, run until a signal
  arrives, and closed in the opposite order. \<open>main_completes\<close> puts the contracts of all components
  together: from the options to the exit code there is no undefined behaviour.
\<close>

section \<open>The event loop\<close>

text \<open>
  \<open>while (running && dispatch_run(dispatch, usbdali_get_timeout(usb)));\<close> Each element of the list is one round: the signals
  that arrive after \<open>running\<close> was looked at, and the answer of \<open>poll\<close>. A signal that arrives while the handlers of the round run has the
  same effect, since they do not look at \<open>running\<close> or at the log. The result says whether the loop was left; otherwise
  the process was killed, or it is still running when the list ends. \<open>DISPATCH_ERROR\<close> is 0.
\<close>

type_synonym poll_fn = "pollfd list \<Rightarrow> int \<Rightarrow> int \<times> uint16 list"

record main_round =
  rd_signals :: "signal_arrival list"
  rd_poll :: poll_fn

type_synonym ('o, 'u) main_state = "server_process \<times> fn DispatchPtr \<times> (fn, 'o) Server \<times> (fn, 'u) UsbDaliPtr"

fun main_loop :: "(fn, 'o) net_env \<Rightarrow> 'u usb_env \<Rightarrow> 'u libusb_events \<Rightarrow> ('u \<Rightarrow> int \<times> int \<times> int) \<Rightarrow> nat \<Rightarrow> bool \<Rightarrow> ptr \<Rightarrow> IpcPtr \<Rightarrow>
    main_round list \<Rightarrow> ('o, 'u) main_state \<Rightarrow> (bool \<times> ('o, 'u) main_state) option" where
  "main_loop env uenv pe next_timeout lmax vsyslog uarg ipc [] (p, t, s, usb) = Some (\<not> pr_running p, p, t, s, usb)"
| "main_loop env uenv pe next_timeout lmax vsyslog uarg ipc (r # rs) (p, t, s, usb) =
     (if \<not> pr_running p then Some (True, p, t, s, usb)
      else let (p1, os) = deliver_signals lmax vsyslog (ne_write env) ipc (rd_signals r) (p, s_os s)
           in if pr_killed p1 then Some (False, p1, t, s\<lparr>s_os := os\<rparr>, usb)
              else do {
                (status, t', su) \<leftarrow> dispatch_run (rd_poll r) (call_ready env uenv pe uarg ipc) (call_error env) t
                  (usbdali_get_timeout next_timeout usb) (s\<lparr>s_os := os\<rparr>, usb);
                if status = DISPATCH_ERROR then Some (True, p1, t', su)
                else main_loop env uenv pe next_timeout lmax vsyslog uarg ipc rs (p1, t', su)
              })"

section \<open>main\<close>

text \<open>
  The answers of the system to \<open>main\<close>: whether \<open>dispatch_new\<close> gets its memory, the results for
  \<open>usbdali_open\<close>, \<open>server_open\<close> and \<open>ipc_new\<close>, the rounds of the event loop, the signals that arrive after it, and the transfers that
  end while the driver is closed. The addresses of the three objects that are passed as arguments of
  callbacks are \<open>m_usb\<close>, \<open>m_server\<close> and \<open>m_ipc\<close>.
\<close>

record main_answers =
  m_dispatch :: bool
  m_answers :: usb_answers
  m_open :: open_results
  m_ipc_malloc :: bool
  m_socketpair :: "int \<times> int \<times> int"
  m_rounds :: "main_round list"
  m_late :: "signal_arrival list"
  m_closing :: "usb_event list"
  m_usb :: addr
  m_server :: addr
  m_ipc :: addr

text \<open>
  How a run of \<open>main\<close> ends: it returns a value, the process is killed by the second of two signals, it still serves when
  the list of rounds is used up, or all processes have ended in \<open>daemonize\<close>.
\<close>

datatype main_end = Returned int | Killed | Serving | Not_daemonized

text \<open>When the driver is closed the server is gone: a callback would use it after it was freed.\<close>

definition gone_req :: "(fn, 'u, unit) req_call" where
  "gone_req f err frame response status arg s = None"

definition gone_bcast :: "(fn, 'u, unit) bcast_call" where
  "gone_bcast f err frame status arg s = None"

definition close_usb :: "'u usb_env \<Rightarrow> usb_event list \<Rightarrow> bool \<Rightarrow> (fn, 'u) UsbDaliPtr \<Rightarrow> trace_item list option" where
  "close_usb uenv evs taken usb = map_option (\<lambda>(dali, w, tr). tr) (usbdali_close uenv gone_req gone_bcast evs True taken usb ())"

text \<open>From the opened server to \<open>server_close\<close>: the end, the process, the table, the system's state and the driver.\<close>

definition main_serve :: "(fn, 'o) net_env \<Rightarrow> 'u usb_env \<Rightarrow> 'u libusb_events \<Rightarrow> ('u \<Rightarrow> int \<times> int \<times> int) \<Rightarrow> nat \<Rightarrow> bool \<Rightarrow> main_answers \<Rightarrow>
    ptr \<Rightarrow> server_process \<Rightarrow> (fn, 'o) Server \<Rightarrow> (fn, 'u) UsbDaliPtr \<Rightarrow> (main_end \<times> server_process \<times> fn DispatchPtr \<times> 'o \<times> (fn, 'u) UsbDaliPtr) option" where
  "main_serve env uenv pe next_timeout lmax vsyslog m uarg p server usb0 = do {
     let s0 = server_set_connection_destroy_callback (Some F_net_dequeue_connection) uarg server;
     let usb = usbdali_set_inband_callback
       (usbdali_set_outband_callback usb0 (Some F_dali_outband_handler) (Some (m_server m))) (Some F_dali_inband_handler);
     (case ipc_new (m_ipc_malloc m) (m_socketpair m) of
        None \<Rightarrow> do {
          (t, os, usb') \<leftarrow> server_close env call_destroy (s0, usb);
          Some (Returned (-1), p, t, os, usb')
        }
      | Some i \<Rightarrow> do {
          (ipc, t0) \<leftarrow> ipc_register (ne_grow env) F_ipc_read_zero (m_ipc m) (Some i) (s_dispatch s0);
          (left, p1, t1, s1, usb1) \<leftarrow> main_loop env uenv pe next_timeout lmax vsyslog uarg ipc (m_rounds m)
            (p\<lparr>pr_running := True\<rparr>, t0, s0\<lparr>s_dispatch := t0\<rparr>, usb);
          if \<not> left then Some (if pr_killed p1 then Killed else Serving, p1, t1, s_os s1, usb1)
          else let (p2, os2) = deliver_signals lmax vsyslog (ne_write env) ipc (m_late m) (p1, s_os s1)
            in if pr_killed p2 then Some (Killed, p2, t1, os2, usb1)
            else do {
              (t2, os) \<leftarrow> ipc_free (ne_close env) ipc t1 os2;
              (t3, os', usb2) \<leftarrow> server_close env call_destroy (s1\<lparr>s_dispatch := t2, s_os := os\<rparr>, usb1);
              Some (Returned 0, p2, t3, os', usb2)
            }
        })
   }"

text \<open>
  From \<open>dispatch_new\<close> to the end: the part of \<open>main\<close> that runs in the server's process. Only a process that has left the event
  loop closes the driver.
\<close>

definition main_run :: "(fn, 'o) net_env \<Rightarrow> 'u usb_env \<Rightarrow> 'u libusb_events \<Rightarrow> ('u \<Rightarrow> int \<times> int \<times> int) \<Rightarrow> nat \<Rightarrow> bool \<Rightarrow> main_answers \<Rightarrow>
    Options \<Rightarrow> server_process \<Rightarrow> 'u \<Rightarrow> 'o \<Rightarrow> (main_end \<times> server_process \<times> fn DispatchPtr \<times> 'o \<times> trace_item list) option" where
  "main_run env uenv pe next_timeout lmax vsyslog m opts p u os =
     (case dispatch_new (m_dispatch m) of
        None \<Rightarrow> Some (Returned (-1), p, None, os, [])
      | Some d0 \<Rightarrow> do {
          (usb, t, tr) \<leftarrow> (if opt_dryrun opts then Some (None, Some d0, [])
            else usbdali_open uenv (\<lambda>fd events. usbdali_add_pollfd (ne_grow env) fd events (Some (m_usb m)))
              F_usbdali_transaction_free (m_answers m) False (Some d0) (opt_usbbus opts) (opt_usbdev opts) u);
          if opt_dryrun opts \<or> usb \<noteq> None then do {
            let uarg = (if usb = None then None else Some (m_usb m));
            (server, t1, os1) \<leftarrow> server_open env (m_open m) t (m_server m) DEFAULT_NET_FRAMESIZE
              (Some F_net_frame_handler) uarg os;
            (e, p', t2, os2, usb') \<leftarrow> (case server of
                None \<Rightarrow> Some (Returned (-1), p, t1, os1, usb)
              | Some s \<Rightarrow> main_serve env uenv pe next_timeout lmax vsyslog m uarg p s usb);
            if e = Killed \<or> e = Serving then Some (e, p', t2, os2, tr)
            else do {
              tr' \<leftarrow> close_usb uenv (m_closing m) (q_detach (m_answers m) = 0) usb';
              Some (e, p', t2, os2, tr @ tr')
            }
          }
          else Some (Returned (-1), p, t, os, tr)
        })"

text \<open>
  The log is set up from the options. \<open>l_max\<close> and \<open>l_vsyslog\<close> are the build's settings, \<open>l_gnu\<close> the kind of \<open>getopt\<close>, \<open>l_fopen\<close> and \<open>l_strdup\<close> the answers
  of the system, and \<open>l_date\<close> and \<open>l_err\<close> the texts of the message about a file that cannot be opened.
\<close>

record log_answers =
  l_max :: nat
  l_vsyslog :: bool
  l_gnu :: bool
  l_fopen :: "string \<Rightarrow> bool"
  l_strdup :: bool
  l_date :: string
  l_err :: string

definition main_log :: "log_answers \<Rightarrow> Options \<Rightarrow> log_state \<Rightarrow> log_state" where
  "main_log l opts st0 =
     (let st1 = log_set_level (l_max l) (opt_loglevel opts) st0;
          st2 = (case opt_logfile opts of
              None \<Rightarrow> st1
            | Some path \<Rightarrow>
              (case log_set_logfile (l_max l) (l_vsyslog l) (l_fopen l) (l_strdup l) (l_date l) (l_err l) (Some path) st1 of
                 (r, st, out) \<Rightarrow> log_set_logfile_level (l_max l) (l_max l) st))
      in if l_vsyslog l \<and> opt_syslog opts then log_set_syslog (Some ''daliserver'') st2 else st2)"

text \<open>
  The whole of \<open>main\<close>. \<open>mr_stderr\<close> are the help text and the banner, and \<open>mr_process\<close> the logger and the messages of the signal handler at the end;
  \<open>mr_table\<close> is the dispatch table at the end, and \<open>mr_freed\<close> the number of blocks freed with it and with the options.
\<close>

record 'o main_result =
  mr_end :: main_end
  mr_stderr :: "string list"
  mr_process :: server_process
  mr_table :: "fn DispatchPtr"
  mr_freed :: nat
  mr_os :: 'o
  mr_trace :: "trace_item list"

definition main_prog :: "(fn, 'o) net_env \<Rightarrow> 'u usb_env \<Rightarrow> 'u libusb_events \<Rightarrow> ('u \<Rightarrow> int \<times> int \<times> int) \<Rightarrow> main_answers \<Rightarrow>
    log_answers \<Rightarrow> daemon_answers \<Rightarrow> string list \<Rightarrow> 'u \<Rightarrow> 'o \<Rightarrow> 'o main_result option" where
  "main_prog env uenv pe next_timeout m l w argv u os =
     (let p0 = \<lparr>pr_running = False, pr_killed = False, pr_log = log_init (l_max l), pr_out = []\<rparr>
      in case parse_opt (l_gnu l) (l_vsyslog l) argv of
           None \<Rightarrow> Some \<lparr>mr_end = Returned (-1),
             mr_stderr = show_banner @ show_help (l_vsyslog l) (log_debug_enabled (l_max l) (pr_log p0)),
             mr_process = p0, mr_table = None, mr_freed = 0, mr_os = os, mr_trace = []\<rparr>
         | Some opts \<Rightarrow>
           let p1 = p0\<lparr>pr_log := main_log l opts (pr_log p0)\<rparr>
           in if opt_background opts \<and> \<not> continues (daemonize w (opt_pidfile opts))
              then Some \<lparr>mr_end = Not_daemonized, mr_stderr = [], mr_process = p1, mr_table = None, mr_freed = 0, mr_os = os, mr_trace = []\<rparr>
              else do {
                (e, p2, t, os', tr) \<leftarrow> main_run env uenv pe next_timeout (l_max l) (l_vsyslog l) m opts p1 u os;
                Some \<lparr>mr_end = e, mr_stderr = (if opt_background opts then [] else show_banner), mr_process = p2, mr_table = t,
                  mr_freed = (if e = Killed \<or> e = Serving then 0 else dispatch_free t + free_opt (Some opts)), mr_os = os', mr_trace = tr\<rparr>
              })"

section \<open>The loop keeps the invariant\<close>

definition rounds_ok :: "main_round list \<Rightarrow> bool" where
  "rounds_ok rs \<longleftrightarrow> (\<forall>r\<in>set rs. \<forall>fds timeout. length (snd (rd_poll r fds timeout)) = length fds)"

text \<open>The number of stop signals in the first round that has one: none keeps the loop running, one ends it, and another one kills the process.\<close>

fun loop_stops :: "main_round list \<Rightarrow> nat" where
  "loop_stops [] = 0"
| "loop_stops (r # rs) = (if stop_signals (rd_signals r) = [] then loop_stops rs else length (stop_signals (rd_signals r)))"

lemma main_loop_stopped:
  "\<not> pr_running p \<Longrightarrow> main_loop env uenv pe next_timeout lmax vs uarg ipc rs (p, t, s, usb) = Some (True, p, t, s, usb)"
  by (cases rs) simp_all

lemma sys_inv_os: "sys_inv env uenv pe self uarg (t, s, usb) \<Longrightarrow> sys_inv env uenv pe self uarg (t, s\<lparr>s_os := os\<rparr>, usb)"
proof -
  have "net_rep env (foreign uarg) (s\<lparr>s_os := os, s_dispatch := Some t\<rparr>) cs xs \<longleftrightarrow> net_rep env (foreign uarg) (s\<lparr>s_dispatch := Some t\<rparr>) cs xs"
    for cs xs by (simp add: net_rep_def)
  then show "sys_inv env uenv pe self uarg (t, s, usb) \<Longrightarrow> sys_inv env uenv pe self uarg (t, s\<lparr>s_os := os\<rparr>, usb)"
    by (simp add: sys_inv_def wiring_def)
qed

lemma main_loop_inv:
  assumes "sys_inv env uenv pe self uarg (t, s, usb)" "disp_rep t xs" "rounds_ok rs" "pr_running p" "\<not> pr_killed p"
  shows "\<exists>p' t' s' usb' ys. main_loop env uenv pe next_timeout lmax vs uarg ipc rs (p, Some t, s, usb) =
      Some (loop_stops rs = 1, p', Some t', s', usb') \<and> sys_inv env uenv pe self uarg (t', s', usb') \<and> disp_rep t' ys \<and>
    pr_killed p' = (1 < loop_stops rs) \<and> pr_running p' = (loop_stops rs = 0)"
  using assms
proof (induction rs arbitrary: p t s usb xs)
  case (Cons r rs)
  obtain p1 os where d: "deliver_signals lmax vs (ne_write env) ipc (rd_signals r) (p, s_os s) = (p1, os)" by fastforce
  note sig = signals_fate [OF d Cons.prems(5)]
  note inv = sys_inv_os [OF Cons.prems(1), of os]
  show ?case
  proof (cases "pr_killed p1")
    case True
    with sig Cons.prems(2,4) d inv show ?thesis by (intro exI [of _ p1]) auto
  next
    case False
    from Cons.prems(3) have p: "\<And>fds timeout. length (snd (rd_poll r fds timeout)) = length fds" "rounds_ok rs"
      by (simp_all add: rounds_ok_def)
    from sys.run_ends [where poll = "rd_poll r" and timeout = "usbdali_get_timeout next_timeout usb" and ipc = ipc,
        OF inv Cons.prems(2) p(1)] obtain st t' s' usb' ys where
      r: "dispatch_run (rd_poll r) (call_ready env uenv pe uarg ipc) (call_error env) (Some t) (usbdali_get_timeout next_timeout usb)
          (s\<lparr>s_os := os\<rparr>, usb) = Some (st, Some t', s', usb')" "sys_inv env uenv pe self uarg (t', s', usb')" "disp_rep t' ys"
        "st \<in> {DISPATCH_TIMEOUT, DISPATCH_EVENT_HANDLED}" by (metis prod.exhaust)
    have step: "main_loop env uenv pe next_timeout lmax vs uarg ipc (r # rs) (p, Some t, s, usb) =
        main_loop env uenv pe next_timeout lmax vs uarg ipc rs (p1, Some t', s', usb')"
      using r(1,4) d False Cons.prems(4) by auto
    show ?thesis
    proof (cases "pr_running p1")
      case True
      with Cons.IH [OF r(2,3) p(2) True False] sig step show ?thesis by auto
    next
      case stop: False
      then have "length (stop_signals (rd_signals r)) = 1" using sig False Cons.prems(4) by (cases "stop_signals (rd_signals r)") auto
      then have one: "loop_stops (r # rs) = 1" by auto
      show ?thesis unfolding step one main_loop_stopped [OF stop] using r(2,3) False stop by auto
    qed
  qed
qed auto

section \<open>Starting up\<close>

definition foreign_table :: "(fn, 'o) net_env \<Rightarrow> ptr \<Rightarrow> fn Dispatch \<Rightarrow> bool" where
  "foreign_table env uarg t \<longleftrightarrow> (\<exists>xs. disp_rep t xs \<and> entries_ok env (foreign uarg) Map.empty xs)"

interpretation pt: pollfd_table "\<lambda>fd events. usbdali_add_pollfd True fd events (Some a)"
    "\<lambda>t. net_fns env \<and> foreign_table env (Some a) t" for a env
proof
  fix t fd events
  assume "net_fns env \<and> foreign_table env (Some a) t"
  then obtain xs where "disp_rep t xs" "entries_ok env (foreign (Some a)) Map.empty xs" "net_fns env"
    by (auto simp: foreign_table_def)
  from add_pollfd_table [OF this, of fd events] this(3)
  show "\<exists>t'. usbdali_add_pollfd True fd events (Some a) (Some t) = Some (Some t') \<and>
      net_fns env \<and> foreign_table env (Some a) t'"
    by (auto simp: foreign_table_def)
qed

lemma foreign_table_add:
  assumes "foreign_table env uarg t" "foreign uarg rf ef" "rf \<noteq> Some F_connection_ready" "ef \<noteq> Some F_connection_error" "net_fns env"
  shows "\<exists>t'. table_add True fd events rf ef arg (Some t) = Some (Some t') \<and> foreign_table env uarg t'"
proof (cases "fd < 0")
  case True
  with assms(1) show ?thesis by (simp add: table_add_negative)
next
  case False
  from assms(1) obtain xs where xs: "disp_rep t xs" "entries_ok env (foreign uarg) Map.empty xs" by (auto simp: foreign_table_def)
  let ?e = "new_entry fd events rf ef None arg"
  have "entries_ok env (foreign uarg) Map.empty [?e]" using assms(2-5) by (simp add: entries_ok_def new_entry_def net_fns_def)
  with xs(2) have "entries_ok env (foreign uarg) Map.empty (xs @ [?e])" by (simp add: entries_ok_append)
  with table_add_rep [OF xs(1), of fd events rf ef arg] False show ?thesis by (auto simp: foreign_table_def)
qed

definition server_ok :: "open_results \<Rightarrow> bool" where
  "server_ok r \<longleftrightarrow> r_malloc r \<and> r_socket r \<noteq> -1 \<and> r_setsockopt r = 0 \<and> r_pton r = 1 \<and> r_bind r = 0 \<and> r_listen r = 0"

lemma server_open_ok:
  assumes "foreign_table env uarg t" "net_fns env" "ne_grow env" "r_list r"
  shows "\<exists>server t1 os1. server_open env r (Some t) self n recvfn arg os = Some (server, Some t1, os1) \<and> foreign_table env uarg t1 \<and>
    (server \<noteq> None \<longleftrightarrow> server_ok r) \<and>
    (\<forall>s. server = Some s \<longrightarrow> s_dispatch s = Some t1 \<and> s_framesize s = n \<and> s_recvfn s = recvfn \<and> s_arg s = arg \<and>
       s_conns s = Map.empty \<and> list_holds (s_connections s) [] \<and> l_free (the (s_connections s)) = Some (ne_connection_free env))"
proof (cases "server_ok r")
  case False
  with assms(1) show ?thesis by (auto simp: server_open_def server_ok_def)
next
  case True
  have "ne_listener_ready env = F_server_listener_ready" "ne_listener_error env = F_server_listener_error"
    using assms(2) by (simp_all add: net_fns_def)
  with foreign_table_add [OF assms(1) _ _ _ assms(2), of "Some F_server_listener_ready" "Some F_server_listener_error"
      "r_socket r" POLLIN "Some self"]
  obtain t1 where "table_add True (r_socket r) POLLIN (Some (ne_listener_ready env)) (Some (ne_listener_error env)) (Some self) (Some t)
      = Some (Some t1)" "foreign_table env uarg t1" by auto
  with True assms(3,4) list_holds_new show ?thesis
    by (auto simp: server_open_def server_ok_def list_new_def)
qed

lemma net_rep_empty:
  assumes "s_dispatch s = Some t" "foreign_table env uarg t" "s_conns s = Map.empty" "list_holds (s_connections s) []"
    "l_free (the (s_connections s)) = Some (ne_connection_free env)"
  shows "\<exists>xs. net_rep env (foreign uarg) s [] xs"
  using assms by (auto simp: net_rep_def foreign_table_def)

section \<open>Shutting down\<close>

text \<open>After the server is closed, the driver can be closed: no transaction refers to a connection.\<close>

definition at_rest :: "(fn, 'u) UsbDaliPtr \<Rightarrow> bool" where
  "at_rest usb \<longleftrightarrow> (case usb of None \<Rightarrow> True | Some d \<Rightarrow> (\<exists>qs E. usb_rep d qs E) \<and>
     map_option l_free (d_queue d) = Some (Some F_usbdali_transaction_free) \<and> args d \<subseteq> {None})"

lemma serves_at_rest: "serves uenv self uarg {} usb \<Longrightarrow> at_rest usb"
  by (auto simp: serves_def at_rest_def hooked_def usb_sim_def split: option.splits)

lemma close_usb_ok:
  assumes "at_rest usb" "\<forall>ev\<in>set evs. cancelled ev"
  shows "\<exists>tr. close_usb uenv evs taken usb = Some tr"
proof (cases usb)
  case None
  then show ?thesis by (simp add: close_usb_def usbdali_close_def)
next
  case (Some d)
  with assms(1) obtain qs E where d: "usb_rep d qs E" "map_option l_free (d_queue d) = Some (Some F_usbdali_transaction_free)"
    by (auto simp: at_rest_def)
  obtain d5 where d5: "\<forall>evs w. usbdali_close uenv gone_req gone_bcast evs True taken (Some d) w =
      do { (d6, w') \<leftarrow> usb_run uenv gone_req gone_bcast evs (d5, w); Some (Some d6, w', close_trace True taken d6) }"
    "xfer_rep d5" "d_shutdown d5" "d_transactions d5 = Map.empty" "dom (d_frames d5) = E" "d_detached d5 = d_detached d"
    "d_transaction d5 = d_transaction d" "d_recv_transfer d5 = d_recv_transfer d" "d_transfers d5 = d_transfers d"
    by (rule close_runs [OF d, where env = uenv and call_req = gone_req and call_bcast = gone_bcast and fc = True and taken = taken])
  from cancelled_run [OF d5(2,3) assms(2), of uenv gone_req gone_bcast "()"] d5(1) Some show ?thesis
    by (auto simp: close_usb_def)
qed

lemma server_close_ok:
  assumes "net_rep env (foreign uarg) s cs xs" "wiring uarg s" "serves uenv self uarg (set cs) usb"
  shows "\<exists>t os usb'. server_close env call_destroy (s, usb) = Some (Some t, os, usb') \<and> foreign_table env uarg t \<and> at_rest usb'"
proof -
  from sc.close_ok [OF assms(1) wiringE [OF assms(2)] assms(3)] obtain t ys os where
    "server_close env call_destroy (s, usb) = Some (Some t, os, fold forget cs usb)" "disp_rep t ys"
    "entries_ok env (foreign uarg) Map.empty ys" "serves uenv self uarg {} (fold forget cs usb)" by blast
  then show ?thesis using serves_at_rest unfolding foreign_table_def by blast
qed

lemma ipc_register_ok:
  assumes "foreign_table env uarg t" "net_fns env" "\<not> i_dispatch i"
  shows "\<exists>i' t'. ipc_register True F_ipc_read_zero self (Some i) (Some t) = Some (Some i', Some t') \<and> foreign_table env uarg t'"
  using foreign_table_add [OF assms(1) _ _ _ assms(2), of "Some F_ipc_read_zero" None] assms(3)
  by (fastforce simp: ipc_register_def)

lemma ipc_free_ok:
  fixes env :: "(fn, 'o) net_env"
  assumes "net_rep env other (s\<lparr>s_dispatch := Some t\<rparr>) cs xs"
  shows "\<exists>t' os' ys. ipc_free close ipc (Some t) os = Some (Some t', os') \<and> net_rep env other (s\<lparr>s_dispatch := Some t'\<rparr>) cs ys"
proof -
  have t: "disp_rep t xs" "entries_ok env other (s_conns s) xs" using assms by (auto simp: net_rep_def)
  have "\<exists>t' ys. (if b then table_remove_fd fd (Some t) else Some (Some t)) = Some (Some t') \<and> disp_rep t' ys \<and>
      entries_ok env other (s_conns s) ys" for b fd
  proof (cases b)
    case True
    from remove_pollfd_table [OF t, of fd "Some 0"] True show ?thesis by (auto simp: usbdali_remove_pollfd_def)
  qed (use t in auto)
  note r = this
  show ?thesis
  proof (cases ipc)
    case None
    with assms show ?thesis by (auto simp: ipc_free_def)
  next
    case (Some i)
    from r [of "i_dispatch i" "ipc_read_socket (Some i)"] obtain t' ys where
      "(if i_dispatch i then table_remove_fd (ipc_read_socket (Some i)) (Some t) else Some (Some t)) = Some (Some t')"
      "disp_rep t' ys" "entries_ok env other (s_conns s) ys" by blast
    with Some assms show ?thesis by (auto simp: ipc_free_def net_rep_def)
  qed
qed

text \<open>A driver that was just opened, and the same with the two handlers installed.\<close>

definition fresh_usb :: "bool \<Rightarrow> (fn, 'u) UsbDaliPtr \<Rightarrow> bool" where
  "fresh_usb det usb \<longleftrightarrow> (\<forall>d. usb = Some d \<longrightarrow> usb_sim d sp_start {} \<and> busy d \<and>
     config d = (None, None, None, False, DEFAULT_QUEUESIZE, Some (Some F_usbdali_transaction_free), det))"

lemma callbacks_serve:
  assumes "usb_env_ok uenv" "fresh_usb det usb" "usb = None \<longleftrightarrow> uarg = None"
  shows "serves uenv self uarg {} (usbdali_set_inband_callback
    (usbdali_set_outband_callback usb (Some F_dali_outband_handler) (Some self)) (Some F_dali_inband_handler))"
proof (cases usb)
  case None
  with assms show ?thesis
    by (simp add: serves_def usbdali_set_inband_callback_def usbdali_set_outband_callback_def)
next
  case (Some d)
  let ?d = "d\<lparr>d_bcast_callback := Some F_dali_outband_handler, d_bcast_arg := Some self,
    d_req_callback := Some F_dali_inband_handler\<rparr>"
  have d: "uarg \<noteq> None" "usb_sim d sp_start {}" "busy d"
    "config d = (None, None, None, False, DEFAULT_QUEUESIZE, Some (Some F_usbdali_transaction_free), det)"
    using assms(2,3) Some by (auto simp: fresh_usb_def)
  have "usb_sim ?d sp_start {}"
    using d(2) by (simp add: usb_sim_def phase_of_def usb_rep_def usb_abs_def active_def xfer_rep_def)
  moreover from usb_sim_args [OF this] have "args ?d = {}" by (simp add: sp_start_def)
  moreover have "busy ?d" "hooked self ?d" using d(3,4) by (simp_all add: busy_def hooked_def wired_def config_def)
  ultimately show ?thesis
    using Some d(1) assms(1)
    by (auto simp: serves_def usbdali_set_inband_callback_def usbdali_set_outband_callback_def)
qed

text \<open>How a run ends that gets to the event loop.\<close>

definition main_fate :: "main_answers \<Rightarrow> main_end" where
  "main_fate m = (if loop_stops (m_rounds m) = 0 then Serving
     else if loop_stops (m_rounds m) = 1 \<and> stop_signals (m_late m) = [] then Returned 0 else Killed)"

lemma main_shutdown:
  assumes "sys_inv env uenv pe self uarg (t1, s1, usb1)"
  shows "\<exists>t2 os t3 os3 usb3. ipc_free (ne_close env) ipc (Some t1) os2 = Some (Some t2, os) \<and>
    server_close env call_destroy (s1\<lparr>s_dispatch := Some t2, s_os := os\<rparr>, usb1) = Some (Some t3, os3, usb3) \<and>
    foreign_table env uarg t3 \<and> at_rest usb3"
proof -
  from assms obtain cs ys where c: "net_rep env (foreign uarg) (s1\<lparr>s_dispatch := Some t1\<rparr>) cs ys" "wiring uarg s1"
      "serves uenv self uarg (set cs) usb1" by (auto simp: sys_inv_def)
  from ipc_free_ok [OF c(1), of "ne_close env" ipc os2] obtain t2 os zs where
    f: "ipc_free (ne_close env) ipc (Some t1) os2 = Some (Some t2, os)"
      "net_rep env (foreign uarg) (s1\<lparr>s_dispatch := Some t2\<rparr>) cs zs" by blast
  let ?s2 = "s1\<lparr>s_dispatch := Some t2, s_os := os\<rparr>"
  have "net_rep env (foreign uarg) ?s2 cs zs" using f(2) by (simp add: net_rep_def)
  moreover have "wiring uarg ?s2" using c(2) by (simp add: wiring_def)
  ultimately show ?thesis using server_close_ok [OF _ _ c(3)] f(1) by blast
qed

lemma main_serve_ok:
  assumes env: "sys_env_ok env uenv pe uarg" and rounds: "rounds_ok (m_rounds m)" and p: "\<not> pr_killed p"
    and s: "s_dispatch s = Some t" "foreign_table env uarg t" "s_conns s = Map.empty" "list_holds (s_connections s) []"
      "l_free (the (s_connections s)) = Some (ne_connection_free env)" "s_framesize s = DEFAULT_NET_FRAMESIZE"
      "s_recvfn s = Some F_net_frame_handler" "s_arg s = uarg"
    and usb: "fresh_usb det usb" "usb = None \<longleftrightarrow> uarg = None"
  shows "\<exists>e p' t' os usb'. main_serve env uenv pe next_timeout lmax vs m uarg p s usb = Some (e, p', t', os, usb') \<and>
    e = (if ipc_new (m_ipc_malloc m) (m_socketpair m) = None then Returned (-1) else main_fate m) \<and>
    (e \<noteq> Killed \<and> e \<noteq> Serving \<longrightarrow> (\<exists>d. t' = Some d \<and> foreign_table env uarg d) \<and> at_rest usb')"
proof -
  define s0 where "s0 = server_set_connection_destroy_callback (Some F_net_dequeue_connection) uarg s"
  define usb0 where "usb0 = usbdali_set_inband_callback
    (usbdali_set_outband_callback usb (Some F_dali_outband_handler) (Some (m_server m))) (Some F_dali_inband_handler)"
  have ok: "net_fns env" "ne_grow env" "usb_env_ok uenv" using env by (simp_all add: sys_env_ok_def)
  have w: "wiring uarg s0" using s by (simp add: wiring_def s0_def server_set_connection_destroy_callback_def)
  have sv: "serves uenv (m_server m) uarg {} usb0" unfolding usb0_def by (rule callbacks_serve [OF ok(3) usb])
  have s0: "s_dispatch s0 = Some t" "s_conns s0 = Map.empty" "list_holds (s_connections s0) []"
      "l_free (the (s_connections s0)) = Some (ne_connection_free env)"
    using s by (simp_all add: s0_def server_set_connection_destroy_callback_def)
  show ?thesis
  proof (cases "ipc_new (m_ipc_malloc m) (m_socketpair m)")
    case None
    from net_rep_empty [OF s0(1) s(2) s0(2-4)] obtain xs where "net_rep env (foreign uarg) s0 [] xs" by blast
    from server_close_ok [OF this w, of uenv "m_server m" usb0] sv None show ?thesis
      by (auto simp: main_serve_def s0_def usb0_def Let_def)
  next
    case (Some i)
    then have "\<not> i_dispatch i" by (auto simp: ipc_new_def split: if_splits prod.splits)
    from ipc_register_ok [OF s(2) ok(1) this, of "m_ipc m"] obtain i' t0 where
      i': "ipc_register True F_ipc_read_zero (m_ipc m) (Some i) (Some t) = Some (Some i', Some t0)" "foreign_table env uarg t0" by blast
    let ?s0 = "s0\<lparr>s_dispatch := Some t0\<rparr>"
    from net_rep_empty [of ?s0 t0 env uarg] i'(2) s0 obtain xs where xs: "net_rep env (foreign uarg) ?s0 [] xs" by auto
    then have "sys_inv env uenv pe (m_server m) uarg (t0, ?s0, usb0)" "disp_rep t0 xs"
      using env w sv by (auto simp: sys_inv_def wiring_def net_rep_def)
    from main_loop_inv [OF this rounds, of "p\<lparr>pr_running := True\<rparr>" next_timeout lmax vs "Some i'"] p obtain p1 t1 s1 usb1 where
      l: "main_loop env uenv pe next_timeout lmax vs uarg (Some i') (m_rounds m) (p\<lparr>pr_running := True\<rparr>, Some t0, ?s0, usb0) =
          Some (loop_stops (m_rounds m) = 1, p1, Some t1, s1, usb1)"
        "sys_inv env uenv pe (m_server m) uarg (t1, s1, usb1)"
        "pr_killed p1 = (1 < loop_stops (m_rounds m))" "pr_running p1 = (loop_stops (m_rounds m) = 0)" by auto
    obtain p2 os2 where late: "deliver_signals lmax vs (ne_write env) (Some i') (m_late m) (p1, s_os s1) = (p2, os2)" by fastforce
    from main_shutdown [OF l(2), of "Some i'" os2] obtain t2 os t3 os3 usb3 where
      f: "ipc_free (ne_close env) (Some i') (Some t1) os2 = Some (Some t2, os)"
        "server_close env call_destroy (s1\<lparr>s_dispatch := Some t2, s_os := os\<rparr>, usb1) = Some (Some t3, os3, usb3)"
        "foreign_table env uarg t3" "at_rest usb3" by blast
    have serve: "main_serve env uenv pe next_timeout lmax vs m uarg p s usb =
        (if loop_stops (m_rounds m) \<noteq> 1 then Some (if pr_killed p1 then Killed else Serving, p1, Some t1, s_os s1, usb1)
         else if pr_killed p2 then Some (Killed, p2, Some t1, os2, usb1) else Some (Returned 0, p2, Some t3, os3, usb3))"
      using Some s0(1) ok(2) i'(1) l(1) late f(1,2)
      by (simp add: main_serve_def s0_def [symmetric] usb0_def [symmetric] Let_def)
    have "pr_killed p2 = (stop_signals (m_late m) \<noteq> [])" if "loop_stops (m_rounds m) = 1"
      using signals_fate [OF late] l(3,4) that by auto
    with serve l(3) f(3,4) Some show ?thesis by (auto simp: main_fate_def)
  qed
qed

section \<open>From the options to the exit code\<close>

definition startup_ok :: "main_answers \<Rightarrow> Options \<Rightarrow> bool" where
  "startup_ok m opts \<longleftrightarrow> m_dispatch m \<and>
     (opt_dryrun opts \<or> q_init (m_answers m) = 0 \<and> device_ok (m_answers m) (opt_usbbus opts) (opt_usbdev opts)) \<and>
     server_ok (m_open m) \<and> ipc_new (m_ipc_malloc m) (m_socketpair m) \<noteq> None"

lemma fresh_at_rest: "fresh_usb det usb \<Longrightarrow> at_rest usb"
  using usb_sim_args [of _ sp_start "{}"]
  by (cases usb) (auto simp: fresh_usb_def at_rest_def usb_sim_def config_def sp_start_def)

lemma main_device:
  assumes ok: "net_fns env" "ne_grow env" "usb_env_ok uenv" and l: "q_list (m_answers m)"
    and t: "\<And>uarg. foreign_table env uarg d0" and uarg: "uarg = (if opt_dryrun opts then None else Some (m_usb m))"
  obtains usb t tr where "(if opt_dryrun opts then Some (None, Some d0, [])
      else usbdali_open uenv (\<lambda>fd events. usbdali_add_pollfd (ne_grow env) fd events (Some (m_usb m)))
        F_usbdali_transaction_free (m_answers m) False (Some d0) (opt_usbbus opts) (opt_usbdev opts) u) = Some (usb, Some t, tr)"
    "foreign_table env uarg t" "fresh_usb (q_active (m_answers m) = 1) usb"
    "usb \<noteq> None \<longleftrightarrow> \<not> opt_dryrun opts \<and> q_init (m_answers m) = 0 \<and> device_ok (m_answers m) (opt_usbbus opts) (opt_usbdev opts)"
proof (cases "opt_dryrun opts")
  case True
  with t uarg that show ?thesis by (simp add: fresh_usb_def)
next
  case False
  let ?open = "usbdali_open uenv (\<lambda>fd events. usbdali_add_pollfd (ne_grow env) fd events (Some (m_usb m)))
    F_usbdali_transaction_free (m_answers m) False (Some d0) (opt_usbbus opts) (opt_usbdev opts) u"
  from pt.open_ok [OF ok(3) l, of env "m_usb m" d0 F_usbdali_transaction_free False "opt_usbbus opts" "opt_usbdev opts" u]
    ok(1,2) t obtain dali t' tr' where r: "?open = Some (dali, Some t', tr')" "foreign_table env (Some (m_usb m)) t'"
      "fresh_usb (q_active (m_answers m) = 1) dali"
    by (auto simp: opened_ok_def fresh_usb_def)
  with usbdali_open_success [OF r(1)] False uarg that show ?thesis by auto
qed

lemma main_server:
  assumes env: "sys_env_ok env uenv pe uarg" and l: "r_list (m_open m)" and rounds: "rounds_ok (m_rounds m)" and p: "\<not> pr_killed p"
    and t: "foreign_table env uarg t" and u: "fresh_usb det usb" "usb = None \<longleftrightarrow> uarg = None"
  obtains server t1 os1 e p' t2 os2 usb2 where
    "server_open env (m_open m) (Some t) (m_server m) DEFAULT_NET_FRAMESIZE (Some F_net_frame_handler) uarg os = Some (server, Some t1, os1)"
    "(case server of None \<Rightarrow> Some (Returned (-1), p, Some t1, os1, usb)
      | Some s \<Rightarrow> main_serve env uenv pe next_timeout lmax vs m uarg p s usb) = Some (e, p', t2, os2, usb2)"
    "e = (if server_ok (m_open m) \<and> ipc_new (m_ipc_malloc m) (m_socketpair m) \<noteq> None then main_fate m else Returned (-1))"
    "e \<noteq> Killed \<and> e \<noteq> Serving \<longrightarrow> (\<exists>d. t2 = Some d \<and> foreign_table env uarg d) \<and> at_rest usb2"
proof -
  have ok: "net_fns env" "ne_grow env" using env by (simp_all add: sys_env_ok_def)
  from server_open_ok [OF t ok l, of "m_server m" DEFAULT_NET_FRAMESIZE "Some F_net_frame_handler" uarg os]
  obtain server t1 os1 where sv: "server_open env (m_open m) (Some t) (m_server m) DEFAULT_NET_FRAMESIZE (Some F_net_frame_handler) uarg os
      = Some (server, Some t1, os1)" "foreign_table env uarg t1" "server \<noteq> None \<longleftrightarrow> server_ok (m_open m)"
    "\<And>s. server = Some s \<Longrightarrow> s_dispatch s = Some t1 \<and> s_framesize s = DEFAULT_NET_FRAMESIZE \<and>
       s_recvfn s = Some F_net_frame_handler \<and> s_arg s = uarg \<and> s_conns s = Map.empty \<and>
       list_holds (s_connections s) [] \<and> l_free (the (s_connections s)) = Some (ne_connection_free env)" by blast
  show ?thesis
  proof (cases server)
    case None
    from that [OF sv(1), of "Returned (-1)" p "Some t1" os1 usb] None sv(2,3) fresh_at_rest [OF u(1)] show ?thesis by simp
  next
    case (Some s)
    from main_serve_ok [OF env rounds p _ sv(2) _ _ _ _ _ _ u, of s next_timeout lmax vs] sv(4) [OF Some]
    obtain e p' t' os' usb' where "main_serve env uenv pe next_timeout lmax vs m uarg p s usb = Some (e, p', t', os', usb')"
        "e = (if ipc_new (m_ipc_malloc m) (m_socketpair m) = None then Returned (-1) else main_fate m)"
        "e \<noteq> Killed \<and> e \<noteq> Serving \<longrightarrow> (\<exists>d. t' = Some d \<and> foreign_table env uarg d) \<and> at_rest usb'" by blast
    with that [OF sv(1), of e p' t' os' usb'] Some sv(3) show ?thesis by auto
  qed
qed

lemma main_run_ok:
  assumes "sys_env_ok env uenv pe (if opt_dryrun opts then None else Some (m_usb m))"
    and "q_list (m_answers m)" and "r_list (m_open m)" and "rounds_ok (m_rounds m)"
    and "\<forall>ev\<in>set (m_closing m). cancelled ev" and "\<not> pr_killed p"
  shows "\<exists>e p' t os' tr. main_run env uenv pe next_timeout lmax vs m opts p u os = Some (e, p', t, os', tr) \<and>
    e = (if startup_ok m opts then main_fate m else Returned (-1)) \<and>
    (\<forall>d. t = Some d \<and> e \<noteq> Killed \<and> e \<noteq> Serving \<longrightarrow> foreign_table env (if opt_dryrun opts then None else Some (m_usb m)) d)"
proof (cases "m_dispatch m")
  case False
  then show ?thesis by (simp add: main_run_def dispatch_new_def startup_ok_def)
next
  case True
  define uarg where "uarg = (if opt_dryrun opts then None else Some (m_usb m))"
  define d0 where "d0 = the (dispatch_new True :: fn DispatchPtr)"
  have dn: "dispatch_new (m_dispatch m) = Some d0" using True by (simp add: d0_def dispatch_new_def)
  have ok: "net_fns env" "ne_grow env" "usb_env_ok uenv" using assms(1) by (simp_all add: sys_env_ok_def)
  have ft: "foreign_table env a d0" for a
    unfolding foreign_table_def d0_def by (intro exI [of _ "[]"] conjI disp_rep_new) (simp add: entries_ok_def)
  obtain usb t tr where o: "(if opt_dryrun opts then Some (None, Some d0, [])
      else usbdali_open uenv (\<lambda>fd events. usbdali_add_pollfd (ne_grow env) fd events (Some (m_usb m)))
        F_usbdali_transaction_free (m_answers m) False (Some d0) (opt_usbbus opts) (opt_usbdev opts) u) = Some (usb, Some t, tr)"
    "foreign_table env uarg t" "fresh_usb (q_active (m_answers m) = 1) usb"
    "usb \<noteq> None \<longleftrightarrow> \<not> opt_dryrun opts \<and> q_init (m_answers m) = 0 \<and> device_ok (m_answers m) (opt_usbbus opts) (opt_usbdev opts)"
    by (rule main_device [OF ok assms(2) ft uarg_def])
  show ?thesis
  proof (cases "opt_dryrun opts \<or> usb \<noteq> None")
    case False
    with o dn show ?thesis by (auto simp: main_run_def startup_ok_def uarg_def)
  next
    case up: True
    have ua: "usb = None \<longleftrightarrow> uarg = None" "(if usb = None then None else Some (m_usb m)) = uarg"
      using up o(4) by (auto simp: uarg_def)
    obtain server t1 os1 e p' t2 os2 usb2 where r:
      "server_open env (m_open m) (Some t) (m_server m) DEFAULT_NET_FRAMESIZE (Some F_net_frame_handler) uarg os = Some (server, Some t1, os1)"
      "(case server of None \<Rightarrow> Some (Returned (-1), p, Some t1, os1, usb)
        | Some s \<Rightarrow> main_serve env uenv pe next_timeout lmax vs m uarg p s usb) = Some (e, p', t2, os2, usb2)"
      "e = (if server_ok (m_open m) \<and> ipc_new (m_ipc_malloc m) (m_socketpair m) \<noteq> None then main_fate m else Returned (-1))"
      "e \<noteq> Killed \<and> e \<noteq> Serving \<longrightarrow> (\<exists>d. t2 = Some d \<and> foreign_table env uarg d) \<and> at_rest usb2"
      by (rule main_server [OF assms(1) [folded uarg_def] assms(3,4,6) o(2,3) ua(1), where os = os and next_timeout = next_timeout
            and lmax = lmax and vs = vs])
    have "e = (if startup_ok m opts then main_fate m else Returned (-1))" using r(3) up o(4) True by (auto simp: startup_ok_def)
    moreover have "\<exists>tr'. main_run env uenv pe next_timeout lmax vs m opts p u os = Some (e, p', t2, os2, tr')"
    proof (cases "e = Killed \<or> e = Serving")
      case True
      with dn o(1) up ua(2) r(1,2) show ?thesis by (auto simp: main_run_def)
    next
      case False
      with close_usb_ok [OF _ assms(5), of usb2 uenv] r(4) obtain tr' where "close_usb uenv (m_closing m) (q_detach (m_answers m) = 0) usb2 = Some tr'" by blast
      with False dn o(1) up ua(2) r(1,2) show ?thesis by (auto simp: main_run_def)
    qed
    ultimately show ?thesis using r(4) by (auto simp: uarg_def)
  qed
qed

section \<open>Properties\<close>

text \<open>
  Property C1: the whole program. With a network that writes broadcasts in full, a libusb that reports cancelled
  transfers as such, and an allocator for the small objects, a run of \<open>main\<close> on any accepted command line, answers of the system
  and sequence of events is free of undefined behaviour: no freed connection, transaction, frame, transfer or list
  node is used, whatever clients connect, send or disconnect, whatever the device does and whatever signals arrive. In the background, a
  process gets there exactly if one returns from \<open>daemonize\<close>. If something could not be opened, \<open>main\<close> returns -1. Otherwise it serves for as long as no
  \<open>SIGTERM\<close> or \<open>SIGINT\<close> has arrived, leaves the event loop in the round of the first one and returns 0, or is killed
  by another one. When it returns, no entry of a connection is left in the dispatch table.
\<close>

theorem main_completes:
  assumes "parse_opt (l_gnu l) (l_vsyslog l) argv = Some opts"
    and "sys_env_ok env uenv pe (if opt_dryrun opts then None else Some (m_usb m))"
    and "q_list (m_answers m)" and "r_list (m_open m)" and "rounds_ok (m_rounds m)"
    and "\<forall>ev\<in>set (m_closing m). cancelled ev"
  shows "\<exists>r. main_prog env uenv pe next_timeout m l w argv u os = Some r \<and>
    mr_end r = (if opt_background opts \<and> \<not> continues (daemonize w (opt_pidfile opts)) then Not_daemonized
                else if startup_ok m opts then main_fate m else Returned (-1)) \<and>
    (\<forall>d e. mr_table r = Some d \<and> mr_end r = Returned e \<longrightarrow>
       foreign_table env (if opt_dryrun opts then None else Some (m_usb m)) d)"
proof -
  let ?p = "\<lparr>pr_running = False, pr_killed = False, pr_log = main_log l opts (log_init (l_max l)), pr_out = []\<rparr>"
  from main_run_ok [OF assms(2-6), of ?p next_timeout "l_max l" "l_vsyslog l" u os] obtain e p' t os' tr where
    "main_run env uenv pe next_timeout (l_max l) (l_vsyslog l) m opts ?p u os = Some (e, p', t, os', tr)"
    "e = (if startup_ok m opts then main_fate m else Returned (-1))"
    "\<forall>d. t = Some d \<and> e \<noteq> Killed \<and> e \<noteq> Serving \<longrightarrow> foreign_table env (if opt_dryrun opts then None else Some (m_usb m)) d" by auto
  with assms(1) show ?thesis by (auto simp: main_prog_def Let_def)
qed

text \<open>
  A network that accepts every connection as socket 10, reads a request from it and records what is written, and
  a \<open>poll\<close> that reports input on every descriptor.
\<close>

definition demo_net :: "(fn, (int \<times> byte list) list) net_env" where
  "demo_net = \<lparr>ne_malloc = bump_alloc, ne_buffer = True, ne_grow = True, ne_accept = \<lambda>fd os. ((10, True), os),
     ne_read = \<lambda>fd b k os. ((int k, take k ([2, 0, 0xff, 8] @ replicate k 0)), os),
     ne_write = \<lambda>fd bs os. (int (length bs), os @ [(fd, bs)]), ne_close = \<lambda>fd os. os,
     ne_listener_ready = F_server_listener_ready, ne_listener_error = F_server_listener_error,
     ne_ready = F_connection_ready, ne_error = F_connection_error, ne_connection_free = F_connection_free\<rparr>"

definition demo_pending :: "unit libusb_events" where
  "demo_pending u = ([Transfer_done (Send_done LIBUSB_TRANSFER_COMPLETED),
     Transfer_done (Receive_done LIBUSB_TRANSFER_COMPLETED 9 demo_packet)], u)"

definition demo_poll :: poll_fn where
  "demo_poll fds timeout = (1, map (\<lambda>p. 1) fds)"

definition demo_round :: "int list \<Rightarrow> main_round" where
  "demo_round sigs = \<lparr>rd_signals = map demo_signal sigs, rd_poll = demo_poll\<rparr>"

definition demo_main :: main_answers where
  "demo_main = \<lparr>m_dispatch = True, m_answers = demo_answers,
     m_open = \<lparr>r_malloc = True, r_list = True, r_socket = 5, r_setsockopt = 0, r_pton = 1, r_bind = 0, r_listen = 0\<rparr>,
     m_ipc_malloc = True, m_socketpair = (0, 3, 4), m_rounds = map demo_round [[], [SIGHUP], [SIGTERM]], m_late = [],
     m_closing = [Receive_done LIBUSB_TRANSFER_CANCELLED 0 demo_packet], m_usb = 100, m_server = 200, m_ipc = 300\<rparr>"

lemma demo_sys_ok: "sys_env_ok demo_net demo_env demo_pending uarg"
  by (auto simp: sys_env_ok_def demo_net_def net_fns_def bump_total read_ok_def demo_env_ok bcast_ok_def writes_ok_def
      broadcast_bytes_def DEFAULT_NET_FRAMESIZE_def demo_pending_def USBDALI_LENGTH_def demo_packet_def)

definition demo_log :: log_answers where
  "demo_log = \<lparr>l_max = 3, l_vsyslog = True, l_gnu = True, l_fopen = \<lambda>path. True, l_strdup = True, l_date = [], l_err = []\<rparr>"

theorem main_completes_witness:
  "\<exists>r. main_prog demo_net demo_env demo_pending (\<lambda>u. (0, 0, 0)) demo_main demo_log demo_daemon [''daliserver'', ''-b''] () [] = Some r \<and>
     mr_end r = Returned 0"
proof -
  let ?opts = "default_options\<lparr>opt_background := True, opt_pidfile := Some DEFAULT_PID_FILE\<rparr>"
  have o: "parse_opt (l_gnu demo_log) (l_vsyslog demo_log) [''daliserver'', ''-b''] = Some ?opts"
    by (simp add: parse_opt_def parse_option_def default_options_def)
  have s: "startup_ok demo_main ?opts"
    by (simp add: startup_ok_def demo_main_def default_options_def device_ok_def server_ok_def ipc_new_def open_defs)
  have f: "main_fate demo_main = Returned 0"
    by (simp add: main_fate_def demo_main_def demo_round_def demo_signal_def SIGHUP_def SIGTERM_def)
  have c: "continues (daemonize demo_daemon (Some DEFAULT_PID_FILE))"
    by (simp add: continues_def daemonize_defs Let_def)
  have "q_list (m_answers demo_main)" "r_list (m_open demo_main)" "rounds_ok (m_rounds demo_main)"
      "\<forall>ev\<in>set (m_closing demo_main). cancelled ev"
    by (simp_all add: demo_main_def demo_answers_def rounds_ok_def demo_round_def demo_poll_def USBDALI_LENGTH_def demo_packet_def)
  from main_completes [OF o demo_sys_ok this, where next_timeout = "\<lambda>u. (0, 0, 0)" and u = "()" and os = "[]" and w = demo_daemon]
    s c f show ?thesis by auto
qed

text \<open>
  Also: the log after start-up. Whatever the options, no level is above the compiled one; a log file that was asked for and can
  be opened is open and gets all messages that were compiled in.
\<close>

theorem main_log_levels:
  assumes "LOG_LEVEL_ERROR \<le> l_max l"
  shows "levels_ok (l_max l) (main_log l opts (log_init (l_max l))) \<and>
    (\<forall>path. opt_logfile opts = Some path \<and> l_strdup l \<and> l_fopen l path \<longrightarrow>
       lg_fp (main_log l opts (log_init (l_max l))) = Some path \<and>
       lg_file_level (main_log l opts (log_init (l_max l))) = l_max l) \<and>
    log_get_level (main_log l opts (log_init (l_max l))) = min (opt_loglevel opts) (l_max l)"
  using assms
  by (cases "opt_logfile opts")
    (auto simp: main_log_def levels_ok_def log_init_def log_set_level_def log_set_logfile_def log_reopen_file_def
      log_set_logfile_level_def log_set_syslog_def log_get_level_def min_def Let_def)

theorem main_log_levels_witness:
  "lg_fp (main_log demo_log (default_options\<lparr>opt_logfile := Some ''log''\<rparr>) (log_init 3)) = Some ''log''"
  using main_log_levels [of demo_log "default_options\<lparr>opt_logfile := Some ''log''\<rparr>"] by (simp add: demo_log_def LOG_LEVEL_ERROR_def)

end
