(* ===== verification/Server_Properties.thy ===== *)
theory Server_Properties
  imports Main_Program
begin

text \<open>
  What the server does for its clients: the properties of the network side with the program's own callbacks in place.
\<close>

section \<open>A running server\<close>

text \<open>
  \<open>online\<close>: the server has the connections \<open>cs\<close>, its callbacks are those of \<open>main\<close>, and the driver, if there is one, is between two
  events with transactions of these connections only. \<open>self\<close> and \<open>uarg\<close> are the addresses of the server and of the driver.
\<close>

definition online :: "(fn, 'o) net_env \<Rightarrow> 'u usb_env \<Rightarrow> addr \<Rightarrow> ptr \<Rightarrow> addr list \<Rightarrow> (fn, 'o) Server \<times> (fn, 'u) UsbDaliPtr \<Rightarrow> bool" where
  "online env uenv self uarg cs sw \<longleftrightarrow> (\<exists>xs. net_rep env (foreign uarg) (fst sw) cs xs) \<and> wiring uarg (fst sw) \<and>
     serves uenv self uarg (set cs) (snd sw)"

text \<open>The representation does not depend on the system calls.\<close>

lemma net_rep_calls [simp]:
  "net_rep (env\<lparr>ne_write := f\<rparr>) other s cs xs = net_rep env other s cs xs"
  "net_rep (env\<lparr>ne_read := g\<rparr>) other s cs xs = net_rep env other s cs xs"
  by (simp_all add: net_rep_def entries_ok_def)

lemma onlineE:
  assumes "online env uenv self uarg cs (s, usb)"
  obtains xs where "net_rep env (foreign uarg) s cs xs" "wiring uarg s" "serves uenv self uarg (set cs) usb"
  using assms by (auto simp: online_def)

lemma online_conn:
  assumes "online env uenv self uarg cs (s, usb)" "a \<in> set cs"
  obtains c where "s_conns s a = Some c"
  using assms by (auto simp: online_def net_rep_def)

lemma online_I:
  assumes "net_rep env (foreign uarg) s' cs' ys" "sconf s' = sconf s" "wiring uarg s" "serves uenv self uarg (set cs') usb'"
  shows "online env uenv self uarg cs' (s', usb')"
  using assms wiring_sconf [OF assms(2)] by (auto simp: online_def)

text \<open>An event of the driver: what the specification says happens, and its messages go to the clients.\<close>

lemma bus_event_ok:
  assumes on: "online env uenv self uarg cs (s, Some d)" and b: "bcast_ok env" and sim: "usb_sim d \<sigma> E"
    and ev: "event_ok ev" "event_args ev = {}"
  shows "\<exists>d' s' \<sigma>' cs' E'. usb_event_step uenv (call_req env) (call_bcast env) ev (d, s) = Some (d', s') \<and>
    online env uenv self uarg cs' (s', Some d') \<and> usb_sim d' \<sigma>' E' \<and> config d' = config d \<and>
    spec_keep (\<lambda>x y. y = lost s s' x) (fst (usb_spec_step (unat (d_queue_size d)) ev \<sigma>)) \<sigma>' \<and>
    said_all (sends env) (snd (usb_spec_step (unat (d_queue_size d)) ev \<sigma>)) s s'"
proof -
  from on obtain xs where o: "net_rep env (foreign uarg) s cs xs" "wiring uarg s" "serves uenv self uarg (set cs) (Some d)"
    by (rule onlineE)
  then have d: "usb_env_ok uenv" "uarg \<noteq> None" "busy d" "hooked self d" "args d \<subseteq> insert None (Some ` set cs)"
    by (auto simp: serves_def)
  have "hosts env (foreign uarg) uarg xs (event_args ev \<union> args d) s"
    unfolding hosts_def using b o(1,2) ev(2) d(2,5) quiet_refl [of xs] by (simp, blast)
  moreover have "wired F_dali_inband_handler F_dali_outband_handler (Some self) d" using d(4) by (simp add: hooked_def)
  ultimately obtain d' s' \<sigma>' E' where r: "usb_event_step uenv (call_req env) (call_bcast env) ev (d, s) = Some (d', s')"
      "usb_sim d' \<sigma>' E'" "spec_keep (\<lambda>x y. y = lost s s' x) (fst (usb_spec_step (unat (d_queue_size d)) ev \<sigma>)) \<sigma>'"
      "said_all (sends env) (snd (usb_spec_step (unat (d_queue_size d)) ev \<sigma>)) s s'"
      "hosts env (foreign uarg) uarg xs (args d') s'" "busy d'" "config d' = config d"
    using dc.event_follows [OF d(1) sim _ _ d(3) ev(1)] unfolding follows_def by blast
  from r(5) obtain cs' ys where h: "wiring uarg s'" "net_rep env (foreign uarg) s' cs' ys" "args d' \<subseteq> insert None (Some ` set cs')"
    by (auto simp: hosts_def)
  have "serves uenv self uarg (set cs') (Some d')"
    using d r h(3) config_hooked [OF r(7)] by (auto simp: serves_def)
  with h r show ?thesis unfolding online_def by (intro exI [of _ d'] exI [of _ s'] exI [of _ \<sigma>'] exI [of _ cs'] exI [of _ E']) auto
qed

lemma broadcast_all_served:
  assumes rep: "net_rep env other s cs xs" and w: "writes_ok env (s_framesize s) (take n bs)" and n: "0 < n"
  shows "server_broadcast env call_destroy (Some bs) n (s, usb) =
    Some (s\<lparr>s_os := broadcast_writes env (s_conns s) (take n bs) cs (s_os s)\<rparr>, usb)"
proof -
  have lh: "list_holds (s_connections s) (map Some cs)" "dom (s_conns s) = set cs" using rep by (simp_all add: net_rep_def)
  then obtain ns l where l: "s_connections s = Some l" "dseg (l_nodes l) None (l_head l) ns (l_tail l) None"
      "map (data_at (l_nodes l)) ns = map Some cs" by (auto simp: list_holds_def elim!: list_repE)
  from broadcast_loop_ok [OF l(2,3) _ l(1) w n, of call_destroy usb] lh(2) l(1) n show ?thesis
    by (simp add: server_broadcast_def list_first_def)
qed

text \<open>
  The specification of a run of the driver with the program's callbacks. An event does what the driver's specification says, its messages
  go to the clients, and of the requests still pending exactly those of a connection closed by this event lose their sender.
\<close>

definition without :: "(ptr \<Rightarrow> ptr) \<Rightarrow> usb_spec \<Rightarrow> usb_spec" where
  "without g \<sigma> = \<sigma>\<lparr>sp_pending := map (apsnd g) (sp_pending \<sigma>)\<rparr>"

fun bus_spec :: "(fn, 'o) net_env \<Rightarrow> nat \<Rightarrow> usb_event list \<Rightarrow> usb_spec \<times> (fn, 'o) Server \<Rightarrow> usb_spec \<times> (fn, 'o) Server \<Rightarrow> bool" where
  "bus_spec env cap [] x y \<longleftrightarrow> y = x"
| "bus_spec env cap (ev # evs) (\<sigma>, s) y \<longleftrightarrow> (\<exists>s1. said_all (sends env) (snd (usb_spec_step cap ev \<sigma>)) s s1 \<and>
     bus_spec env cap evs (without (lost s s1) (fst (usb_spec_step cap ev \<sigma>)), s1) y)"

section \<open>A server to try things on\<close>

text \<open>The server of \<open>demo_net\<close> after its first client has connected, at address 1 and with socket 10.\<close>

definition demo_listening :: "ptr \<Rightarrow> (fn, (int \<times> byte list) list) Server" where
  "demo_listening uarg = server_set_connection_destroy_callback (Some F_net_dequeue_connection) uarg
     (the (fst (the (server_open demo_net (m_open demo_main) (dispatch_new True) 200 4 (Some F_net_frame_handler) uarg []))))"

definition demo_server :: "ptr \<Rightarrow> (fn, (int \<times> byte list) list) Server" where
  "demo_server uarg = the (server_listener_ready demo_net (demo_listening uarg))"

definition demo_usb :: "(fn, unit) UsbDaliPtr" where
  "demo_usb = usbdali_set_inband_callback (usbdali_set_outband_callback
     (fst (the (usbdali_open demo_env (\<lambda>fd events. usbdali_add_pollfd True fd events (Some 100)) F_usbdali_transaction_free
        demo_answers False (dispatch_new True) (-1) (-1) ()))) (Some F_dali_outband_handler) (Some 200)) (Some F_dali_inband_handler)"

lemma demo_listening_rep:
  "(\<exists>xs. net_rep demo_net (foreign uarg) (demo_listening uarg) [] xs)" "wiring uarg (demo_listening uarg)"
    "s_conns (demo_listening uarg) = Map.empty" "s_connections (demo_listening uarg) = list_new True (Some F_connection_free)"
    "\<exists>t. s_dispatch (demo_listening uarg) = Some t" "s_os (demo_listening uarg) = []"
proof -
  let ?d0 = "the (dispatch_new True) :: fn Dispatch"
  have env: "net_fns demo_net" "ne_grow demo_net" "r_list (m_open demo_main)" "server_ok (m_open demo_main)"
    by (simp_all add: demo_net_def net_fns_def demo_main_def server_ok_def)
  have "foreign_table demo_net uarg ?d0"
    unfolding foreign_table_def by (intro exI [of _ "[]"] conjI disp_rep_new) (simp add: entries_ok_def)
  moreover have "dispatch_new True = Some ?d0" by (simp add: dispatch_new_def)
  ultimately obtain s t os where s: "server_open demo_net (m_open demo_main) (dispatch_new True) 200 4 (Some F_net_frame_handler) uarg []
      = Some (Some s, Some t, os)" "foreign_table demo_net uarg t" "s_dispatch s = Some t" "s_framesize s = 4"
      "s_recvfn s = Some F_net_frame_handler" "s_arg s = uarg" "s_conns s = Map.empty" "list_holds (s_connections s) []"
      "l_free (the (s_connections s)) = Some (ne_connection_free demo_net)"
    using server_open_ok [OF _ env(1-3), of uarg ?d0 200 4 "Some F_net_frame_handler" uarg "[]"] env(4) by fastforce
  then have l: "demo_listening uarg = server_set_connection_destroy_callback (Some F_net_dequeue_connection) uarg s"
    by (simp add: demo_listening_def)
  show "\<exists>xs. net_rep demo_net (foreign uarg) (demo_listening uarg) [] xs"
    by (rule net_rep_empty [OF _ s(2)]) (simp_all add: l server_set_connection_destroy_callback_def s)
  show "wiring uarg (demo_listening uarg)" "s_conns (demo_listening uarg) = Map.empty" "\<exists>t. s_dispatch (demo_listening uarg) = Some t"
    using s by (simp_all add: l server_set_connection_destroy_callback_def wiring_def DEFAULT_NET_FRAMESIZE_def)
  have "s_connections s = list_new True (Some F_connection_free)" "s_os s = []"
    using s(1) by (auto simp: server_open_def demo_main_def demo_net_def bind_eq_Some_conv split: if_splits)
  then show "s_connections (demo_listening uarg) = list_new True (Some F_connection_free)" "s_os (demo_listening uarg) = []"
    by (simp_all add: l server_set_connection_destroy_callback_def)
qed

definition demo_connection :: "ptr \<Rightarrow> fn Connection" where
  "demo_connection uarg = \<lparr>c_socket = 10, c_buffer = Some [0, 0, 0, 0], c_waiting = False,
     c_destroy = Some F_net_dequeue_connection, c_destroyarg = uarg\<rparr>"

lemma demo_server_rep:
  "(\<exists>xs. net_rep demo_net (foreign uarg) (demo_server uarg) [1] xs)" "wiring uarg (demo_server uarg)"
    "s_conns (demo_server uarg) = [1 \<mapsto> demo_connection uarg]" "s_os (demo_server uarg) = []"
proof -
  obtain xs where l: "net_rep demo_net (foreign uarg) (demo_listening uarg) [] xs" using demo_listening_rep(1) by blast
  have w: "serves demo_env 200 None {} (None :: (fn, unit) UsbDaliPtr)" by (simp add: serves_def demo_env_ok)
  obtain t where t: "s_dispatch (demo_listening uarg) = Some t" using demo_listening_rep(5) by blast
  have wl: "s_framesize (demo_listening uarg) = 4" "s_conndestroy (demo_listening uarg) = Some F_net_dequeue_connection"
      "s_conndestroyarg (demo_listening uarg) = uarg"
    using demo_listening_rep(2) [of uarg] by (simp_all add: wiring_def DEFAULT_NET_FRAMESIZE_def)
  have "foreign_table demo_net uarg t" using l t demo_listening_rep(3) by (auto simp: net_rep_def foreign_table_def)
  from sc.listener_ok [OF l, of demo_env 200 None None] w have
    "\<exists>s' cs' ys. server_listener_ready demo_net (demo_listening uarg) = Some s' \<and> net_rep demo_net (foreign uarg) s' cs' ys \<and>
      sconf s' = sconf (demo_listening uarg)"
    by (auto simp: demo_net_def bump_total)
  then obtain s' cs' ys where s': "server_listener_ready demo_net (demo_listening uarg) = Some s'"
      "net_rep demo_net (foreign uarg) s' cs' ys" "sconf s' = sconf (demo_listening uarg)" by blast
  then have d: "demo_server uarg = s'" by (simp add: demo_server_def)
  have c: "s_conns s' = [1 \<mapsto> demo_connection uarg]" "s_os s' = []"
    using s'(1) demo_listening_rep(3,4,6) wl t
    by (auto simp: server_listener_ready_def connection_new_def demo_net_def bump_alloc_def demo_connection_def bind_eq_Some_conv
        Let_def numeral_eq_Suc)
  then have "cs' = [1]"
  proof -
    have "set cs' = {1}" "distinct cs'" using s'(2) c by (auto simp: net_rep_def)
    moreover from this have "length cs' = 1" using distinct_card [of cs'] by simp
    ultimately show ?thesis by (cases cs') auto
  qed
  with s'(2,3) c demo_listening_rep(2) [of uarg] wiring_sconf [OF s'(3)] show
    "\<exists>xs. net_rep demo_net (foreign uarg) (demo_server uarg) [1] xs" "wiring uarg (demo_server uarg)"
    "s_conns (demo_server uarg) = [1 \<mapsto> demo_connection uarg]" "s_os (demo_server uarg) = []" by (auto simp: d)
qed

lemma callbacks_sim:
  "usb_sim d \<sigma> E \<Longrightarrow> usb_sim (d\<lparr>d_bcast_callback := x, d_bcast_arg := y, d_req_callback := z\<rparr>) \<sigma> E"
  by (simp add: usb_sim_def phase_of_def usb_rep_def usb_abs_def active_def xfer_rep_def)

lemma demo_usb_serves: "\<exists>d. demo_usb = Some d \<and> usb_sim d sp_start {} \<and> d_queue_size d = 255" "serves demo_env 200 (Some 100) {} demo_usb"
proof -
  have env: "net_fns demo_net" "ne_grow demo_net" "q_list (m_answers demo_main)"
    by (simp_all add: demo_net_def net_fns_def demo_main_def demo_answers_def)
  let ?d0 = "the (dispatch_new True) :: fn Dispatch"
  have ft: "foreign_table demo_net uarg ?d0" for uarg
    unfolding foreign_table_def by (intro exI [of _ "[]"] conjI disp_rep_new) (simp add: entries_ok_def)
  have "dispatch_new True = Some ?d0" by (simp add: dispatch_new_def)
  moreover obtain usb t tr where u: "(if opt_dryrun default_options then Some (None, Some ?d0, [])
      else usbdali_open demo_env (\<lambda>fd events. usbdali_add_pollfd (ne_grow demo_net) fd events (Some (m_usb demo_main)))
        F_usbdali_transaction_free (m_answers demo_main) False (Some ?d0) (opt_usbbus default_options) (opt_usbdev default_options) ())
      = Some (usb, Some t, tr)"
      "fresh_usb (q_active (m_answers demo_main) = 1) usb"
      "usb \<noteq> None \<longleftrightarrow> \<not> opt_dryrun default_options \<and> q_init (m_answers demo_main) = 0 \<and>
        device_ok (m_answers demo_main) (opt_usbbus default_options) (opt_usbdev default_options)"
    by (rule main_device [of demo_net demo_env demo_main ?d0 _ default_options "()", OF env(1,2) demo_env_ok env(3) ft refl])
  have "usb \<noteq> None" using u(3) by (simp add: default_options_def demo_main_def device_ok_def open_defs)
  moreover have "usbdali_open demo_env (\<lambda>fd events. usbdali_add_pollfd True fd events (Some 100))
      F_usbdali_transaction_free demo_answers False (Some ?d0) (-1) (-1) () = Some (usb, Some t, tr)"
    using u(1) env(2) by (simp add: default_options_def demo_main_def)
  moreover have "\<forall>d. usb = Some d \<longrightarrow> usb_sim d sp_start {} \<and> d_queue_size d = 255"
    using u(2) by (simp add: fresh_usb_def config_def DEFAULT_QUEUESIZE_def)
  ultimately show "\<exists>d. demo_usb = Some d \<and> usb_sim d sp_start {} \<and> d_queue_size d = 255" "serves demo_env 200 (Some 100) {} demo_usb"
    using callbacks_serve [OF demo_env_ok u(2), of "Some 100" 200]
    by (auto simp: demo_usb_def usbdali_set_inband_callback_def usbdali_set_outband_callback_def callbacks_sim)
qed

lemma demo_online:
  obtains d where "demo_usb = Some d" "online demo_net demo_env 200 (Some 100) [1] (demo_server (Some 100), Some d)"
    "usb_sim d sp_start {}" "d_queue_size d = 255"
proof -
  obtain d where d: "demo_usb = Some d" "usb_sim d sp_start {}" "d_queue_size d = 255" using demo_usb_serves(1) by blast
  moreover from this have "online demo_net demo_env 200 (Some 100) [1] (demo_server (Some 100), Some d)"
    using demo_server_rep(1,2) [of "Some 100"] serves_mono [OF demo_usb_serves(2)] by (simp add: online_def)
  ultimately show thesis using that by blast
qed

lemma demo_online_dry: "online demo_net demo_env 200 None [1] (demo_server None, None)"
  using demo_server_rep(1,2) [of None] demo_env_ok by (simp add: online_def serves_def)

text \<open>The driver after a request of the first connection was queued, sent and acknowledged.\<close>

definition demo_request :: "usb_event list" where
  "demo_request = [Request 0 0xff 8 (Some 1), Receive_done LIBUSB_TRANSFER_TIMED_OUT 0 demo_packet, Send_done LIBUSB_TRANSFER_COMPLETED]"

lemma quiet_run:
  assumes "usb_env_ok uenv" "usb_sim d \<sigma> E" "hooked self d" "busy d" "unat (d_queue_size d) = cap" "\<forall>ev\<in>set evs. event_ok ev"
  shows "\<exists>d' w E'. usb_run uenv log_req log_bcast evs (d, []) = Some (d', w) \<and> usb_sim d' (fst (usb_spec_run cap evs \<sigma>)) E' \<and>
    busy d' \<and> hooked self d' \<and> config d' = config d"
proof -
  have "\<exists>d' w' E'. usb_run uenv log_req log_bcast evs (d, w) = Some (d', w') \<and> usb_sim d' (fst (usb_spec_run cap evs \<sigma>)) E' \<and>
      busy d' \<and> config d' = config d" for w
    using assms(2-)
  proof (induction evs arbitrary: d w \<sigma> E)
    case (Cons ev evs)
    have "wired F_dali_inband_handler F_dali_outband_handler (Some self) d" using Cons.prems(2) by (simp add: hooked_def)
    from lc.event_follows [OF assms(1) Cons.prems(1) this _ Cons.prems(3), of ev w] Cons.prems(4,5) obtain d1 w1 E1 where
      d1: "usb_event_step uenv log_req log_bcast ev (d, w) = Some (d1, w1)" "usb_sim d1 (fst (usb_spec_step cap ev \<sigma>)) E1" "busy d1"
        "config d1 = config d"
      by (auto simp: follows_def spec_keep_eq)
    moreover have "unat (d_queue_size d1) = cap" using d1(4) Cons.prems(4) by (simp add: config_def)
    ultimately show ?case
      using Cons.IH [OF d1(2), of w1] Cons.prems config_hooked [OF d1(4)] by (auto split: prod.splits)
  qed auto
  with config_hooked assms(3) show ?thesis by blast
qed

text \<open>The specification's state then, with the request awaiting its answer, and a packet that reports the command \<open>ff 08\<close> on the bus.\<close>

definition demo_sent :: usb_spec where
  "demo_sent = \<lparr>sp_phase = Awaiting, sp_pending = [(\<lparr>f_ecommand = 0, f_address = 0xff, f_command = 8\<rparr>, Some 1)], sp_sent = 1\<rparr>"

definition demo_bus_packet :: "byte list" where
  "demo_bus_packet = [0x11, 0x73, 0, 0, 0xff, 8, 0, 0, 0] @ replicate 55 0"

lemma parse_demo_bus_packet:
  "parse_in demo_bus_packet = \<lparr>in_direction = 0x11, in_type = 0x73, in_ecommand = 0, in_address = 0xff, in_command = 8,
     in_status = 0, in_seqnum = 0\<rparr>"
  by (simp add: demo_bus_packet_def parse_in_def word16_def nth_append)

lemma demo_requested:
  obtains d w E where "usb_run demo_env log_req log_bcast demo_request (the demo_usb, []) = Some (d, w)" "usb_sim d demo_sent E"
    "online demo_net demo_env 200 (Some 100) [1] (demo_server (Some 100), Some d)" "d_queue_size d = 255"
proof -
  obtain d0 where d0: "demo_usb = Some d0" and on: "online demo_net demo_env 200 (Some 100) [1] (demo_server (Some 100), Some d0)"
      and sim: "usb_sim d0 sp_start {}" and cap: "d_queue_size d0 = 255" by (rule demo_online)
  have h: "hooked 200 d0" "busy d0" using on by (auto simp: online_def serves_def)
  have "fst (usb_spec_run 255 demo_request sp_start) = demo_sent"
    by (simp add: demo_request_def demo_sent_def sp_start_def sp_request_def sp_waiting_def sp_next_def)
  moreover have "\<forall>ev\<in>set demo_request. event_ok ev" by (simp add: demo_request_def demo_packet_def USBDALI_LENGTH_def)
  moreover have "unat (d_queue_size d0) = 255" by (simp add: cap)
  ultimately obtain d w E where d: "usb_run demo_env log_req log_bcast demo_request (d0, []) = Some (d, w)"
      "usb_sim d demo_sent E" "busy d" "hooked 200 d" "config d = config d0"
    using quiet_run [OF demo_env_ok sim h] by metis
  have "online demo_net demo_env 200 (Some 100) [1] (demo_server (Some 100), Some d)"
    using on d(2-4) usb_sim_args [OF d(2)] unfolding online_def serves_def by (auto simp: demo_sent_def)
  moreover have "d_queue_size d = 255" using d(5) cap by (simp add: config_def)
  ultimately show thesis using that d(1,2) unfolding d0 option.sel by blast
qed

lemma demo_bus_spec:
  assumes "bus_spec demo_net 255 [Receive_done LIBUSB_TRANSFER_COMPLETED 9 demo_packet, Receive_done LIBUSB_TRANSFER_COMPLETED 9 demo_bus_packet]
    (demo_sent, demo_server (Some 100)) (\<sigma>', s')"
  shows "s_os s' = [(10, [2, 1, 0x80, 0]), (10, [2, 2, 0xff, 8])]"
proof -
  let ?s = "demo_server (Some 100)"
  let ?s1 = "?s\<lparr>s_conns := [1 \<mapsto> demo_connection (Some 100)], s_os := [(10, [2, 1, 0x80, 0])]\<rparr>"
  have one: "snd (usb_spec_step 255 (Receive_done LIBUSB_TRANSFER_COMPLETED 9 demo_packet) demo_sent) =
      [Reply USBDALI_RESPONSE (dali_frame 0 (parse_in demo_packet)) 0x80 0x4f (Some 1)]"
    by (simp add: demo_sent_def sp_packet_def parse_demo_packet sp_answer_def)
  have two: "snd (usb_spec_step 255 (Receive_done LIBUSB_TRANSFER_COMPLETED 9 demo_bus_packet) \<sigma>) =
      [Bcast USBDALI_SUCCESS (Some (dali_frame 0 (parse_in demo_bus_packet))) 0]" if "sp_phase \<sigma> \<noteq> Sending" for \<sigma>
    using that by (simp add: sp_packet_def parse_demo_bus_packet)
  have ph: "sp_phase (fst (usb_spec_step 255 (Receive_done LIBUSB_TRANSFER_COMPLETED 9 demo_packet) demo_sent)) = Idle"
    by (simp add: demo_sent_def sp_packet_def parse_demo_packet sp_answer_def sp_next_def)
  from assms obtain s1 where s1: "replied demo_net 1 [2, 1, 0x80, 0] ?s s1" "said_all (sends demo_net)
      [Bcast USBDALI_SUCCESS (Some (dali_frame 0 (parse_in demo_bus_packet))) 0] s1 s'"
    using one two ph by (auto simp: without_def reply_frame_def net_consts)
  have "s1 = ?s1" using s1(1) demo_server_rep(2-4) [of "Some 100"]
    by (simp add: replied_def demo_net_def demo_connection_def wiring_def DEFAULT_NET_FRAMESIZE_def del: One_nat_def)
  with s1(2) obtain cs where cs: "list_holds (s_connections ?s) (map Some cs)"
      "s' = ?s1\<lparr>s_os := broadcast_writes demo_net (s_conns ?s1) [2, 2, 0xff, 8] cs (s_os ?s1)\<rparr>"
    by (auto simp: broadcast_bytes_def dali_frame_def parse_demo_bus_packet net_consts)
  have "list_holds (s_connections ?s) [Some 1]" using demo_server_rep(1) [of "Some 100"] by (auto simp: net_rep_def)
  from list_holds_unique [OF this cs(1)] have "cs = [1]" by auto
  with cs(2) show ?thesis by (simp add: broadcast_writes_def demo_connection_def demo_net_def del: One_nat_def)
qed


section \<open>Properties\<close>

text \<open>
  Property C3: the driver and the server together, as long as broadcasts are written in full. For every sequence of transfers that end, with
  the callbacks of the program, the driver follows its specification, and every message of the specification goes where it belongs: a reply as
  four bytes to the connection that sent the request, or nowhere if that connection is gone, and a message of the bus to every connection that
  is not waiting for a reply, in the order in which they connected. A connection to which a reply cannot be written is closed; its remaining
  requests, and no others, lose their sender.
\<close>

theorem bus_run_reaches_clients:
  assumes "online env uenv self uarg cs (s, Some d)" and "bcast_ok env" and "usb_sim d \<sigma> E"
    and "\<forall>ev\<in>set evs. event_ok ev \<and> event_args ev = {}"
  shows "\<exists>d' s' \<sigma>' cs' E'. usb_run uenv (call_req env) (call_bcast env) evs (d, s) = Some (d', s') \<and>
    online env uenv self uarg cs' (s', Some d') \<and> usb_sim d' \<sigma>' E' \<and>
    bus_spec env (unat (d_queue_size d)) evs (\<sigma>, s) (\<sigma>', s')"
  using assms(1,3,4)
proof (induction evs arbitrary: d s \<sigma> cs E)
  case (Cons ev evs)
  from bus_event_ok [OF Cons.prems(1) assms(2) Cons.prems(2), of ev] Cons.prems(3) obtain d1 s1 \<sigma>1 cs1 E1 where
    r: "usb_event_step uenv (call_req env) (call_bcast env) ev (d, s) = Some (d1, s1)" "online env uenv self uarg cs1 (s1, Some d1)"
      "usb_sim d1 \<sigma>1 E1" "config d1 = config d"
      "spec_keep (\<lambda>x y. y = lost s s1 x) (fst (usb_spec_step (unat (d_queue_size d)) ev \<sigma>)) \<sigma>1"
      "said_all (sends env) (snd (usb_spec_step (unat (d_queue_size d)) ev \<sigma>)) s s1" by auto
  have "d_queue_size d1 = d_queue_size d" using r(4) by (simp add: config_def)
  with Cons.IH [OF r(2,3)] Cons.prems(3) r spec_keep_fun [OF r(5)] show ?case by (fastforce simp: without_def)
qed auto

text \<open>A client's request is answered with the value 0x80, and a command that another device put on the bus is passed on to it.\<close>

theorem bus_run_reaches_clients_witness:
  "\<exists>d d' s'. usb_run demo_env log_req log_bcast demo_request (the demo_usb, []) = Some d \<and>
     usb_run demo_env (call_req demo_net) (call_bcast demo_net)
       [Receive_done LIBUSB_TRANSFER_COMPLETED 9 demo_packet, Receive_done LIBUSB_TRANSFER_COMPLETED 9 demo_bus_packet]
       (fst d, demo_server (Some 100)) = Some (d', s') \<and> s_os s' = [(10, [2, 1, 0x80, 0]), (10, [2, 2, 0xff, 8])]"
proof -
  obtain d w E where d: "usb_run demo_env log_req log_bcast demo_request (the demo_usb, []) = Some (d, w)"
      "usb_sim d demo_sent E" "online demo_net demo_env 200 (Some 100) [1] (demo_server (Some 100), Some d)"
      "d_queue_size d = 255" by (rule demo_requested)
  let ?evs = "[Receive_done LIBUSB_TRANSFER_COMPLETED 9 demo_packet, Receive_done LIBUSB_TRANSFER_COMPLETED 9 demo_bus_packet]"
  have b: "bcast_ok demo_net" using demo_sys_ok [of "Some 100"] by (simp add: sys_env_ok_def)
  have evs: "\<forall>ev\<in>set ?evs. event_ok ev \<and> event_args ev = {}"
    by (simp add: demo_packet_def demo_bus_packet_def USBDALI_LENGTH_def)
  have cap: "unat (d_queue_size d) = 255" using d(4) by simp
  obtain d' s' \<sigma>' where r: "usb_run demo_env (call_req demo_net) (call_bcast demo_net) ?evs (d, demo_server (Some 100)) = Some (d', s')"
      "bus_spec demo_net 255 ?evs (demo_sent, demo_server (Some 100)) (\<sigma>', s')"
    using bus_run_reaches_clients [OF d(3) b d(2) evs, unfolded cap] by blast
  from demo_bus_spec [OF r(2)] r(1) d(1) show ?thesis by (intro exI [of _ "(d, w)"] exI [of _ d'] exI [of _ s']) (simp only: fst_conv)
qed




text \<open>
  Property C8: a connection that fails is gone. It is taken out of the list, the store and the dispatch table and its socket is
  closed; all other connections stay as they are. The requests it has sent stay in the driver, in their places, without a sender, so
  no reply is ever written to the freed connection.
\<close>

theorem connection_lost:
  assumes "online env uenv self uarg cs (s, usb)" and "a \<in> set cs"
  shows "\<exists>s' usb'. connection_error env call_destroy err (Some a) (s, usb) = Some (s', usb') \<and>
    online env uenv self uarg (remove1 a cs) (s', usb') \<and> a \<notin> set (remove1 a cs) \<and> dropped env a s s' \<and>
    (\<forall>d. usb = Some d \<longrightarrow> (\<exists>d'. usb' = Some d' \<and> Some a \<notin> args d' \<and>
       (\<forall>\<sigma> E. usb_sim d \<sigma> E \<longrightarrow> usb_sim d' (sp_cancel (Some a) \<sigma>) E)))"
proof -
  from assms(1) obtain xs where o: "net_rep env (foreign uarg) s cs xs" "wiring uarg s" "serves uenv self uarg (set cs) usb"
    by (rule onlineE)
  from sc.error_ok [OF o(1) assms(2) wiringE [OF o(2)] o(3)] obtain s' ys where
    r: "connection_error env call_destroy err (Some a) (s, usb) = Some (s', forget a usb)"
      "net_rep env (foreign uarg) s' (remove1 a cs) ys" "sconf s' = sconf s" "serves uenv self uarg (set (remove1 a cs)) (forget a usb)"
      "dropped env a s s'" by blast
  have gone: "a \<notin> set (remove1 a cs)" using o(1) by (simp add: net_rep_def)
  have "\<exists>d'. forget a usb = Some d' \<and> Some a \<notin> args d' \<and> (\<forall>\<sigma> E. usb_sim d \<sigma> E \<longrightarrow> usb_sim d' (sp_cancel (Some a) \<sigma>) E)"
    if "usb = Some d" for d
  proof -
    let ?d = "d\<lparr>d_transactions := \<lambda>x. map_option (clear_arg (Some a)) (d_transactions d x)\<rparr>"
    have "forget a usb = Some ?d" using that by (simp add: forget_def)
    moreover have "Some a \<notin> args ?d" using r(4) gone calculation by (auto simp: serves_def)
    moreover have "usb_sim ?d (sp_cancel (Some a) \<sigma>) E" if "usb_sim d \<sigma> E" for \<sigma> E
    proof -
      from that obtain qs where "usb_rep d qs E" by (auto simp: usb_sim_def)
      from usbdali_cancel_eq [OF this, of "Some a"] usbdali_cancel_sim [OF that, of "Some a"] show ?thesis by auto
    qed
    ultimately show ?thesis by blast
  qed
  with r gone online_I [OF r(2,3) o(2) r(4)] show ?thesis by blast
qed

theorem connection_lost_witness:
  "\<exists>s' usb'. connection_error demo_net call_destroy DISPATCH_FD_CLOSED (Some 1) (demo_server (Some 100), demo_usb) = Some (s', usb') \<and>
     s_conns s' 1 = None"
proof -
  obtain d where d: "demo_usb = Some d" and on: "online demo_net demo_env 200 (Some 100) [1] (demo_server (Some 100), Some d)"
    by (rule demo_online)
  from connection_lost [OF on, of 1 DISPATCH_FD_CLOSED] show ?thesis unfolding d by (auto simp: dropped_def simp del: One_nat_def)
qed

text \<open>
  Property C34: a failed broadcast is undefined. When a message of the bus cannot be written to the first connection of the list,
  \<open>connection_reply\<close> removes that connection and its list node, and \<open>server_broadcast\<close> goes on to read the freed node.
\<close>

theorem server_broadcast_use_after_free:
  assumes "online env uenv self uarg (a # cs) (s, usb)" and "s_conns s a = Some c" and "\<not> c_waiting c"
    and "ne_write env (c_socket c) (take n bs) (s_os s) = (-1, os)" and "0 < n"
  shows "server_broadcast env call_destroy (Some bs) n (s, usb) = None"
proof -
  from assms(1) obtain xs where o: "net_rep env (foreign uarg) s (a # cs) xs" "wiring uarg s"
      "serves uenv self uarg (set (a # cs)) usb" by (rule onlineE)
  show ?thesis by (rule sc.broadcast_failed_write [OF o(1) assms(2,3) wiringE [OF o(2)] o(3) assms(4,5)])
qed

theorem server_broadcast_use_after_free_witness:
  "server_broadcast (demo_net\<lparr>ne_write := \<lambda>fd bs os. (-1, os)\<rparr>) call_destroy (Some [2, 2, 0xff, 8]) 4
     (demo_server None, None :: (fn, unit) UsbDaliPtr) = None"
proof -
  let ?env = "demo_net\<lparr>ne_write := \<lambda>fd bs os. (-1, os)\<rparr>"
  have "online ?env demo_env 200 None [1] (demo_server None, None)"
    using demo_online_dry by (simp add: online_def del: One_nat_def)
  from server_broadcast_use_after_free [OF this, of "demo_connection None" 4 "[2, 2, 0xff, 8]" "[]"] demo_server_rep(3,4) [of None]
  show ?thesis by (simp add: demo_connection_def del: One_nat_def)
qed

text \<open>
  Property C35: a client that sends a frame the server does not understand is cut off from the messages of the bus. The frame is ignored, but
  the connection stays marked as waiting for a reply that never comes, and broadcasts skip it.
\<close>

theorem invalid_frame_mutes:
  assumes "online env uenv self uarg cs (s, usb)" and "a \<in> set cs" and "s_conns s a = Some c"
    and "ne_read env (c_socket c) (c_buffer c \<noteq> None) 4 (s_os s) = ((4, bs), os)" and "length bs = 4"
    and "bs ! 0 \<noteq> 2 \<or> bs ! 1 \<noteq> 0" and "writes_ok env 4 (take n msg)" and "0 < n"
  shows "\<exists>s'. connection_ready env (call_recv env uenv) call_destroy (Some a) (s, usb) = Some (s', usb) \<and>
    online env uenv self uarg cs (s', usb) \<and> c_waiting (the (s_conns s' a)) \<and>
    server_broadcast env call_destroy (Some msg) n (s', usb) =
      Some (s'\<lparr>s_os := broadcast_writes env (s_conns s) (take n msg) (remove1 a cs) os\<rparr>, usb)"
proof -
  from assms(1) obtain xs where o: "net_rep env (foreign uarg) s cs xs" "wiring uarg s" "serves uenv self uarg (set cs) usb"
    by (rule onlineE)
  let ?c = "c\<lparr>c_waiting := True, c_buffer := Some bs\<rparr>"
  let ?s = "s\<lparr>s_os := os, s_conns := (s_conns s)(a \<mapsto> ?c)\<rparr>"
  have wd: "s_framesize s = 4" "s_recvfn s = Some F_net_frame_handler" using o(2) by (simp_all add: wiring_def DEFAULT_NET_FRAMESIZE_def)
  have rep: "net_rep env (foreign uarg) ?s cs xs"
    using net_rep_update [of env "foreign uarg" "s\<lparr>s_os := os\<rparr>" cs xs a c ?c] o(1) assms(3) by simp
  have "connection_ready env (call_recv env uenv) call_destroy (Some a) (s, usb) = Some (?s, usb)"
    using assms(3-6) wd by (auto simp: connection_ready_def call_recv_def net_frame_handler_def net_consts Let_def)
  moreover have "online env uenv self uarg cs (?s, usb)"
    by (rule online_I [OF rep _ o(2,3)]) simp
  moreover have "broadcast_writes env (s_conns ?s) (take n msg) cs os = broadcast_writes env (s_conns s) (take n msg) (remove1 a cs) os"
  proof -
    have "distinct cs" using o(1) by (simp add: net_rep_def)
    then have "filter (\<lambda>x. \<not> c_waiting (the (s_conns ?s x))) cs = filter (\<lambda>x. \<not> c_waiting (the (s_conns s x))) (remove1 a cs)"
      by (auto simp: distinct_remove1_removeAll removeAll_filter_not_eq intro!: filter_cong)
    then show ?thesis unfolding broadcast_writes_def
      by (intro fold_cong) (auto simp: \<open>distinct cs\<close>)
  qed
  ultimately show ?thesis
    using broadcast_all_served [OF rep _ assms(8), of msg usb] assms(7) wd(1) by (intro exI [of _ ?s]) simp
qed

theorem invalid_frame_mutes_witness:
  "\<exists>s'. connection_ready (demo_net\<lparr>ne_read := \<lambda>fd b k os. ((4, [9, 0, 0, 0]), os)\<rparr>)
       (call_recv (demo_net\<lparr>ne_read := \<lambda>fd b k os. ((4, [9, 0, 0, 0]), os)\<rparr>) demo_env) call_destroy (Some 1) (demo_server None, None) = Some (s', None) \<and>
     server_broadcast (demo_net\<lparr>ne_read := \<lambda>fd b k os. ((4, [9, 0, 0, 0]), os)\<rparr>) call_destroy (Some [2, 2, 0xff, 8]) 4
       (s', None :: (fn, unit) UsbDaliPtr) = Some (s'\<lparr>s_os := []\<rparr>, None)"
proof -
  let ?env = "demo_net\<lparr>ne_read := \<lambda>fd b k os. ((4, [9, 0, 0, 0]), os)\<rparr>"
  have on: "online ?env demo_env 200 None [1] (demo_server None, None)"
    using demo_online_dry by (simp add: online_def del: One_nat_def)
  have w: "writes_ok ?env 4 (take 4 [2, 2, 0xff, 8])" by (simp add: writes_ok_def demo_net_def)
  have r: "ne_read ?env (c_socket (demo_connection None)) (c_buffer (demo_connection None) \<noteq> None) 4 (s_os (demo_server None)) =
      ((4, [9, 0, 0, 0]), [])"
    using demo_server_rep(4) [of None] by simp
  from invalid_frame_mutes [OF on _ _ r _ _ w] demo_server_rep(3) [of None] show ?thesis
    by (auto simp: broadcast_writes_def simp del: One_nat_def)
qed



end
