(* ===== verification/Usb_Text.thy ===== *)
theory Usb_Text
  imports Usb_Properties Util Log
begin

unbundle bit_operations_syntax

text \<open>
  The texts of \<open>lib/usb.c\<close>: the names of error codes and the descriptions of packets that the driver prints when the log level
  is at least \<open>LOG_LEVEL_INFO\<close>. A dump reads the packet by its offsets, while the driver itself uses \<open>unpack\<close> and \<open>pack\<close>; the two views agree.
\<close>

section \<open>Names of codes\<close>

text \<open>The codes of \<open>libusb.h\<close>.\<close>

definition LIBUSB_SUCCESS :: int where "LIBUSB_SUCCESS = 0"
definition LIBUSB_ERROR_IO :: int where "LIBUSB_ERROR_IO = -1"
definition LIBUSB_ERROR_INVALID_PARAM :: int where "LIBUSB_ERROR_INVALID_PARAM = -2"
definition LIBUSB_ERROR_ACCESS :: int where "LIBUSB_ERROR_ACCESS = -3"
definition LIBUSB_ERROR_NO_DEVICE :: int where "LIBUSB_ERROR_NO_DEVICE = -4"
definition LIBUSB_ERROR_NOT_FOUND :: int where "LIBUSB_ERROR_NOT_FOUND = -5"
definition LIBUSB_ERROR_BUSY :: int where "LIBUSB_ERROR_BUSY = -6"
definition LIBUSB_ERROR_TIMEOUT :: int where "LIBUSB_ERROR_TIMEOUT = -7"
definition LIBUSB_ERROR_OVERFLOW :: int where "LIBUSB_ERROR_OVERFLOW = -8"
definition LIBUSB_ERROR_PIPE :: int where "LIBUSB_ERROR_PIPE = -9"
definition LIBUSB_ERROR_INTERRUPTED :: int where "LIBUSB_ERROR_INTERRUPTED = -10"
definition LIBUSB_ERROR_NO_MEM :: int where "LIBUSB_ERROR_NO_MEM = -11"
definition LIBUSB_ERROR_NOT_SUPPORTED :: int where "LIBUSB_ERROR_NOT_SUPPORTED = -12"
definition LIBUSB_ERROR_OTHER :: int where "LIBUSB_ERROR_OTHER = -99"

lemmas libusb_codes = LIBUSB_SUCCESS_def LIBUSB_ERROR_IO_def LIBUSB_ERROR_INVALID_PARAM_def LIBUSB_ERROR_ACCESS_def
  LIBUSB_ERROR_NO_DEVICE_def LIBUSB_ERROR_NOT_FOUND_def LIBUSB_ERROR_BUSY_def LIBUSB_ERROR_TIMEOUT_def
  LIBUSB_ERROR_OVERFLOW_def LIBUSB_ERROR_PIPE_def LIBUSB_ERROR_INTERRUPTED_def LIBUSB_ERROR_NO_MEM_def
  LIBUSB_ERROR_NOT_SUPPORTED_def LIBUSB_ERROR_OTHER_def

definition libusb_error_string :: "int \<Rightarrow> string" where
  "libusb_error_string error =
     (if error = LIBUSB_SUCCESS then ''Success''
      else if error = LIBUSB_ERROR_IO then ''I/O error''
      else if error = LIBUSB_ERROR_INVALID_PARAM then ''Invalid parameter''
      else if error = LIBUSB_ERROR_ACCESS then ''Access error''
      else if error = LIBUSB_ERROR_NO_DEVICE then ''No device''
      else if error = LIBUSB_ERROR_NOT_FOUND then ''Not found''
      else if error = LIBUSB_ERROR_BUSY then ''Busy''
      else if error = LIBUSB_ERROR_TIMEOUT then ''Timeout''
      else if error = LIBUSB_ERROR_OVERFLOW then ''Overflow''
      else if error = LIBUSB_ERROR_PIPE then ''Pipe error''
      else if error = LIBUSB_ERROR_INTERRUPTED then ''Interrupted''
      else if error = LIBUSB_ERROR_NO_MEM then ''No memory''
      else if error = LIBUSB_ERROR_NOT_SUPPORTED then ''Not supported''
      else if error = LIBUSB_ERROR_OTHER then ''Other error''
      else [])"

fun libusb_status_string :: "libusb_transfer_status \<Rightarrow> string" where
  "libusb_status_string LIBUSB_TRANSFER_COMPLETED = ''Completed''"
| "libusb_status_string LIBUSB_TRANSFER_TIMED_OUT = ''Timed out''"
| "libusb_status_string LIBUSB_TRANSFER_ERROR = ''Error''"
| "libusb_status_string LIBUSB_TRANSFER_CANCELLED = ''Cancelled''"
| "libusb_status_string LIBUSB_TRANSFER_STALL = ''Stalled''"
| "libusb_status_string LIBUSB_TRANSFER_NO_DEVICE = ''No device''"
| "libusb_status_string LIBUSB_TRANSFER_OVERFLOW = ''Overflow''"

text \<open>There is no case for \<open>USBDALI_RESPONSE\<close>.\<close>

definition usbdali_error_string :: "UsbDaliError \<Rightarrow> string" where
  "usbdali_error_string error = (case error of
     USBDALI_SUCCESS \<Rightarrow> ''Success''
   | USBDALI_SEND_TIMEOUT \<Rightarrow> ''Send timeout''
   | USBDALI_RECEIVE_TIMEOUT \<Rightarrow> ''Receive timeout''
   | USBDALI_SEND_ERROR \<Rightarrow> ''Send error''
   | USBDALI_RECEIVE_ERROR \<Rightarrow> ''Receive error''
   | USBDALI_QUEUE_FULL \<Rightarrow> ''Queue full''
   | USBDALI_INVALID_ARG \<Rightarrow> ''Invalid argument''
   | USBDALI_NO_MEMORY \<Rightarrow> ''No memory''
   | USBDALI_SYSTEM_ERROR \<Rightarrow> ''System error''
   | _ \<Rightarrow> [])"

section \<open>Descriptions of packets\<close>

text \<open>\<open>%02x\<close> of a byte, followed by a space. A buffer that is shorter than the length it is given with is read out of bounds.\<close>

definition hex_byte :: "byte \<Rightarrow> string" where
  "hex_byte b = hex_pad 2 (unat b) @ '' ''"

definition print_direction :: "byte \<Rightarrow> string" where
  "print_direction b =
     (if b = USBDALI_DIRECTION_DALI then ''Direction: DALI<->DALI ''
      else if b = USBDALI_DIRECTION_USB then ''Direction: USB<->DALI ''
      else ''Direction: Unknown ('' @ hex_pad 2 (unat b) @ '') '')"

definition usbdali_print_in :: "byte list option \<Rightarrow> nat \<Rightarrow> string option" where
  "usbdali_print_in buffer buflen = (case buffer of
     None \<Rightarrow> Some []
   | Some b \<Rightarrow>
     if buflen \<ge> 9 then
       (if length b < buflen then None
        else Some (print_direction (b ! 0) @
          (if b ! 1 = USBDALI_TYPE_NO_RESPONSE \<or> b ! 1 = USBDALI_TYPE_RESPONSE then ''Type: Send response ''
           else if b ! 1 = USBDALI_TYPE_COMPLETE then ''Type: Send complete ''
           else ''Type: Unknown ('' @ hex_pad 2 (unat (b ! 1)) @ '') '') @
          (if b ! 1 = USBDALI_TYPE_NO_RESPONSE then ''Response: ff ''
           else if b ! 1 = USBDALI_TYPE_RESPONSE then ''Response: '' @ hex_byte (b ! 5)
           else if b ! 1 = USBDALI_TYPE_COMPLETE \<or> b ! 1 = USBDALI_TYPE_BROADCAST
           then ''Address: '' @ hex_byte (b ! 4) @ ''Command: '' @ hex_byte (b ! 5)
           else ''Data: '' @ hex_byte (b ! 3) @ hex_byte (b ! 4) @ hex_byte (b ! 5)) @
          ''Status: '' @ hex_pad 4 (push_bit 8 (unat (b ! 6)) OR unat (b ! 7)) @ '' '' @
          (if b ! 1 = USBDALI_TYPE_NO_RESPONSE \<or> b ! 1 = USBDALI_TYPE_RESPONSE
           then ''Sequence number: '' @ hex_byte (b ! 8) else [])))
     else Some [])"

definition usbdali_print_out :: "byte list option \<Rightarrow> nat \<Rightarrow> string option" where
  "usbdali_print_out buffer buflen = (case buffer of
     None \<Rightarrow> Some []
   | Some b \<Rightarrow>
     if buflen \<ge> 8 then
       (if length b < buflen then None
        else Some (print_direction (b ! 0) @ ''Sequence number: '' @ hex_byte (b ! 1) @
          (if b ! 3 = USBDALI_TYPE_16BIT
           then ''Type: 16bit DALI Address: '' @ hex_byte (b ! 6) @ ''Command: '' @ hex_byte (b ! 7)
           else if b ! 3 = USBDALI_TYPE_24BIT
           then ''Type: 24bit DALI Command: '' @ hex_byte (b ! 5) @ ''Address: '' @ hex_byte (b ! 6) @ ''Value: '' @ hex_byte (b ! 7)
           else ''Type: Unknown ('' @ hex_pad 2 (unat (b ! 3)) @ '') Data: '' @ hex_byte (b ! 4) @ hex_byte (b ! 5) @
             hex_byte (b ! 6) @ hex_byte (b ! 7))))
     else Some [])"

text \<open>What \<open>usbdali_receive_callback\<close> and \<open>usbdali_send\<close> print besides the log messages.\<close>

definition receive_dump :: "nat \<Rightarrow> libusb_transfer \<Rightarrow> string option" where
  "receive_dump level x =
     (if x_actual_length x > 0 \<and> level \<ge> LOG_LEVEL_INFO then do {
        b \<leftarrow> x_buffer x;
        dump \<leftarrow> hexdump b (x_actual_length x);
        text \<leftarrow> usbdali_print_in (Some b) (x_actual_length x);
        Some (dump @ text @ [CHR 0x0A])
      } else Some [])"

definition send_dump :: "nat \<Rightarrow> byte list \<Rightarrow> string option" where
  "send_dump level b =
     (if level \<ge> LOG_LEVEL_INFO then do {
        dump \<leftarrow> hexdump b USBDALI_LENGTH;
        text \<leftarrow> usbdali_print_out (Some b) USBDALI_LENGTH;
        Some (dump @ text @ [CHR 0x0A])
      } else Some [])"

section \<open>The two views of a packet\<close>

definition describe :: "UsbDaliIn \<Rightarrow> string" where
  "describe i = print_direction (in_direction i) @
     (if in_type i = 0x71 \<or> in_type i = 0x72 then ''Type: Send response ''
      else if in_type i = 0x73 then ''Type: Send complete '' else ''Type: Unknown ('' @ hex_pad 2 (unat (in_type i)) @ '') '') @
     (if in_type i = 0x71 then ''Response: ff ''
      else if in_type i = 0x72 then ''Response: '' @ hex_byte (in_command i)
      else if in_type i = 0x73 \<or> in_type i = 0x74
      then ''Address: '' @ hex_byte (in_address i) @ ''Command: '' @ hex_byte (in_command i)
      else ''Data: '' @ hex_byte (in_ecommand i) @ hex_byte (in_address i) @ hex_byte (in_command i)) @
     ''Status: '' @ hex_pad 4 (unat (in_status i)) @ '' '' @
     (if in_type i = 0x71 \<or> in_type i = 0x72 then ''Sequence number: '' @ hex_byte (in_seqnum i) else [])"

lemma unat_big_endian: "unat (word16 False [a, b]) = push_bit 8 (unat a) OR unat b"
  by (rule bit_eqI) (auto simp: word16_def bit_simps bit_unsigned_iff dest: bit_imp_le_length)

lemmas packet_codes = USBDALI_DIRECTION_DALI_def USBDALI_DIRECTION_USB_def USBDALI_TYPE_16BIT_def USBDALI_TYPE_24BIT_def
  USBDALI_TYPE_NO_RESPONSE_def USBDALI_TYPE_RESPONSE_def USBDALI_TYPE_COMPLETE_def USBDALI_TYPE_BROADCAST_def

section \<open>Properties\<close>

text \<open>
  Property C24: the text printed for a received packet describes exactly the fields that the driver acts on. The driver extracts them
  with \<open>unpack\<close> and a format string, the dump by fixed offsets and shifts; on every packet both give the same values, whatever
  the byte order of the host, and both ignore a packet of fewer than nine bytes.
\<close>

theorem usbdali_print_in_describes:
  assumes "length b = USBDALI_LENGTH" and "n \<le> USBDALI_LENGTH"
  shows "usbdali_print_in (Some b) n =
    map_option (\<lambda>i. case i of None \<Rightarrow> [] | Some i \<Rightarrow> describe i) (unpack_in little (Some b) n)"
  using assms unpack_in_eq [OF assms, of little]
  by (simp add: usbdali_print_in_def describe_def parse_in_def unat_big_endian packet_codes)

theorem usbdali_print_in_describes_witness:
  "usbdali_print_in (Some demo_packet) 9 = Some (describe (parse_in demo_packet))"
  using usbdali_print_in_describes [of demo_packet 9 True] unpack_in_eq [of demo_packet 9 True]
  by (simp add: demo_packet_def USBDALI_LENGTH_def)

text \<open>
  Also: a dump is complete and in bounds: when a transfer with a full buffer is received at a sufficient log level, the dump is defined,
  and its lines read back to the bytes received.
\<close>

theorem receive_dump_complete:
  assumes "x_buffer x = Some b" and "length b = USBDALI_LENGTH" and "0 < x_actual_length x" and "x_actual_length x \<le> USBDALI_LENGTH"
    and "LOG_LEVEL_INFO \<le> level"
  shows "\<exists>dump descr. receive_dump level x = Some (dump @ descr @ [CHR 0x0A]) \<and> undump dump = take (x_actual_length x) b \<and>
    usbdali_print_in (Some b) (x_actual_length x) = Some descr"
proof -
  obtain dump where "hexdump b (x_actual_length x) = Some dump"
    using hexdump_undump [of b "x_actual_length x"] assms(2,4) by (auto simp: map_option_eq_Some)
  moreover from this have "undump dump = take (x_actual_length x) b"
    using hexdump_undump [of b "x_actual_length x"] assms(2,4) by simp
  moreover have "usbdali_print_in (Some b) (x_actual_length x) \<noteq> None" using assms(2,4) by (simp add: usbdali_print_in_def)
  then obtain descr where "usbdali_print_in (Some b) (x_actual_length x) = Some descr" by blast
  ultimately show ?thesis using assms by (auto simp: receive_dump_def)
qed

theorem receive_dump_complete_witness:
  "\<exists>dump descr. receive_dump 3 \<lparr>x_endpoint = 0x81, x_buffer = Some demo_packet, x_length = 64, x_callback = Receive_callback,
     x_timeout = 0, x_status = LIBUSB_TRANSFER_COMPLETED, x_actual_length = 9\<rparr> = Some (dump @ descr @ [CHR 0x0A]) \<and>
     undump dump = [0x12, 0x72, 0, 0, 0, 0x80, 0, 0x4f, 1]"
  using receive_dump_complete [of "\<lparr>x_endpoint = 0x81, x_buffer = Some demo_packet, x_length = 64, x_callback = Receive_callback,
     x_timeout = 0, x_status = LIBUSB_TRANSFER_COMPLETED, x_actual_length = 9\<rparr>" demo_packet 3]
  by (auto simp: demo_packet_def USBDALI_LENGTH_def LOG_LEVEL_INFO_def)

end
