(* ===== verification/Growing_Array.thy ===== *)
theory Growing_Array
  imports Prelude
begin

unbundle bit_operations_syntax

text \<open>
  The growing array of \<open>lib/array.c\<close>. The sizes are of type \<open>size_t\<close> and wrap around as in C; the block
  behind \<open>data\<close> is its list of bytes, \<open>None\<close> for NULL. \<open>malloc\<close> and \<open>realloc\<close> are arguments that
  return the new block or \<open>None\<close>.

  \<open>memcpy\<close> is undefined when an operand leaves its object or when the operands overlap.
\<close>

section \<open>Data\<close>

record Array =
  a_elemsize :: size_t
  a_allocated :: size_t
  a_length :: size_t
  a_data :: "byte list option"

type_synonym ArrayPtr = "Array option"

type_synonym block_malloc = "size_t \<Rightarrow> byte list option"
type_synonym block_realloc = "byte list option \<Rightarrow> size_t \<Rightarrow> byte list option"

text \<open>\<open>memcpy\<close> from another object into the block \<open>b\<close> at \<open>dst\<close>, and within one block.\<close>

definition memcpy_into :: "byte list \<Rightarrow> size_t \<Rightarrow> byte list \<Rightarrow> size_t \<Rightarrow> byte list option" where
  "memcpy_into b dst src n =
     (if unat dst + unat n \<le> length b \<and> unat n \<le> length src
      then Some (take (unat dst) b @ take (unat n) src @ drop (unat dst + unat n) b) else None)"

definition memcpy_within :: "byte list \<Rightarrow> size_t \<Rightarrow> size_t \<Rightarrow> size_t \<Rightarrow> byte list option" where
  "memcpy_within b dst src n =
     (if unat src + unat n \<le> length b \<and> (unat n = 0 \<or> unat dst + unat n \<le> unat src \<or> unat src + unat n \<le> unat dst)
      then memcpy_into b dst (drop (unat src) b) n else None)"

section \<open>Operations\<close>

definition array_new :: "bool \<Rightarrow> size_t \<Rightarrow> ArrayPtr" where
  "array_new malloc elemsize =
     (if malloc then Some \<lparr>a_elemsize = elemsize, a_allocated = 0, a_length = 0, a_data = None\<rparr> else None)"

text \<open>The number of blocks that \<open>array_free\<close> gives back.\<close>

definition array_free :: "ArrayPtr \<Rightarrow> nat" where
  "array_free array = (case array of None \<Rightarrow> 0 | Some a \<Rightarrow> (if a_data a \<noteq> None then 1 else 0) + 1)"

definition array_length :: "ArrayPtr \<Rightarrow> int" where
  "array_length array = (case array of None \<Rightarrow> -1 | Some a \<Rightarrow> sint (a_length a))"

text \<open>A pointer into the block is its offset. An offset to NULL is undefined, and so is one behind the block.\<close>

definition array_get :: "ArrayPtr \<Rightarrow> size_t \<Rightarrow> size_t option option" where
  "array_get array index = (case array of
     None \<Rightarrow> Some None
   | Some a \<Rightarrow>
     if index < a_length a then
       (case a_data a of
          None \<Rightarrow> None
        | Some b \<Rightarrow> if unat (a_elemsize a * index) \<le> length b then Some (Some (a_elemsize a * index)) else None)
     else Some None)"

definition array_append :: "block_malloc \<Rightarrow> block_realloc \<Rightarrow> ArrayPtr \<Rightarrow> byte list option \<Rightarrow> (int \<times> ArrayPtr) option" where
  "array_append malloc realloc array data = (case (array, data) of
     (Some a, Some d) \<Rightarrow>
       let a1 = (if a_data a = None then a\<lparr>a_allocated := 1, a_data := malloc (a_elemsize a * 1)\<rparr> else a);
           a2 = (if a_length a1 + 1 > a_allocated a1
                 then a1\<lparr>a_allocated := push_bit 1 (a_allocated a1),
                         a_data := realloc (a_data a1) (a_elemsize a1 * push_bit 1 (a_allocated a1))\<rparr>
                 else a1)
       in (case a_data a2 of
             Some b \<Rightarrow> do {
               b' \<leftarrow> memcpy_into b (a_elemsize a2 * a_length a2) d (a_elemsize a2);
               Some (sint (a_length a2), Some (a2\<lparr>a_data := Some b', a_length := a_length a2 + 1\<rparr>))
             }
           | None \<Rightarrow> Some (-1, Some a2))
   | _ \<Rightarrow> Some (-1, array))"

definition array_remove :: "ArrayPtr \<Rightarrow> size_t \<Rightarrow> ArrayPtr option" where
  "array_remove array index = (case array of
     None \<Rightarrow> Some None
   | Some a \<Rightarrow>
     if index < a_length a then do {
       b \<leftarrow> a_data a;
       b' \<leftarrow> memcpy_within b (a_elemsize a * index) (a_elemsize a * (index + 1)) (a_elemsize a * (a_length a - index));
       let a1 = a\<lparr>a_data := Some b', a_length := a_length a - 1\<rparr>;
       Some (Some (if a_length a1 < 1 then a1\<lparr>a_allocated := 0, a_data := None\<rparr> else a1))
     } else Some array)"

definition array_memsize :: "ArrayPtr \<Rightarrow> int" where
  "array_memsize array = (case array of None \<Rightarrow> -1 | Some a \<Rightarrow> sint (a_length a * a_elemsize a))"

definition array_storage :: "ArrayPtr \<Rightarrow> byte list option" where
  "array_storage array = Option.bind array a_data"

section \<open>Representation\<close>

text \<open>The array holds the elements \<open>xs\<close>; the block has room for \<open>a_allocated\<close> of them and its size does not overflow.\<close>

definition array_rep :: "Array \<Rightarrow> byte list list \<Rightarrow> bool" where
  "array_rep a xs \<longleftrightarrow> unat (a_length a) = length xs \<and> (\<forall>x\<in>set xs. length x = unat (a_elemsize a)) \<and>
     (case a_data a of None \<Rightarrow> xs = []
      | Some b \<Rightarrow> 0 < a_allocated a \<and> length xs \<le> unat (a_allocated a) \<and>
          length b = unat (a_elemsize a) * unat (a_allocated a) \<and> length b < 2 ^ 64 \<and>
          take (unat (a_elemsize a) * length xs) b = concat xs)"

text \<open>What C says of a \<open>malloc\<close> and a \<open>realloc\<close> that do not fail.\<close>

definition blocks_ok :: "block_malloc \<Rightarrow> block_realloc \<Rightarrow> bool" where
  "blocks_ok malloc realloc \<longleftrightarrow> (\<forall>n. \<exists>b. malloc n = Some b \<and> length b = unat n) \<and>
     (\<forall>b n. \<exists>b'. realloc (Some b) n = Some b' \<and> length b' = unat n \<and> take (min (length b) (unat n)) b' = take (unat n) b)"

lemma concat_length: "\<forall>x\<in>set xs. length x = n \<Longrightarrow> length (concat xs) = n * length xs"
  by (induction xs) simp_all

lemma concat_nth: "\<forall>x\<in>set xs. length x = n \<Longrightarrow> i < length xs \<Longrightarrow> take n (drop (n * i) (concat xs)) = xs ! i"
proof (induction xs arbitrary: i)
  case (Cons x xs)
  then show ?case by (cases i) simp_all
qed simp

lemma unat_times: "unat (x :: size_t) * unat y < 2 ^ 64 \<Longrightarrow> unat (x * y) = unat x * unat y"
  using unat_mult_lem [of x y] by simp

lemma unat_inc: "unat (x :: size_t) + 1 < 2 ^ 64 \<Longrightarrow> unat (x + 1) = unat x + 1"
  using unat_add_lem [of x 1] by simp

lemma unat_double: "2 * unat (x :: size_t) < 2 ^ 64 \<Longrightarrow> unat (push_bit 1 x) = 2 * unat x"
  using unat_mult_lem [of 2 x] by (simp add: push_bit_double mult.commute)

lemma sint_small: "unat (x :: size_t) < 2 ^ 63 \<Longrightarrow> sint x = int (unat x)"
proof -
  assume "unat x < 2 ^ 63"
  then have "unat x < 9223372036854775808" by simp
  then have "int (unat x) < 9223372036854775808" by linarith
  then have "uint x < 2 ^ 63" by simp
  moreover have "sint x = signed_take_bit 63 (uint x)" by (simp add: sint_uint)
  moreover have "- (2 ^ 63) \<le> uint x" by (rule order_trans [OF _ uint_ge_0]) simp
  ultimately show ?thesis using signed_take_bit_int_eq_self [of 63 "uint x"] by simp
qed

lemma append_store:
  assumes rep: "array_rep a xs" and b: "a_data a = Some b" and room: "length xs < unat (a_allocated a)"
    and d: "length d = unat (a_elemsize a)"
  shows "\<exists>b'. memcpy_into b (a_elemsize a * a_length a) d (a_elemsize a) = Some b' \<and>
    array_rep (a\<lparr>a_data := Some b', a_length := a_length a + 1\<rparr>) (xs @ [d])"
proof -
  have len: "length b = unat (a_elemsize a) * unat (a_allocated a)" "length b < 2 ^ 64" "unat (a_length a) = length xs"
      "take (unat (a_elemsize a) * length xs) b = concat xs" "\<forall>x\<in>set xs. length x = unat (a_elemsize a)"
    using rep b by (simp_all add: array_rep_def)
  have le: "unat (a_elemsize a) * (length xs + 1) \<le> length b"
    unfolding len(1) using room by (intro mult_le_mono) simp_all
  then have "unat (a_elemsize a) * length xs < 2 ^ 64" using len(2) by (simp add: algebra_simps)
  then have off: "unat (a_elemsize a * a_length a) = unat (a_elemsize a) * length xs"
    using unat_times [of "a_elemsize a" "a_length a"] len(3) by simp
  have "unat (a_allocated a) < 2 ^ 64" using unsigned_less [of "a_allocated a", where 'a = nat] by simp
  then have inc: "unat (a_length a + 1) = length xs + 1" using unat_inc [of "a_length a"] room len(3) by simp
  have "length (concat xs) = unat (a_elemsize a) * length xs" by (rule concat_length [OF len(5)])
  then have "memcpy_into b (a_elemsize a * a_length a) d (a_elemsize a) =
      Some (concat xs @ d @ drop (unat (a_elemsize a) * (length xs + 1)) b)"
    using le d len(4) by (simp add: memcpy_into_def off algebra_simps)
  with rep b inc room d le show ?thesis
    using \<open>length (concat xs) = _\<close> by (simp add: array_rep_def algebra_simps)
qed

lemma blocks_okE:
  assumes "blocks_ok malloc realloc"
  obtains m where "malloc n = Some m" "length m = unat n"
  using assms unfolding blocks_ok_def by blast

lemma append_grow:
  assumes ok: "blocks_ok malloc realloc" and rep: "array_rep a xs" and full: "a_data a = Some b" "length xs = unat (a_allocated a)"
    and fits: "2 * unat (a_allocated a) < 2 ^ 64" "unat (a_elemsize a) * (2 * unat (a_allocated a)) < 2 ^ 64"
  shows "\<exists>b'. realloc (Some b) (a_elemsize a * push_bit 1 (a_allocated a)) = Some b' \<and>
    array_rep (a\<lparr>a_allocated := push_bit 1 (a_allocated a), a_data := Some b'\<rparr>) xs"
proof -
  have n: "unat (push_bit 1 (a_allocated a)) = 2 * unat (a_allocated a)" by (rule unat_double [OF fits(1)])
  with unat_times [of "a_elemsize a" "push_bit 1 (a_allocated a)"] fits(2)
  have m: "unat (a_elemsize a * push_bit 1 (a_allocated a)) = unat (a_elemsize a) * (2 * unat (a_allocated a))" by simp
  obtain b' where b': "realloc (Some b) (a_elemsize a * push_bit 1 (a_allocated a)) = Some b'"
      "length b' = unat (a_elemsize a) * (2 * unat (a_allocated a))"
      "take (min (length b) (length b')) b' = take (length b') b"
    using ok m unfolding blocks_ok_def by metis
  have len: "length b = unat (a_elemsize a) * unat (a_allocated a)" "take (unat (a_elemsize a) * length xs) b = concat xs"
      "0 < unat (a_allocated a)"
    using rep full by (simp_all add: array_rep_def word_less_nat_alt)
  have "take (length b) b' = b" using b'(2,3) len(1) by simp
  moreover have "take (length b) b = concat xs" using len full(2) by simp
  ultimately have "take (unat (a_elemsize a) * length xs) b' = concat xs" using len(1) full(2) by simp
  with rep full b' fits n len(3) show ?thesis by (simp add: array_rep_def word_less_nat_alt)
qed

text \<open>One \<open>array_append\<close>: the element goes to the end, and its index is returned.\<close>

lemma append_ok:
  assumes ok: "blocks_ok malloc realloc" and rep: "array_rep a xs" and d: "length d = unat (a_elemsize a)"
    and cap: "a_data a \<noteq> None \<Longrightarrow> unat (a_allocated a) \<le> 2 * length xs"
    and fits: "2 * (length xs + 1) < 2 ^ 64" "unat (a_elemsize a) * (2 * (length xs + 1)) < 2 ^ 64"
  shows "\<exists>a'. array_append malloc realloc (Some a) (Some d) = Some (int (length xs), Some a') \<and> array_rep a' (xs @ [d]) \<and>
    a_elemsize a' = a_elemsize a \<and> unat (a_allocated a') \<le> 2 * length (xs @ [d])"
proof -
  have len: "unat (a_length a) = length xs" using rep by (simp add: array_rep_def)
  with fits(1) have s: "sint (a_length a) = int (length xs)" by (simp add: sint_small)
  have inc: "unat (a_length a + 1) = length xs + 1" using unat_inc [of "a_length a"] len fits(1) by simp
  show ?thesis
  proof (cases "a_data a")
    case None
    obtain m where m: "malloc (a_elemsize a) = Some m" "length m = unat (a_elemsize a)"
      by (rule blocks_okE [OF ok])
    let ?a = "a\<lparr>a_allocated := 1, a_data := Some m\<rparr>"
    have xs: "xs = []" using rep None by (simp add: array_rep_def)
    then have "array_rep ?a xs" using len m(2) fits(2) by (simp add: array_rep_def)
    from append_store [OF this, of m d] d xs obtain b' where
      "memcpy_into m (a_elemsize a * a_length a) d (a_elemsize a) = Some b'"
      "array_rep (?a\<lparr>a_data := Some b', a_length := a_length a + 1\<rparr>) (xs @ [d])" by auto
    moreover have "\<not> 1 < a_length a + 1" using inc xs by (simp add: word_less_nat_alt)
    ultimately show ?thesis using None m(1) s by (auto simp: array_append_def Let_def)
  next
    case (Some b)
    then have le: "length xs \<le> unat (a_allocated a)" using rep by (simp add: array_rep_def)
    show ?thesis
    proof (cases "length xs = unat (a_allocated a)")
      case False
      with le have lt: "length xs < unat (a_allocated a)" by simp
      then have "\<not> a_allocated a < a_length a + 1" using inc by (simp add: word_less_nat_alt)
      with append_store [OF rep Some lt d] Some s cap show ?thesis by (auto simp: array_append_def Let_def)
    next
      case True
      then have "a_allocated a < a_length a + 1" using inc by (simp add: word_less_nat_alt)
      moreover have "2 * unat (a_allocated a) < 2 ^ 64" using fits(1) True by simp
      moreover have "unat (a_elemsize a) * (2 * unat (a_allocated a)) < 2 ^ 64"
        using fits(2) True by (simp add: algebra_simps)
      moreover from append_grow [OF ok rep Some True calculation(2,3)] obtain b1 where
        b1: "realloc (Some b) (a_elemsize a * push_bit 1 (a_allocated a)) = Some b1"
          "array_rep (a\<lparr>a_allocated := push_bit 1 (a_allocated a), a_data := Some b1\<rparr>) xs" by blast
      moreover have n: "unat (push_bit 1 (a_allocated a)) = 2 * length xs" using unat_double calculation(2) True by simp
      moreover have "0 < unat (a_allocated a)" using rep Some by (simp add: array_rep_def word_less_nat_alt)
      ultimately show ?thesis
        using append_store [OF b1(2), of b1 d] d Some s True by (auto simp: array_append_def Let_def)
    qed
  qed
qed

text \<open>Appending a sequence of elements; the result has the returned indices.\<close>

fun array_append_all :: "block_malloc \<Rightarrow> block_realloc \<Rightarrow> ArrayPtr \<Rightarrow> byte list list \<Rightarrow> (int list \<times> ArrayPtr) option" where
  "array_append_all malloc realloc array [] = Some ([], array)"
| "array_append_all malloc realloc array (d # ds) = do {
     (i, array1) \<leftarrow> array_append malloc realloc array (Some d);
     (is, array2) \<leftarrow> array_append_all malloc realloc array1 ds;
     Some (i # is, array2)
   }"

lemma append_all_ok:
  assumes "blocks_ok malloc realloc" "array_rep a xs" "\<forall>d\<in>set ds. length d = unat (a_elemsize a)"
    "a_data a \<noteq> None \<Longrightarrow> unat (a_allocated a) \<le> 2 * length xs"
    "2 * length (xs @ ds) < 2 ^ 64" "unat (a_elemsize a) * (2 * length (xs @ ds)) < 2 ^ 64"
  shows "\<exists>a'. array_append_all malloc realloc (Some a) ds =
      Some (map int [length xs..<length (xs @ ds)], Some a') \<and> array_rep a' (xs @ ds) \<and> a_elemsize a' = a_elemsize a"
  using assms
proof (induction ds arbitrary: a xs)
  case (Cons d ds)
  have "2 * (length xs + 1) < 2 ^ 64" using Cons.prems(5) by simp
  moreover have "unat (a_elemsize a) * (2 * (length xs + 1)) \<le> unat (a_elemsize a) * (2 * length (xs @ d # ds))"
    by (intro mult_le_mono) simp_all
  then have "unat (a_elemsize a) * (2 * (length xs + 1)) < 2 ^ 64" using Cons.prems(6) by linarith
  ultimately obtain a1 where a1: "array_append malloc realloc (Some a) (Some d) = Some (int (length xs), Some a1)"
      "array_rep a1 (xs @ [d])" "a_elemsize a1 = a_elemsize a" "unat (a_allocated a1) \<le> 2 * length (xs @ [d])"
    using append_ok [OF Cons.prems(1,2) _ Cons.prems(4)] Cons.prems(3) by auto
  have "[length xs..<length (xs @ d # ds)] = length xs # [length (xs @ [d])..<length ((xs @ [d]) @ ds)]"
    using upt_conv_Cons [of "length xs" "length (xs @ d # ds)"] by simp
  with Cons.IH [OF Cons.prems(1) a1(2)] Cons.prems a1 show ?case by auto
qed simp

lemma array_rep_get:
  assumes rep: "array_rep a xs" and i: "i < length xs"
  shows "\<exists>off b. array_get (Some a) (of_nat i) = Some (Some off) \<and> a_data a = Some b \<and>
    take (unat (a_elemsize a)) (drop (unat off) b) = xs ! i"
proof -
  have len: "unat (a_length a) = length xs" "\<forall>x\<in>set xs. length x = unat (a_elemsize a)" using rep by (simp_all add: array_rep_def)
  obtain b where b: "a_data a = Some b" using rep i by (cases "a_data a") (auto simp: array_rep_def)
  then have blk: "take (unat (a_elemsize a) * length xs) b = concat xs" "length b < 2 ^ 64"
      "unat (a_elemsize a) * length xs \<le> length b"
    using rep by (simp_all add: array_rep_def)
  have "length xs < 2 ^ 64" using len(1) unsigned_less [of "a_length a", where 'a = nat] by simp
  then have idx: "unat (of_nat i :: size_t) = i" using i by (simp add: unat_of_nat)
  have lt: "unat (a_elemsize a) * i + unat (a_elemsize a) \<le> unat (a_elemsize a) * length xs"
    using i mult_le_mono2 [of "Suc i" "length xs" "unat (a_elemsize a)"] by simp
  then have off: "unat (a_elemsize a * of_nat i) = unat (a_elemsize a) * i"
    using unat_times [of "a_elemsize a" "of_nat i"] idx blk by simp
  have "take (unat (a_elemsize a)) (drop (unat (a_elemsize a) * i) b) =
      take (unat (a_elemsize a)) (drop (unat (a_elemsize a) * i) (concat xs))"
    unfolding blk(1) [symmetric] using lt by (simp add: drop_take min_def)
  with concat_nth [OF len(2) i] b i len(1) idx off lt blk(3) show ?thesis
    by (simp add: array_get_def word_less_nat_alt)
qed

lemma memcpy_within_keeps:
  assumes "memcpy_within b dst src n = Some b'"
  shows "length b' = length b" "take (unat dst) b' = take (unat dst) b"
  using assms by (auto simp: memcpy_within_def memcpy_into_def split: if_splits)

lemma remove_last_rep:
  assumes rep: "array_rep a xs" and b: "a_data a = Some b" and xs: "xs \<noteq> []"
    and b': "length b' = length b" "take (unat (a_elemsize a) * (length xs - 1)) b' = take (unat (a_elemsize a) * (length xs - 1)) b"
  shows "array_rep (if a_length a - 1 < 1 then a\<lparr>a_length := a_length a - 1, a_allocated := 0, a_data := None\<rparr>
    else a\<lparr>a_data := Some b', a_length := a_length a - 1\<rparr>) (butlast xs)"
proof -
  let ?e = "unat (a_elemsize a)"
  have len: "unat (a_length a) = length xs" using rep by (simp add: array_rep_def)
  then have "1 \<le> a_length a" using xs by (cases xs) (simp_all add: word_le_nat_alt)
  then have dec: "unat (a_length a - 1) = length (butlast xs)" using len by (simp add: unat_sub)
  have "concat xs = concat (butlast xs) @ last xs" using xs by (metis append_butlast_last_id concat.simps concat_append append_Nil2)
  moreover have "length (concat (butlast xs)) = ?e * (length xs - 1)"
    using concat_length [of "butlast xs" ?e] rep by (auto simp: array_rep_def dest: in_set_butlastD)
  ultimately have "take (?e * (length xs - 1)) (concat xs) = concat (butlast xs)" by simp
  moreover have "concat xs = take (?e * length xs) b" using rep b by (simp add: array_rep_def)
  ultimately have "take (?e * (length xs - 1)) b = concat (butlast xs)" by (simp add: min_def)
  moreover have "length xs \<le> Suc 0 \<Longrightarrow> butlast xs = []" by (cases xs) simp_all
  ultimately show ?thesis
    using rep b b' dec by (auto simp: array_rep_def word_less_nat_alt dest: in_set_butlastD)
qed

section \<open>Properties\<close>

text \<open>
  Property C30: an array is the sequence of the elements appended to it. As long as the sizes fit into \<open>size_t\<close> and
  memory is found, appending any elements to a new array returns their indices in order, the length and the memory
  size are right, and \<open>array_get\<close> returns, for each index, a pointer to a copy of that element.
\<close>

theorem array_holds_appended:
  assumes "blocks_ok malloc realloc" and "\<forall>d\<in>set ds. length d = unat elemsize"
    and "2 * length ds < 2 ^ 64" and "unat elemsize * (2 * length ds) < 2 ^ 64"
  shows "\<exists>a. array_append_all malloc realloc (array_new True elemsize) ds = Some (map int [0..<length ds], Some a) \<and>
    array_length (Some a) = int (length ds) \<and> array_memsize (Some a) = int (unat elemsize * length ds) \<and>
    (\<forall>i<length ds. \<exists>off b. array_get (Some a) (of_nat i) = Some (Some off) \<and> array_storage (Some a) = Some b \<and>
       take (unat elemsize) (drop (unat off) b) = ds ! i)"
proof -
  let ?new = "\<lparr>a_elemsize = elemsize, a_allocated = 0, a_length = 0, a_data = None\<rparr>"
  have "array_rep ?new []" by (simp add: array_rep_def)
  from append_all_ok [OF assms(1) this, of ds] assms(2-4) obtain a where
    a: "array_append_all malloc realloc (Some ?new) ds = Some (map int [0..<length ds], Some a)"
      "array_rep a ds" "a_elemsize a = elemsize" by auto
  have len: "unat (a_length a) = length ds" using a(2) by (simp add: array_rep_def)
  have "unat (a_length a * elemsize) = unat elemsize * length ds"
    using unat_times [of "a_length a" elemsize] len assms(4) by (simp add: mult.commute)
  then have "array_memsize (Some a) = int (unat elemsize * length ds)"
    using assms(4) a(3) sint_small [of "a_length a * elemsize"] by (simp add: array_memsize_def mult.commute)
  moreover have "array_length (Some a) = int (length ds)"
    using len assms(3) by (simp add: array_length_def sint_small)
  ultimately show ?thesis
    using a array_rep_get [OF a(2)] by (auto simp: array_new_def array_storage_def)
qed

definition zero_malloc :: block_malloc where
  "zero_malloc n = Some (replicate (unat n) 0)"

definition zero_realloc :: block_realloc where
  "zero_realloc b n = map_option (\<lambda>b. take (unat n) (b @ replicate (unat n) 0)) b"

lemma zero_blocks_ok: "blocks_ok zero_malloc zero_realloc"
  by (auto simp: blocks_ok_def zero_malloc_def zero_realloc_def min_def)

theorem array_holds_appended_witness:
  "\<exists>a. array_append_all zero_malloc zero_realloc (array_new True 2) [[1, 2], [3, 4], [5, 6]] = Some ([0, 1, 2], Some a) \<and>
     array_memsize (Some a) = 6"
  using array_holds_appended [OF zero_blocks_ok, of "[[1, 2], [3, 4], [5, 6]]" 2] by (auto simp: upt_rec)

text \<open>
  The copy of \<open>array_remove\<close> moves one element too many, so it is a valid \<open>memcpy\<close> in one case only: the
  element is the last one and the block has room behind it.
\<close>

lemma remove_memcpy:
  assumes "array_rep a xs" and "unat i < length xs" and "0 < a_elemsize a" and "a_data a = Some b"
  shows "memcpy_within b (a_elemsize a * i) (a_elemsize a * (i + 1)) (a_elemsize a * (a_length a - i)) = None \<longleftrightarrow>
      \<not> (unat i + 1 = length xs \<and> length xs < unat (a_allocated a))"
    and "unat (a_elemsize a * i) = unat (a_elemsize a) * unat i"
proof -
  let ?e = "unat (a_elemsize a)" and ?n = "length xs"
  have e: "0 < ?e" using assms(3) by (simp add: word_less_nat_alt)
  have len: "unat (a_length a) = ?n" using assms(1) by (simp add: array_rep_def)
  then have i: "i < a_length a" using assms(2) by (simp add: word_less_nat_alt)
  have blk: "length b = ?e * unat (a_allocated a)" "length b < 2 ^ 64" "?n \<le> unat (a_allocated a)"
      "take (?e * ?n) b = concat xs" "\<forall>x\<in>set xs. length x = ?e"
    using assms(1,4) by (simp_all add: array_rep_def)
  have small: "?e * k < 2 ^ 64" if "k \<le> ?n" for k
    using that blk(1-3) mult_le_mono2 [of k "unat (a_allocated a)" ?e] by linarith
  have "?n < 2 ^ 64" using len unsigned_less [of "a_length a", where 'a = nat] by simp
  with assms(2) have inc: "unat (i + 1) = unat i + 1" by (intro unat_inc) simp
  have sub: "unat (a_length a - i) = ?n - unat i" using i len by (simp add: unat_sub word_less_nat_alt le_less word_le_nat_alt)
  have off: "unat (a_elemsize a * i) = ?e * unat i" "unat (a_elemsize a * (i + 1)) = ?e * (unat i + 1)"
      "unat (a_elemsize a * (a_length a - i)) = ?e * (?n - unat i)"
    using unat_times [of "a_elemsize a" i] unat_times [of "a_elemsize a" "i + 1"] unat_times [of "a_elemsize a" "a_length a - i"]
      small [of "unat i"] small [of "unat i + 1"] small [of "?n - unat i"] inc sub assms(2) by simp_all
  have fits: "?e * (unat i + 1) + ?e * (?n - unat i) = ?e * (?n + 1)"
    using assms(2) by (simp flip: add_mult_distrib2)
  have room: "?e * (?n + 1) \<le> length b \<longleftrightarrow> ?n < unat (a_allocated a)"
    unfolding blk(1) mult_le_cancel1 using e by auto
  have apart: "?e * unat i + ?e * (?n - unat i) \<le> ?e * (unat i + 1) \<longleftrightarrow> unat i + 1 = ?n"
    unfolding add_mult_distrib2 [symmetric] mult_le_cancel1 using e assms(2) by auto
  have later: "\<not> ?e * (?n + 1) \<le> ?e * unat i" unfolding mult_le_cancel1 using e assms(2) by auto
  show "memcpy_within b (a_elemsize a * i) (a_elemsize a * (i + 1)) (a_elemsize a * (a_length a - i)) = None \<longleftrightarrow>
      \<not> (unat i + 1 = ?n \<and> ?n < unat (a_allocated a))"
  proof (cases "unat i + 1 = ?n \<and> ?n < unat (a_allocated a)")
    case False
    then show ?thesis unfolding memcpy_within_def off fits room using e assms(2) apart later by auto
  next
    case True
    then have "?e * (unat i + 1) + ?e * (?n - unat i) \<le> length b" unfolding fits room by blast
    moreover from True have "?e * unat i + ?e * (?n - unat i) \<le> ?e * (unat i + 1)" unfolding apart by blast
    ultimately have "memcpy_within b (a_elemsize a * i) (a_elemsize a * (i + 1)) (a_elemsize a * (a_length a - i)) \<noteq> None"
      unfolding memcpy_within_def memcpy_into_def off length_drop by simp
    with True show ?thesis by blast
  qed
  show "unat (a_elemsize a * i) = ?e * unat i" by (rule off(1))
qed

text \<open>
  Property C31: \<open>array_remove\<close> is defined only for the last element, and only when the block has room for one more.
  It copies one element too many, so removing the last element of a full block reads behind the block, and for any
  other index the operands of \<open>memcpy\<close> overlap.
\<close>

theorem array_remove_defined:
  assumes "array_rep a xs" and "unat i < length xs" and "0 < a_elemsize a"
  shows "if unat i + 1 = length xs \<and> length xs < unat (a_allocated a)
    then \<exists>a'. array_remove (Some a) i = Some (Some a') \<and> array_rep a' (butlast xs)
    else array_remove (Some a) i = None"
proof -
  let ?e = "unat (a_elemsize a)" and ?n = "length xs"
  have i: "i < a_length a" using assms(1,2) by (simp add: array_rep_def word_less_nat_alt)
  obtain b where b: "a_data a = Some b" using assms(1,2) by (cases "a_data a") (auto simp: array_rep_def)
  note copy = remove_memcpy [OF assms b]
  show ?thesis
  proof (cases "unat i + 1 = ?n \<and> ?n < unat (a_allocated a)")
    case False
    with copy(1) i b show ?thesis by (auto simp: array_remove_def)
  next
    case True
    with copy(1) obtain b' where
      b': "memcpy_within b (a_elemsize a * i) (a_elemsize a * (i + 1)) (a_elemsize a * (a_length a - i)) = Some b'" by blast
    have "?e * (?n - 1) = unat (a_elemsize a * i)" using True copy(2) by (metis add_diff_cancel_right')
    with memcpy_within_keeps [OF b'] have "length b' = length b" "take (?e * (?n - 1)) b' = take (?e * (?n - 1)) b" by simp_all
    moreover have "xs \<noteq> []" using assms(2) by auto
    ultimately have "array_rep (if a_length a - 1 < 1 then a\<lparr>a_length := a_length a - 1, a_allocated := 0, a_data := None\<rparr>
        else a\<lparr>a_data := Some b', a_length := a_length a - 1\<rparr>) (butlast xs)"
      by (intro remove_last_rep [OF assms(1) b])
    with True b' i b show ?thesis by (auto simp: array_remove_def Let_def split: if_splits)
  qed
qed

definition demo_array :: Array where
  "demo_array = \<lparr>a_elemsize = 1, a_allocated = 2, a_length = 1, a_data = Some [7, 0]\<rparr>"

theorem array_remove_defined_witness:
  "\<exists>a'. array_remove (Some demo_array) 0 = Some (Some a') \<and> array_rep a' []"
  using array_remove_defined [of demo_array "[[7]]" 0] by (simp add: demo_array_def array_rep_def)

text \<open>
  Also: when \<open>realloc\<close> fails, \<open>array_append\<close> reports the failure but loses the block and keeps the length.
  The next \<open>array_append\<close> that finds memory allocates two elements and writes the new one behind them.
\<close>

theorem array_append_realloc_failure:
  assumes "array_rep a xs" and "length xs = unat (a_allocated a)" and "2 \<le> length xs" and "2 * length xs < 2 ^ 64"
    and "0 < a_elemsize a" and "blocks_ok malloc realloc"
  shows "\<exists>a'. array_append malloc (\<lambda>b n. None) (Some a) (Some d) = Some (-1, Some a') \<and>
    array_length (Some a') = int (length xs) \<and> array_storage (Some a') = None \<and>
    array_append malloc realloc (Some a') (Some d) = None"
proof -
  let ?a = "a\<lparr>a_allocated := push_bit 1 (a_allocated a), a_data := None\<rparr>"
  have len: "unat (a_length a) = length xs" using assms(1) by (simp add: array_rep_def)
  obtain b where b: "a_data a = Some b" "unat (a_elemsize a) * length xs < 2 ^ 64"
    using assms(1-3) by (cases "a_data a") (auto simp: array_rep_def)
  have inc: "unat (a_length a + 1) = length xs + 1" using unat_inc [of "a_length a"] len assms(4) by simp
  then have "a_allocated a < a_length a + 1" using assms(2) by (simp add: word_less_nat_alt)
  then have "array_append malloc (\<lambda>b n. None) (Some a) (Some d) = Some (-1, Some ?a)"
    using b by (simp add: array_append_def Let_def)
  moreover have "array_length (Some ?a) = int (length xs)" using len assms(4) by (simp add: array_length_def sint_small)
  moreover have "array_append malloc realloc (Some ?a) (Some d) = None"
  proof -
    obtain m where m: "malloc (a_elemsize a) = Some m" by (rule blocks_okE [OF assms(6)])
    obtain b' where b': "realloc (Some m) (a_elemsize a * 2) = Some b'" "length b' = unat (a_elemsize a * 2)"
      using assms(6) unfolding blocks_ok_def by blast
    have "unat (a_elemsize a) * 2 \<le> unat (a_elemsize a) * length xs" using assms(3) by (rule mult_le_mono2)
    with b(2) have "unat (a_elemsize a) * 2 < 2 ^ 64" by linarith
    with \<open>unat (a_elemsize a) * 2 \<le> _\<close> have "length b' = unat (a_elemsize a) * 2" "unat (a_elemsize a) * 2 \<le> unat (a_elemsize a * a_length a)"
      using unat_times [of "a_elemsize a" 2] unat_times [of "a_elemsize a" "a_length a"] b(2) b'(2) len by simp_all
    then have "memcpy_into b' (a_elemsize a * a_length a) d (a_elemsize a) = None"
      using assms(5) by (simp add: memcpy_into_def word_less_nat_alt)
    moreover have "1 < a_length a + 1" using inc assms(3) by (auto simp: word_less_nat_alt)
    ultimately show ?thesis using m b'(1) by (simp add: array_append_def Let_def)
  qed
  ultimately show ?thesis by (auto simp: array_storage_def)
qed

definition full_array :: Array where
  "full_array = \<lparr>a_elemsize = 1, a_allocated = 2, a_length = 2, a_data = Some [7, 8]\<rparr>"

theorem array_append_realloc_failure_witness:
  "\<exists>a'. array_append zero_malloc (\<lambda>b n. None) (Some full_array) (Some [9]) = Some (-1, Some a') \<and>
     array_append zero_malloc zero_realloc (Some a') (Some [9]) = None"
proof -
  have "array_rep full_array [[7], [8]]" by (simp add: full_array_def array_rep_def)
  from array_append_realloc_failure [OF this _ _ _ _ zero_blocks_ok, of "[9]"] show ?thesis
    by (auto simp: full_array_def)
qed

end
